(* ===== verification/Prelude.thy ===== *)
theory Prelude
  imports Main "HOL-Library.Word" "HOL-Library.AList" "HOL-Library.Multiset"
    "HOL-Library.Product_Lexorder" "HOL-Library.List_Lexorder"
begin

section \<open>The parts of Rust and its standard library the components share\<close>

text \<open>
  What every component of the scanner uses of the language: results that may panic, three-way
  comparison, the string functions, unsigned integer parsing, and the hash maps of
  \<^verbatim>\<open>std::collections\<close> with their unspecified iteration order.

  A Rust \<^verbatim>\<open>String\<close> is the \<^typ>\<open>string\<close> of its UTF-8 bytes. Equality, order, concatenation and the
  search for an ASCII pattern are bytewise in Rust too. The character classes used by the
  program (\<^verbatim>\<open>is_alphabetic\<close>, \<^verbatim>\<open>to_lowercase\<close>, \<^verbatim>\<open>trim\<close>) are modelled on their ASCII part.
\<close>

named_theorems hashmap_simps \<open>lookups after an update of a hash map\<close>
named_theorems ordering_simps \<open>facts on three-way comparison\<close>
named_theorems exec_simps \<open>unfolding computations that may panic\<close>

subsection \<open>Computations that may panic\<close>

text \<open>A panic (an \<^verbatim>\<open>unwrap\<close> on an error, a failed \<^verbatim>\<open>assert\<close>, an index out of range) is a value.\<close>

datatype 'a exec = Panic | Ret 'a

fun exec_bind :: "'a exec \<Rightarrow> ('a \<Rightarrow> 'b exec) \<Rightarrow> 'b exec" where
  "exec_bind Panic f = Panic"
| "exec_bind (Ret a) f = f a"

definition exec_unwrap :: "'a option \<Rightarrow> 'a exec" where
  "exec_unwrap v = (case v of None \<Rightarrow> Panic | Some a \<Rightarrow> Ret a)"

lemma exec_unwrap_simps [simp, exec_simps]:
  "exec_unwrap None = Panic" "exec_unwrap (Some a) = Ret a"
  by (simp_all add: exec_unwrap_def)

lemma exec_bind_Ret_conv [exec_simps]:
  "exec_bind m f = Ret b \<longleftrightarrow> (\<exists>a. m = Ret a \<and> f a = Ret b)"
  by (cases m) auto

lemma exec_bind_Panic_conv [exec_simps]:
  "exec_bind m f = Panic \<longleftrightarrow> m = Panic \<or> (\<exists>a. m = Ret a \<and> f a = Panic)"
  by (cases m) auto

lemma exec_unwrap_Ret_conv [simp, exec_simps]: "exec_unwrap v = Ret a \<longleftrightarrow> v = Some a"
  by (cases v) auto

lemma exec_unwrap_Panic_conv [simp, exec_simps]: "exec_unwrap v = Panic \<longleftrightarrow> v = None"
  by (cases v) auto

lemma exec_bind_cong [fundef_cong]:
  "m = m' \<Longrightarrow> (\<And>a. m' = Ret a \<Longrightarrow> f a = g a) \<Longrightarrow> exec_bind m f = exec_bind m' g"
  by (cases m') auto

text \<open>The operator \<^verbatim>\<open>?\<close> on a fallible call: an error (left) is returned at once.\<close>

definition res_bind :: "('e + 'a) exec \<Rightarrow> ('a \<Rightarrow> ('e + 'b) exec) \<Rightarrow> ('e + 'b) exec" where
  "res_bind m f = exec_bind m (case_sum (\<lambda>e. Ret (Inl e)) f)"

lemma res_bind_simps [simp, exec_simps]:
  "res_bind Panic f = Panic" "res_bind (Ret (Inl e)) f = Ret (Inl e)" "res_bind (Ret (Inr a)) f = f a"
  by (simp_all add: res_bind_def)

lemma res_bind_Ok_conv [exec_simps]:
  "res_bind m f = Ret (Inr b) \<longleftrightarrow> (\<exists>a. m = Ret (Inr a) \<and> f a = Ret (Inr b))"
  by (cases m rule: exec.exhaust) (auto simp: res_bind_def split: sum.splits)

text \<open>\<^verbatim>\<open>flat_map\<close> with a function that may panic, consumed to its end.\<close>

fun exec_flat_map :: "('a \<Rightarrow> 'b list exec) \<Rightarrow> 'a list \<Rightarrow> 'b list exec" where
  "exec_flat_map f [] = Ret []"
| "exec_flat_map f (x # xs) = exec_bind (f x) (\<lambda>ys. exec_bind (exec_flat_map f xs) (\<lambda>zs. Ret (ys @ zs)))"

lemma exec_flat_map_Ret: "exec_flat_map (\<lambda>x. Ret (f x)) xs = Ret (concat (map f xs))"
  by (induction xs) auto

lemma exec_flat_map_Panic: "exec_flat_map f xs = Panic \<longleftrightarrow> (\<exists>x\<in>set xs. f x = Panic)"
  by (induction xs) (auto simp: exec_bind_Panic_conv, (metis exec.exhaust)+)

lemma exec_flat_map_members:
  "exec_flat_map f xs = Ret ys \<Longrightarrow> y \<in> set ys \<Longrightarrow> \<exists>x\<in>set xs. \<exists>zs. f x = Ret zs \<and> y \<in> set zs"
  by (induction xs arbitrary: ys) (auto simp: exec_bind_Ret_conv)

subsection \<open>Three-way comparison\<close>

datatype ordering = Less | Equal | Greater

fun reverse_ordering :: "ordering \<Rightarrow> ordering" where
  "reverse_ordering Less = Greater"
| "reverse_ordering Equal = Equal"
| "reverse_ordering Greater = Less"

abbreviation reverse_partial :: "ordering option \<Rightarrow> ordering option" where
  "reverse_partial \<equiv> map_option reverse_ordering"

definition ord_cmp :: "'a::linorder \<Rightarrow> 'a \<Rightarrow> ordering" where
  "ord_cmp a b = (if a < b then Less else if a = b then Equal else Greater)"

text \<open>Rust compares slices and strings lexicographically, a proper prefix first.\<close>

fun list_cmp :: "'a::linorder list \<Rightarrow> 'a list \<Rightarrow> ordering" where
  "list_cmp [] [] = Equal"
| "list_cmp [] (y # ys) = Less"
| "list_cmp (x # xs) [] = Greater"
| "list_cmp (x # xs) (y # ys) =
     (if x < y then Less else if x = y then list_cmp xs ys else Greater)"

lemma reverse_ordering_involution [simp, ordering_simps]:
  "reverse_ordering (reverse_ordering c) = c"
  by (cases c) auto

lemma reverse_ordering_eq_iff [simp, ordering_simps]:
  "reverse_ordering c = Less \<longleftrightarrow> c = Greater"
  "reverse_ordering c = Equal \<longleftrightarrow> c = Equal"
  "reverse_ordering c = Greater \<longleftrightarrow> c = Less"
  by (cases c; simp)+

lemma ord_cmp_iff [simp, ordering_simps]:
  "ord_cmp a b = Less \<longleftrightarrow> a < b"
  "ord_cmp a b = Equal \<longleftrightarrow> a = b"
  "ord_cmp a b = Greater \<longleftrightarrow> b < a"
  by (auto simp: ord_cmp_def)

lemma ord_cmp_reverse: "ord_cmp b a = reverse_ordering (ord_cmp a b)"
  by (auto simp: ord_cmp_def)

lemma list_cmp_ord_cmp: "list_cmp xs ys = ord_cmp xs ys"
  by (induction xs ys rule: list_cmp.induct) (auto simp: ord_cmp_def)

lemma list_cmp_reverse: "list_cmp ys xs = reverse_ordering (list_cmp xs ys)"
  by (simp add: list_cmp_ord_cmp ord_cmp_reverse [of ys xs])

lemma list_cmp_Equal_iff [simp, ordering_simps]: "list_cmp xs ys = Equal \<longleftrightarrow> xs = ys"
  by (simp add: list_cmp_ord_cmp)

lemma list_cmp_refl [simp]: "list_cmp xs xs = Equal"
  by simp

text \<open>The comparison operators Rust derives from \<^verbatim>\<open>partial_cmp\<close>.\<close>

definition partial_lt :: "ordering option \<Rightarrow> bool" where
  "partial_lt c = (c = Some Less)"

definition partial_le :: "ordering option \<Rightarrow> bool" where
  "partial_le c = (c = Some Less \<or> c = Some Equal)"

definition partial_gt :: "ordering option \<Rightarrow> bool" where
  "partial_gt c = (c = Some Greater)"

definition partial_ge :: "ordering option \<Rightarrow> bool" where
  "partial_ge c = (c = Some Greater \<or> c = Some Equal)"

lemmas partial_ops = partial_lt_def partial_le_def partial_gt_def partial_ge_def

lemma partial_ge_reverse: "partial_ge (reverse_partial c) = partial_le c"
  by (cases c) (auto simp: partial_ops)

text \<open>
  The contract of a \<^verbatim>\<open>PartialOrd\<close> implementation that the clients of a comparison rely on: a value
  equals itself and swapping the arguments reverses the answer.
\<close>

locale partial_ord =
  fixes cmp :: "'a \<Rightarrow> 'a \<Rightarrow> ordering option"
  assumes cmp_refl: "cmp a a = Some Equal"
    and cmp_reverse: "cmp b a = reverse_partial (cmp a b)"
begin

lemma lt_gt_dual: "partial_lt (cmp a b) \<longleftrightarrow> partial_gt (cmp b a)"
  by (cases "cmp a b") (auto simp: partial_ops cmp_reverse [of b a])

lemma le_ge_dual: "partial_le (cmp a b) \<longleftrightarrow> partial_ge (cmp b a)"
  by (cases "cmp a b") (auto simp: partial_ops cmp_reverse [of b a])

lemma lt_irrefl: "\<not> partial_lt (cmp a a)"
  by (simp add: partial_ops cmp_refl)

lemma lt_asym: "partial_lt (cmp a b) \<Longrightarrow> \<not> partial_lt (cmp b a)"
  by (auto simp: partial_ops cmp_reverse [of b a])

lemma comparable_sym: "cmp a b \<noteq> None \<longleftrightarrow> cmp b a \<noteq> None"
  by (cases "cmp a b") (auto simp: cmp_reverse [of b a])

end

subsection \<open>Characters and strings\<close>

abbreviation code_of :: "char \<Rightarrow> nat" where
  "code_of c \<equiv> of_char c"

definition is_digit :: "char \<Rightarrow> bool" where
  "is_digit c = (48 \<le> code_of c \<and> code_of c \<le> 57)"

definition is_upper :: "char \<Rightarrow> bool" where
  "is_upper c = (65 \<le> code_of c \<and> code_of c \<le> 90)"

definition is_lower :: "char \<Rightarrow> bool" where
  "is_lower c = (97 \<le> code_of c \<and> code_of c \<le> 122)"

definition is_alphabetic :: "char \<Rightarrow> bool" where
  "is_alphabetic c = (is_upper c \<or> is_lower c)"

definition to_lower_char :: "char \<Rightarrow> char" where
  "to_lower_char c = (if is_upper c then char_of (code_of c + 32) else c)"

definition to_lowercase :: "string \<Rightarrow> string" where
  "to_lowercase s = map to_lower_char s"

definition is_whitespace :: "char \<Rightarrow> bool" where
  "is_whitespace c = (code_of c = 32 \<or> (9 \<le> code_of c \<and> code_of c \<le> 13))"

definition str_trim :: "string \<Rightarrow> string" where
  "str_trim s = rev (dropWhile is_whitespace (rev (dropWhile is_whitespace s)))"

definition str_cmp :: "string \<Rightarrow> string \<Rightarrow> ordering" where
  "str_cmp a b = list_cmp (map code_of a) (map code_of b)"

text \<open>\<^verbatim>\<open>str::find\<close> for a string pattern: the first index where it starts.\<close>

fun str_find :: "string \<Rightarrow> string \<Rightarrow> nat option" where
  "str_find p [] = (if p = [] then Some 0 else None)"
| "str_find p (c # s) =
     (if take (length p) (c # s) = p then Some 0 else map_option Suc (str_find p s))"

text \<open>\<^verbatim>\<open>str::find\<close> for a character, and \<^verbatim>\<open>str::rsplit_once\<close>.\<close>

fun char_find :: "char \<Rightarrow> string \<Rightarrow> nat option" where
  "char_find p [] = None"
| "char_find p (c # s) = (if c = p then Some 0 else map_option Suc (char_find p s))"

definition rsplit_once :: "char \<Rightarrow> string \<Rightarrow> (string \<times> string) option" where
  "rsplit_once p s =
     (case char_find p (rev s) of
        None \<Rightarrow> None
      | Some i \<Rightarrow> Some (rev (drop (Suc i) (rev s)), rev (take i (rev s))))"

lemma map_code_of_inject [simp]: "map code_of a = map code_of b \<longleftrightarrow> a = b"
proof
  assume "map code_of a = map code_of b"
  then have "map (char_of :: nat \<Rightarrow> char) (map code_of a) = map char_of (map code_of b)"
    by simp
  then show "a = b" by (simp add: comp_def)
qed simp

lemma str_cmp_reverse: "str_cmp b a = reverse_ordering (str_cmp a b)"
  by (simp add: str_cmp_def list_cmp_reverse [of "map code_of b" "map code_of a"])

lemma str_cmp_Equal_iff [simp, ordering_simps]: "str_cmp a b = Equal \<longleftrightarrow> a = b"
  by (simp add: str_cmp_def)

lemma char_find_Some:
  "char_find p s = Some i \<Longrightarrow> \<exists>u v. s = u @ p # v \<and> p \<notin> set u \<and> length u = i"
proof (induction s arbitrary: i)
  case (Cons c s)
  show ?case
  proof (cases "c = p")
    case True
    with Cons.prems show ?thesis by (intro exI [of _ "[]"] exI [of _ s]) auto
  next
    case False
    with Cons.prems obtain j where "char_find p s = Some j" and i: "i = Suc j" by auto
    then obtain u v where "s = u @ p # v" "p \<notin> set u" "length u = j" using Cons.IH by blast
    with False i show ?thesis by (intro exI [of _ "c # u"] exI [of _ v]) auto
  qed
qed simp

lemma char_find_None: "char_find p s = None \<longleftrightarrow> p \<notin> set s"
  by (induction s) auto

lemma rsplit_once_Some:
  assumes "rsplit_once p s = Some (b, r)"
  shows "s = b @ p # r \<and> p \<notin> set r"
proof -
  from assms obtain i where i: "char_find p (rev s) = Some i"
    and b: "b = rev (drop (Suc i) (rev s))" and r: "r = rev (take i (rev s))"
    by (auto simp: rsplit_once_def split: option.splits)
  from char_find_Some [OF i] obtain u v where eq: "rev s = u @ p # v" and nin: "p \<notin> set u"
    and len: "length u = i" by blast
  from eq have s: "s = rev v @ p # rev u" by (simp add: rev_swap)
  show ?thesis unfolding b r s using nin len by simp
qed

lemma rsplit_once_append: "p \<notin> set r \<Longrightarrow> rsplit_once p (b @ p # r) = Some (b, r)"
proof -
  assume nin: "p \<notin> set r"
  have find: "p \<notin> set xs \<Longrightarrow> char_find p (xs @ p # ys) = Some (length xs)" for xs ys
    by (induction xs) auto
  have "char_find p (rev r @ p # rev b) = Some (length r)"
    using find [of "rev r" "rev b"] nin by simp
  then show ?thesis by (simp add: rsplit_once_def)
qed

lemma rsplit_once_None: "rsplit_once p s = None \<longleftrightarrow> p \<notin> set s"
  by (simp add: rsplit_once_def char_find_None split: option.splits)
    (metis char_find_None option.distinct(1) set_rev)

subsection \<open>Unsigned integer parsing\<close>

text \<open>The UTF-8 form of the characters below 256, which take one or two bytes.\<close>

definition len_utf8 :: "char \<Rightarrow> nat" where
  "len_utf8 c = (if code_of c < 128 then 1 else 2)"

definition utf8_bytes :: "char \<Rightarrow> 8 word list" where
  "utf8_bytes c = (let n = code_of c in if n < 128 then [of_nat n] else [of_nat (192 + n div 64), of_nat (128 + n mod 64)])"

definition byte_len :: "string \<Rightarrow> nat" where
  "byte_len s = sum_list (map len_utf8 s)"

definition as_bytes :: "string \<Rightarrow> 8 word list" where
  "as_bytes s = concat (map utf8_bytes s)"

text \<open>
  \<^verbatim>\<open>str::parse\<close> for an unsigned type of \<open>w\<close> bits: an optional plus sign, at least one digit, and an
  error on overflow.
\<close>

definition digit_val :: "char \<Rightarrow> nat" where
  "digit_val c = code_of c - 48"

definition digits_val :: "string \<Rightarrow> nat" where
  "digits_val s = foldl (\<lambda>n c. 10 * n + digit_val c) 0 s"

definition parse_uint :: "nat \<Rightarrow> string \<Rightarrow> nat option" where
  "parse_uint w s =
     (let ds = (case s of [] \<Rightarrow> [] | c # t \<Rightarrow> if c = CHR ''+'' then t else s)
      in if ds \<noteq> [] \<and> list_all is_digit ds \<and> digits_val ds < 2 ^ w then Some (digits_val ds) else None)"

definition parse_u32 :: "string \<Rightarrow> 32 word option" where
  "parse_u32 s = map_option of_nat (parse_uint 32 s)"

definition parse_u64 :: "string \<Rightarrow> 64 word option" where
  "parse_u64 s = map_option of_nat (parse_uint 64 s)"

lemma parse_uint_bound: "parse_uint w s = Some n \<Longrightarrow> n < 2 ^ w"
  by (auto simp: parse_uint_def Let_def split: if_splits)

lemma parse_u32_Some: "parse_u32 s = Some v \<longleftrightarrow> parse_uint 32 s = Some (unat v)"
proof (cases "parse_uint 32 s")
  case (Some n)
  then have "unat (of_nat n :: 32 word) = n"
    using parse_uint_bound [OF Some] by (simp add: unat_of_nat)
  with Some show ?thesis by (auto simp: parse_u32_def)
qed (simp add: parse_u32_def)

lemma is_digit_not_alphabetic: "is_digit c \<Longrightarrow> \<not> is_alphabetic c"
  by (auto simp: is_digit_def is_alphabetic_def is_upper_def is_lower_def)

lemma parse_uint_digits:
  assumes "s \<noteq> []" and "list_all is_digit s"
  shows "parse_uint w s = (if digits_val s < 2 ^ w then Some (digits_val s) else None)"
proof -
  obtain c t where s: "s = c # t" using assms(1) by (cases s) auto
  have "c \<noteq> CHR ''+''" using assms(2) s by (auto simp: is_digit_def)
  with assms s show ?thesis by (simp add: parse_uint_def)
qed

subsection \<open>Positions\<close>

text \<open>\<^verbatim>\<open>Iterator::position\<close>: the index of the first element with a property.\<close>

fun position :: "('a \<Rightarrow> bool) \<Rightarrow> 'a list \<Rightarrow> nat option" where
  "position p [] = None"
| "position p (x # xs) = (if p x then Some 0 else map_option Suc (position p xs))"

lemma position_split:
  "position p xs = Some i \<Longrightarrow> \<exists>us x vs. xs = us @ x # vs \<and> length us = i \<and> p x \<and> list_all (\<lambda>y. \<not> p y) us"
proof (induction xs arbitrary: i)
  case (Cons x xs)
  show ?case
  proof (cases "p x")
    case True
    with Cons.prems show ?thesis by (intro exI [of _ "[]"] exI [of _ x] exI [of _ xs]) simp
  next
    case False
    with Cons.prems obtain j where "position p xs = Some j" and i: "i = Suc j" by auto
    with Cons.IH obtain us y vs where "xs = us @ y # vs" "length us = j" "p y" "list_all (\<lambda>y. \<not> p y) us" by blast
    with False i show ?thesis by (intro exI [of _ "x # us"] exI [of _ y] exI [of _ vs]) simp
  qed
qed simp

lemma position_None: "position p xs = None \<longleftrightarrow> list_all (\<lambda>y. \<not> p y) xs"
  by (induction xs) auto

subsection \<open>Decimal output and signed integer parsing\<close>

text \<open>An \<^verbatim>\<open>i64\<close> is a 64 bit word read with \<^const>\<open>sint\<close>; \<^verbatim>\<open>{}\<close> prints it in decimal.\<close>

fun show_nat :: "nat \<Rightarrow> string" where
  "show_nat n = (if n < 10 then [char_of (48 + n)] else show_nat (n div 10) @ [char_of (48 + n mod 10)])"

declare show_nat.simps [simp del]

definition show_i64 :: "64 word \<Rightarrow> string" where
  "show_i64 w = (if sint w < 0 then CHR ''-'' # show_nat (nat (- sint w)) else show_nat (nat (sint w)))"

definition parse_i64 :: "string \<Rightarrow> 64 word option" where
  "parse_i64 s =
     (let (neg, ds) = (case s of [] \<Rightarrow> (False, [])
            | c # t \<Rightarrow> if c = CHR ''-'' then (True, t) else if c = CHR ''+'' then (False, t) else (False, s));
          v = (if neg then - int (digits_val ds) else int (digits_val ds))
      in if ds \<noteq> [] \<and> list_all is_digit ds \<and> - (2 ^ 63) \<le> v \<and> v < 2 ^ 63 then Some (of_int v) else None)"

lemma digits_val_snoc: "digits_val (s @ [c]) = 10 * digits_val s + digit_val c"
  by (simp add: digits_val_def)

lemma show_nat_digits: "list_all is_digit (show_nat n) \<and> show_nat n \<noteq> [] \<and> digits_val (show_nat n) = n"
proof (induction n rule: show_nat.induct)
  case (1 n)
  have dig: "is_digit (char_of (48 + m)) \<and> digit_val (char_of (48 + m)) = m" if "m < 10" for m :: nat
    using that by (auto simp: is_digit_def digit_val_def)
  show ?case
  proof (cases "n < 10")
    case True
    then show ?thesis using dig [of n] by (simp add: show_nat.simps [of n] digits_val_def)
  next
    case False
    then have "list_all is_digit (show_nat (n div 10)) \<and> digits_val (show_nat (n div 10)) = n div 10"
      using 1 by blast
    then show ?thesis using False dig [of "n mod 10"] by (simp add: show_nat.simps [of n] digits_val_snoc)
  qed
qed

lemma show_nat_head: "show_nat n = c # t \<Longrightarrow> c \<noteq> CHR ''-'' \<and> c \<noteq> CHR ''+''"
  using show_nat_digits [of n] by (auto simp: is_digit_def)

lemma parse_show_i64: "parse_i64 (show_i64 w) = Some w"
proof -
  have range: "- (2 ^ 63) \<le> sint w" "sint w < 2 ^ 63"
    using sint_greater_eq [of w] sint_less [of w] by simp_all
  obtain c t where ct: "show_nat (nat (sint w)) = c # t"
    using show_nat_digits [of "nat (sint w)"] by (cases "show_nat (nat (sint w))") auto
  show ?thesis
    using range show_nat_digits [of "nat (- sint w)"] show_nat_digits [of "nat (sint w)"]
      show_nat_head [OF ct] ct
    by (auto simp: parse_i64_def show_i64_def)
qed

subsection \<open>Hash maps\<close>

text \<open>
  A \<^verbatim>\<open>HashMap\<close> is an association list with distinct keys; \<^verbatim>\<open>get\<close>, \<^verbatim>\<open>insert\<close> and \<^verbatim>\<open>remove\<close> are
  \<^const>\<open>map_of\<close>, \<^const>\<open>AList.update\<close> and \<^const>\<open>AList.delete\<close>. The order in which Rust iterates over
  a map is unspecified and can differ from one map to the next: an operation that iterates takes
  the iteration as an argument, any function that permutes the entries.
\<close>

type_synonym ('k, 'v) hashmap = "('k \<times> 'v) list"

abbreviation hm_get :: "('k, 'v) hashmap \<Rightarrow> 'k \<Rightarrow> 'v option" where
  "hm_get \<equiv> map_of"

abbreviation hm_insert :: "'k \<Rightarrow> 'v \<Rightarrow> ('k, 'v) hashmap \<Rightarrow> ('k, 'v) hashmap" where
  "hm_insert \<equiv> AList.update"

abbreviation hm_remove :: "'k \<Rightarrow> ('k, 'v) hashmap \<Rightarrow> ('k, 'v) hashmap" where
  "hm_remove \<equiv> AList.delete"

abbreviation hm_contains :: "('k, 'v) hashmap \<Rightarrow> 'k \<Rightarrow> bool" where
  "hm_contains m k \<equiv> map_of m k \<noteq> None"

abbreviation hm_wf :: "('k, 'v) hashmap \<Rightarrow> bool" where
  "hm_wf m \<equiv> distinct (map fst m)"

definition iteration :: "('a list \<Rightarrow> 'a list) \<Rightarrow> bool" where
  "iteration it = (\<forall>xs. mset (it xs) = mset xs)"

lemma hm_get_insert [simp, hashmap_simps]: "hm_get (hm_insert k v m) = (hm_get m)(k \<mapsto> v)"
  by (simp add: update_conv')

lemma hm_get_remove [simp, hashmap_simps]: "hm_get (hm_remove k m) = (hm_get m)(k := None)"
  by (simp add: delete_conv')

lemma hm_wf_insert [hashmap_simps]: "hm_wf m \<Longrightarrow> hm_wf (hm_insert k v m)"
  by (rule distinct_update)

lemma hm_wf_remove [hashmap_simps]: "hm_wf m \<Longrightarrow> hm_wf (hm_remove k m)"
  by (rule distinct_delete)

text \<open>The idiom that collects values under a key: push to the entry, or insert a new one.\<close>

definition hm_push :: "'k \<Rightarrow> 'v \<Rightarrow> ('k, 'v list) hashmap \<Rightarrow> ('k, 'v list) hashmap" where
  "hm_push k v m = (case hm_get m k of
      Some vs \<Rightarrow> hm_insert k (vs @ [v]) m
    | None \<Rightarrow> hm_insert k [v] m)"

definition nonempty :: "'a list \<Rightarrow> 'a list option" where
  "nonempty xs = (if xs = [] then None else Some xs)"

definition group_of :: "'k \<Rightarrow> ('k \<times> 'v) list \<Rightarrow> 'v list" where
  "group_of k xs = map snd (filter (\<lambda>x. fst x = k) xs)"

definition hm_push_all :: "('k \<times> 'v) list \<Rightarrow> ('k, 'v list) hashmap \<Rightarrow> ('k, 'v list) hashmap" where
  "hm_push_all xs m = fold (\<lambda>x. hm_push (fst x) (snd x)) xs m"

lemma hm_get_push [simp, hashmap_simps]:
  "hm_get (hm_push k v m) = (hm_get m)(k \<mapsto> (case hm_get m k of None \<Rightarrow> [] | Some vs \<Rightarrow> vs) @ [v])"
  by (auto simp: hm_push_def split: option.splits)

lemma hm_wf_push [hashmap_simps]: "hm_wf m \<Longrightarrow> hm_wf (hm_push k v m)"
  by (auto simp: hm_push_def distinct_update split: option.splits)

lemma group_of_simps [simp]:
  "group_of k [] = []"
  "group_of k (x # xs) = (if fst x = k then snd x # group_of k xs else group_of k xs)"
  "group_of k (xs @ ys) = group_of k xs @ group_of k ys"
  by (simp_all add: group_of_def)

lemma nonempty_simps [simp]: "nonempty [] = None" "nonempty (x # xs) = Some (x # xs)"
  by (simp_all add: nonempty_def)

lemma hm_push_all_simps [simp]:
  "hm_push_all [] m = m" "hm_push_all (x # xs) m = hm_push_all xs (hm_push (fst x) (snd x) m)"
  "hm_push_all (xs @ ys) m = hm_push_all ys (hm_push_all xs m)"
  by (simp_all add: hm_push_all_def)

lemma hm_get_push_all_extend:
  "hm_get (hm_push_all xs m) k = (case hm_get m k of
     None \<Rightarrow> nonempty (group_of k xs) | Some vs \<Rightarrow> Some (vs @ group_of k xs))"
  by (induction xs arbitrary: m) (auto split: option.splits)

lemma hm_get_push_all [hashmap_simps]: "hm_get (hm_push_all xs []) k = nonempty (group_of k xs)"
  by (simp add: hm_get_push_all_extend)

lemma hm_wf_push_all [hashmap_simps]: "hm_wf m \<Longrightarrow> hm_wf (hm_push_all xs m)"
  by (induction xs arbitrary: m) (auto simp: hm_wf_push)

lemma iteration_set: "iteration it \<Longrightarrow> set (it xs) = set xs"
  by (metis iteration_def set_mset_mset)

lemma iteration_length: "iteration it \<Longrightarrow> length (it xs) = length xs"
  by (metis iteration_def size_mset)

lemma iteration_distinct: "iteration it \<Longrightarrow> distinct (it xs) \<longleftrightarrow> distinct xs"
  by (metis iteration_def mset_eq_imp_distinct_iff)

lemma iteration_id: "iteration (\<lambda>xs. xs)"
  by (simp add: iteration_def)

lemma iteration_rev: "iteration rev"
  by (simp add: iteration_def)

subsection \<open>Ordered maps\<close>

text \<open>A \<^verbatim>\<open>BTreeMap\<close> is an association list sorted by its keys.\<close>

type_synonym ('k, 'v) btreemap = "('k \<times> 'v) list"

fun bt_insert :: "'k::linorder \<Rightarrow> 'v \<Rightarrow> ('k, 'v) btreemap \<Rightarrow> ('k, 'v) btreemap" where
  "bt_insert k v [] = [(k, v)]"
| "bt_insert k v ((l, w) # m) =
     (if k < l then (k, v) # (l, w) # m else if k = l then (k, v) # m else (l, w) # bt_insert k v m)"

abbreviation bt_wf :: "('k::linorder, 'v) btreemap \<Rightarrow> bool" where
  "bt_wf m \<equiv> sorted_wrt (<) (map fst m)"

lemma bt_insert_keys: "fst ` set (bt_insert k v m) = insert k (fst ` set m)"
  by (induction k v m rule: bt_insert.induct) auto

lemma bt_get_insert: "bt_wf m \<Longrightarrow> map_of (bt_insert k v m) = (map_of m)(k \<mapsto> v)"
proof (induction k v m rule: bt_insert.induct)
  case (2 k v l w m)
  then show ?case by (auto simp: fun_eq_iff)
qed auto

lemma bt_wf_insert: "bt_wf m \<Longrightarrow> bt_wf (bt_insert k v m)"
proof (induction k v m rule: bt_insert.induct)
  case (2 k v l w m)
  have "set (map fst (bt_insert k v m)) = insert k (set (map fst m))" by (simp add: bt_insert_keys)
  with 2 show ?case by (auto simp del: set_map)
qed auto

end
