(* ===== verification/Package_Version.thy ===== *)
theory Package_Version
  imports Prelude
begin

section \<open>Package version strings\<close>

text \<open>
  \<^verbatim>\<open>PackageVersion\<close> of \<^verbatim>\<open>rust/src/notus/packages/mod.rs\<close>: a version string is cut into parts by the
  regular expression \<^verbatim>\<open>(\d+|.)\<close> and the parts are compared from left to right. The regular
  expression engine is the \<^verbatim>\<open>regex\<close> crate; its \<^verbatim>\<open>find_iter\<close> for that pattern is an argument of the
  definitions. The theory shows that the comparison is antisymmetric for every such argument, and
  that on canonical versions it is the lexicographic order of a key, hence a total order.
\<close>

subsection \<open>The comparison\<close>

datatype package_version = PackageVersion (pv_string: string)

definition all_alphabetic :: "string \<Rightarrow> bool" where
  "all_alphabetic s = list_all is_alphabetic s"

text \<open>The comparison of two parts that differ: numbers, then letters, then the rest.\<close>

definition part_cmp :: "string \<Rightarrow> string \<Rightarrow> ordering" where
  "part_cmp a b =
     (case (parse_u32 a, parse_u32 b) of
        (Some x, Some y) \<Rightarrow> ord_cmp x y
      | (Some _, None) \<Rightarrow> Greater
      | (None, Some _) \<Rightarrow> Less
      | (None, None) \<Rightarrow>
          (case (all_alphabetic a, all_alphabetic b) of
             (True, True) \<Rightarrow> str_cmp (to_lowercase a) (to_lowercase b)
           | (True, False) \<Rightarrow> (if b = ''~'' then Greater else Less)
           | (False, True) \<Rightarrow> (if a = ''~'' then Less else Greater)
           | (False, False) \<Rightarrow>
               (if (a \<noteq> ''~'' \<and> str_cmp a b = Greater) \<or> b = ''~'' then Greater else Less)))"

text \<open>The loop over the parts; it falls through to \<^const>\<open>None\<close> when all parts agree.\<close>

fun parts_cmp :: "string list \<Rightarrow> string list \<Rightarrow> ordering option" where
  "parts_cmp [] [] = None"
| "parts_cmp [] (b # bs) = Some (if b = ''~'' then Greater else Less)"
| "parts_cmp (a # as) [] = Some (if a = ''~'' then Less else Greater)"
| "parts_cmp (a # as) (b # bs) = (if a = b then parts_cmp as bs else Some (part_cmp a b))"

definition pv_partial_cmp ::
  "(string \<Rightarrow> string list) \<Rightarrow> package_version \<Rightarrow> package_version \<Rightarrow> ordering option" where
  "pv_partial_cmp find_iter v w =
     (if pv_string v = pv_string w then Some Equal
      else parts_cmp (find_iter (pv_string v)) (find_iter (pv_string w)))"

subsection \<open>Antisymmetry\<close>

lemma part_cmp_reverse: "a \<noteq> b \<Longrightarrow> part_cmp b a = reverse_ordering (part_cmp a b)"
  using ord_cmp_reverse [of "the (parse_u32 b)" "the (parse_u32 a)"]
    str_cmp_reverse [of "to_lowercase b" "to_lowercase a"] str_cmp_reverse [of b a]
  by (cases "str_cmp a b") (auto simp: part_cmp_def split: option.splits bool.splits)

lemma parts_cmp_reverse: "parts_cmp bs as = reverse_partial (parts_cmp as bs)"
proof (induction as bs rule: parts_cmp.induct)
  case (4 a as b bs)
  then show ?case using part_cmp_reverse [of a b] by auto
qed auto

interpretation pv: partial_ord "pv_partial_cmp find_iter" for find_iter
  by unfold_locales (auto simp: pv_partial_cmp_def intro: parts_cmp_reverse)

subsection \<open>The documented behaviour of the pattern\<close>

text \<open>
  What \<^verbatim>\<open>find_iter\<close> promises for \<^verbatim>\<open>(\d+|.)\<close>: every match is a run of digits or one character that is
  no digit, and on a text without a line feed (which the dot does not match) the matches are the
  whole text.
\<close>

definition is_part :: "string \<Rightarrow> bool" where
  "is_part p = ((p \<noteq> [] \<and> list_all is_digit p) \<or> (length p = 1 \<and> list_all (\<lambda>c. \<not> is_digit c) p))"

definition parts_regex :: "(string \<Rightarrow> string list) \<Rightarrow> bool" where
  "parts_regex f = (\<forall>s. list_all is_part (f s) \<and> (CHR 0x0A \<notin> set s \<longrightarrow> concat (f s) = s))"

text \<open>A function that cuts a string this way, to evaluate the comparison on examples.\<close>

function split_parts :: "string \<Rightarrow> string list" where
  "split_parts [] = []"
| "split_parts (c # s) =
     (if is_digit c then (c # takeWhile is_digit s) # split_parts (dropWhile is_digit s)
      else if c = CHR 0x0A then split_parts s
      else [c] # split_parts s)"
  by pat_completeness auto
termination
  by (relation "measure length") (auto simp: length_dropWhile_le le_imp_less_Suc)

lemma split_parts_parts: "list_all is_part (split_parts s)"
  by (induction s rule: split_parts.induct)
    (auto simp: is_part_def list_all_iff dest: set_takeWhileD)

lemma split_parts_concat: "CHR 0x0A \<notin> set s \<Longrightarrow> concat (split_parts s) = s"
proof (induction s rule: split_parts.induct)
  case (2 c s)
  have "CHR 0x0A \<notin> set (dropWhile is_digit s)" using "2.prems" set_dropWhileD by fastforce
  with 2 show ?case by auto
qed simp

lemma parts_regex_split_parts: "parts_regex split_parts"
  by (simp add: parts_regex_def split_parts_parts split_parts_concat)

subsection \<open>The order the comparison computes\<close>

text \<open>
  The key of a part: the tilde comes before the end of the version, which comes before letters,
  other characters and numbers, in that order; within a class the characters or the number decide.
\<close>

definition part_key :: "string \<Rightarrow> nat \<times> nat list" where
  "part_key p =
     (if p = ''~'' then (0, [])
      else case parse_uint 32 p of
        Some n \<Rightarrow> (4, [n])
      | None \<Rightarrow> (if all_alphabetic p then (2, map code_of p) else (3, map code_of p)))"

definition end_key :: "nat \<times> nat list" where
  "end_key = (1, [])"

definition version_key :: "(string \<Rightarrow> string list) \<Rightarrow> string \<Rightarrow> (nat \<times> nat list) list" where
  "version_key f s = map part_key (f s) @ [end_key]"

text \<open>A part is canonical when a number fits 32 bits and has no leading zero, and a letter is lower case.\<close>

definition canonical_part :: "string \<Rightarrow> bool" where
  "canonical_part p =
     (if list_all is_digit p then p \<noteq> [] \<and> (length p = 1 \<or> hd p \<noteq> CHR ''0'') \<and> digits_val p < 2 ^ 32
      else length p = 1 \<and> list_all (\<lambda>c. \<not> is_upper c) p)"

definition canonical_version :: "(string \<Rightarrow> string list) \<Rightarrow> string \<Rightarrow> bool" where
  "canonical_version f s = (CHR 0x0A \<notin> set s \<and> list_all canonical_part (f s))"

subsubsection \<open>Numbers without a leading zero are determined by their value\<close>

lemma foldl_digits: "foldl (\<lambda>n c. 10 * n + digit_val c) k s = k * 10 ^ length s + digits_val s"
proof (induction s arbitrary: k)
  case (Cons c s)
  have "digits_val (c # s) = foldl (\<lambda>n c. 10 * n + digit_val c) (digit_val c) s"
    by (simp add: digits_val_def)
  also have "\<dots> = digit_val c * 10 ^ length s + digits_val s" by (rule Cons.IH)
  finally show ?case using Cons.IH [of "10 * k + digit_val c"] by (simp add: algebra_simps)
qed (simp add: digits_val_def)

lemma digits_val_Cons: "digits_val (c # s) = digit_val c * 10 ^ length s + digits_val s"
  using foldl_digits [of "digit_val c" s] by (simp add: digits_val_def)

lemma digits_val_bound: "list_all is_digit s \<Longrightarrow> digits_val s < 10 ^ length s"
proof (induction s)
  case (Cons c s)
  have "digit_val c \<le> 9" using Cons.prems by (auto simp: is_digit_def digit_val_def)
  then have le: "digit_val c * 10 ^ length s \<le> 9 * 10 ^ length s" by (rule mult_le_mono1)
  have "digits_val s < 10 ^ length s" using Cons by simp
  with le show ?case unfolding digits_val_Cons length_Cons power_Suc by linarith
qed (simp add: digits_val_def)

lemma digit_val_inject: "is_digit c \<Longrightarrow> is_digit d \<Longrightarrow> digit_val c = digit_val d \<Longrightarrow> c = d"
  by (auto simp: is_digit_def digit_val_def)
    (metis char_of_char diff_diff_cancel le_add_diff_inverse2)

lemma digits_val_inject_length:
  "length s = length t \<Longrightarrow> list_all is_digit s \<Longrightarrow> list_all is_digit t \<Longrightarrow>
   digits_val s = digits_val t \<Longrightarrow> s = t"
proof (induction s t rule: list_induct2)
  case (Cons c s d t)
  let ?m = "10 ^ length t :: nat"
  have bounds: "digits_val s < ?m" "digits_val t < ?m"
    using digits_val_bound [of s] digits_val_bound [of t] Cons.prems Cons.hyps by auto
  have eq: "digit_val c * ?m + digits_val s = digit_val d * ?m + digits_val t"
    using Cons.prems(3) Cons.hyps by (simp add: digits_val_Cons)
  have "(digit_val c * ?m + digits_val s) div ?m = digit_val c"
    and "(digit_val d * ?m + digits_val t) div ?m = digit_val d"
    using bounds by simp_all
  with eq have "digit_val c = digit_val d" by simp
  moreover from this eq have "digits_val s = digits_val t" by simp
  ultimately show ?case using Cons digit_val_inject [of c d] by simp
qed simp

lemma digits_val_lower:
  assumes "list_all is_digit (c # s)" and "c \<noteq> CHR ''0''"
  shows "10 ^ length s \<le> digits_val (c # s)"
proof -
  have "digit_val c \<noteq> 0"
    using assms digit_val_inject [of c "CHR ''0''"] by (auto simp: is_digit_def digit_val_def)
  then show ?thesis by (cases "digit_val c") (auto simp: digits_val_Cons)
qed

lemma canonical_length:
  assumes "s \<noteq> []" "list_all is_digit s" "length s = 1 \<or> hd s \<noteq> CHR ''0''"
    and "list_all is_digit t" "digits_val t = digits_val s"
    and "t \<noteq> []" "length t = 1 \<or> hd t \<noteq> CHR ''0''"
  shows "length s \<le> length t"
proof (rule ccontr)
  assume "\<not> length s \<le> length t"
  then have len: "length t < length s" by simp
  obtain c s' where s: "s = c # s'" using assms(1) by (cases s) auto
  with len assms(6) have "c \<noteq> CHR ''0''" using assms(3) by (cases t) auto
  then have "10 ^ length s' \<le> digits_val s" using digits_val_lower assms(2) s by auto
  moreover have "digits_val t < 10 ^ length t" using digits_val_bound assms(4) by auto
  moreover have "(10::nat) ^ length t \<le> 10 ^ length s'" using len s by (intro power_increasing) auto
  ultimately show False using assms(5) by simp
qed

lemma digits_val_inject:
  assumes "s \<noteq> []" "list_all is_digit s" "length s = 1 \<or> hd s \<noteq> CHR ''0''"
    and "t \<noteq> []" "list_all is_digit t" "length t = 1 \<or> hd t \<noteq> CHR ''0''"
    and "digits_val s = digits_val t"
  shows "s = t"
proof (rule digits_val_inject_length)
  show "length s = length t"
    using canonical_length [of s t] canonical_length [of t s] assms by (intro order_antisym) auto
qed (use assms in auto)

subsubsection \<open>The comparison of canonical parts is the comparison of their keys\<close>

lemma parse_uint_single: "\<not> is_digit c \<Longrightarrow> parse_uint w [c] = None"
  by (simp add: parse_uint_def)

lemma parse_u32_None: "parse_u32 s = None \<longleftrightarrow> parse_uint 32 s = None"
  by (simp add: parse_u32_def)

lemma canonical_number:
  assumes "canonical_part p" "list_all is_digit p"
  shows "parse_uint 32 p = Some (digits_val p)" "part_key p = (4, [digits_val p])"
    "parse_u32 p = Some (of_nat (digits_val p))"
proof -
  show n: "parse_uint 32 p = Some (digits_val p)"
    using assms by (auto simp: canonical_part_def parse_uint_digits)
  have "p \<noteq> ''~''" using assms(2) by (auto simp: is_digit_def)
  with n show "part_key p = (4, [digits_val p])" by (simp add: part_key_def)
  from n show "parse_u32 p = Some (of_nat (digits_val p))" by (simp add: parse_u32_def)
qed

lemma canonical_char:
  assumes "canonical_part p" "\<not> list_all is_digit p"
  obtains c where "p = [c]" "\<not> is_digit c" "\<not> is_upper c" "parse_u32 p = None"
    "part_key p = (if c = CHR ''~'' then (0, []) else if is_alphabetic c then (2, [code_of c]) else (3, [code_of c]))"
proof -
  from assms obtain c where p: "p = [c]" and up: "\<not> is_upper c"
    by (auto simp: canonical_part_def length_Suc_conv)
  then have dig: "\<not> is_digit c" using assms(2) by auto
  have "parse_uint 32 p = None" using p dig by (simp add: parse_uint_single)
  then show thesis
    using p up dig that by (auto simp: part_key_def parse_u32_None all_alphabetic_def)
qed

lemma tilde_not_alphabetic [simp]: "\<not> is_alphabetic (CHR ''~'')"
  by (simp add: is_alphabetic_def is_upper_def is_lower_def)

lemma code_of_eq_iff [simp]: "code_of c = code_of d \<longleftrightarrow> c = d"
  by (metis char_of_char)

lemma part_cmp_key:
  assumes ca: "canonical_part a" and cb: "canonical_part b" and neq: "a \<noteq> b"
  shows "part_cmp a b = ord_cmp (part_key a) (part_key b)" and "part_key a \<noteq> part_key b"
proof -
  have "part_cmp a b = ord_cmp (part_key a) (part_key b) \<and> part_key a \<noteq> part_key b"
  proof (cases "list_all is_digit a"; cases "list_all is_digit b")
    assume da: "list_all is_digit a" and db: "list_all is_digit b"
    let ?x = "digits_val a" and ?y = "digits_val b"
    have bounds: "?x < 2 ^ 32" "?y < 2 ^ 32" using ca cb da db by (auto simp: canonical_part_def)
    have "?x \<noteq> ?y" using digits_val_inject [of a b] ca cb da db neq by (auto simp: canonical_part_def)
    moreover have "ord_cmp (of_nat ?x :: 32 word) (of_nat ?y) = ord_cmp ?x ?y"
      using bounds by (auto simp: ord_cmp_def word_less_nat_alt unat_of_nat word_unat_eq_iff)
    ultimately show ?thesis
      using canonical_number [OF ca da] canonical_number [OF cb db]
      by (auto simp: part_cmp_def ord_cmp_def)
  next
    assume da: "list_all is_digit a" and db: "\<not> list_all is_digit b"
    obtain d where "parse_u32 b = None" "b = [d]"
      "part_key b = (if d = CHR ''~'' then (0, []) else if is_alphabetic d then (2, [code_of d]) else (3, [code_of d]))"
      using canonical_char [OF cb db] by metis
    then show ?thesis using canonical_number [OF ca da] by (auto simp: part_cmp_def ord_cmp_def)
  next
    assume da: "\<not> list_all is_digit a" and db: "list_all is_digit b"
    obtain c where "parse_u32 a = None" "a = [c]"
      "part_key a = (if c = CHR ''~'' then (0, []) else if is_alphabetic c then (2, [code_of c]) else (3, [code_of c]))"
      using canonical_char [OF ca da] by metis
    then show ?thesis using canonical_number [OF cb db] by (auto simp: part_cmp_def ord_cmp_def)
  next
    assume da: "\<not> list_all is_digit a" and db: "\<not> list_all is_digit b"
    obtain c where a: "parse_u32 a = None" "a = [c]" "\<not> is_upper c"
      "part_key a = (if c = CHR ''~'' then (0, []) else if is_alphabetic c then (2, [code_of c]) else (3, [code_of c]))"
      using canonical_char [OF ca da] by metis
    obtain d where b: "parse_u32 b = None" "b = [d]" "\<not> is_upper d"
      "part_key b = (if d = CHR ''~'' then (0, []) else if is_alphabetic d then (2, [code_of d]) else (3, [code_of d]))"
      using canonical_char [OF cb db] by metis
    have lower: "to_lowercase a = a" "to_lowercase b = b"
      using a b by (simp_all add: to_lowercase_def to_lower_char_def)
    have "str_cmp a b = ord_cmp (code_of c) (code_of d)" using a b by (auto simp: str_cmp_def ord_cmp_def)
    with a b neq lower show ?thesis
      by (auto simp: part_cmp_def all_alphabetic_def ord_cmp_def)
  qed
  then show "part_cmp a b = ord_cmp (part_key a) (part_key b)" and "part_key a \<noteq> part_key b" by auto
qed

lemma canonical_part_not_end: "canonical_part p \<Longrightarrow> part_key p < end_key \<longleftrightarrow> p = ''~''" "part_key p \<noteq> end_key"
  by (auto simp: part_key_def end_key_def split: option.splits)

lemma parts_cmp_key:
  "list_all canonical_part as \<Longrightarrow> list_all canonical_part bs \<Longrightarrow> as \<noteq> bs \<Longrightarrow>
   parts_cmp as bs = Some (list_cmp (map part_key as @ [end_key]) (map part_key bs @ [end_key]))"
proof (induction as bs rule: parts_cmp.induct)
  case (2 b bs)
  then show ?case using canonical_part_not_end [of b] by auto
next
  case (3 a as)
  then show ?case using canonical_part_not_end [of a] by auto
next
  case (4 a as b bs)
  then show ?case using part_cmp_key [of a b] by (auto simp: ord_cmp_def)
qed simp

lemma parts_regex_inject:
  "parts_regex f \<Longrightarrow> CHR 0x0A \<notin> set s \<Longrightarrow> CHR 0x0A \<notin> set t \<Longrightarrow> f s = f t \<Longrightarrow> s = t"
  by (metis parts_regex_def)



text \<open>
  Swapping the operands of \<^verbatim>\<open>PackageVersion::partial_cmp\<close> reverses its answer, for all strings
  and whatever the regular expression engine returns: two versions are never each older than the
  other.
\<close>

theorem pv_partial_cmp_antisymmetric:
  "pv_partial_cmp f w v = reverse_partial (pv_partial_cmp f v w)"
  by (rule pv.cmp_reverse)

subsection \<open>Where the comparison leaves the documented order\<close>

lemma parts_cmp_common_prefix: "parts_cmp (p @ as) (p @ bs) = parts_cmp as bs"
  by (induction p) auto

text \<open>
  The first pair of different parts that are numbers of the same value ends the comparison
  with \<^verbatim>\<open>Equal\<close>, whatever follows: \<^verbatim>\<open>2.04.1\<close> and \<^verbatim>\<open>2.4.9\<close> are equal versions. The
  documentation of \<^verbatim>\<open>PackageVersion\<close> says that the steps are repeated until a difference is found
  or both strings are exhausted.
\<close>

theorem pv_equal_numbers_end_comparison:
  assumes "f v = p @ a # as" and "f w = p @ b # bs" and "a \<noteq> b"
    and "parse_u32 a = Some n" and "parse_u32 b = Some n" and "v \<noteq> w"
  shows "pv_partial_cmp f (PackageVersion v) (PackageVersion w) = Some Equal"
  using assms by (simp add: pv_partial_cmp_def parts_cmp_common_prefix part_cmp_def)

theorem pv_equal_numbers_end_comparison_witness:
  "pv_partial_cmp split_parts (PackageVersion ''2.04.1'') (PackageVersion ''2.4.9'') = Some Equal"
proof -
  have v: "split_parts ''2.04.1'' = [''2'', ''.''] @ ''04'' # [''.'', ''1'']"
    and w: "split_parts ''2.4.9'' = [''2'', ''.''] @ ''4'' # [''.'', ''9'']"
    by (simp_all add: is_digit_def)
  have a: "parse_u32 ''04'' = Some 4" and b: "parse_u32 ''4'' = Some 4"
    by (simp_all add: parse_u32_def parse_uint_def is_digit_def digits_val_def digit_val_def)
  show ?thesis by (rule pv_equal_numbers_end_comparison [where f = split_parts, OF v w _ a b]) simp_all
qed

text \<open>
  A number that does not fit 32 bits is not compared by its value: it sorts before every number
  that fits. The documentation says that the numerical values of the two parts are compared.
\<close>

theorem pv_large_number_sorts_first:
  assumes "f v = p @ a # as" and "f w = p @ b # bs" and "v \<noteq> w"
    and "b \<noteq> []" and "list_all is_digit b" and "2 ^ 32 \<le> digits_val b"
    and "parse_u32 a = Some n"
  shows "pv_partial_cmp f (PackageVersion w) (PackageVersion v) = Some Less \<and> unat n < digits_val b"
proof -
  have none: "parse_u32 b = None" using assms(4,5,6) by (simp add: parse_u32_def parse_uint_digits)
  then have "b \<noteq> a" using assms(7) by auto
  moreover have "unat n < 2 ^ 32" using assms(7) parse_uint_bound [of 32 a] by (simp add: parse_u32_Some)
  ultimately show ?thesis
    using assms none by (simp add: pv_partial_cmp_def parts_cmp_common_prefix part_cmp_def)
qed

theorem pv_large_number_sorts_first_witness:
  "pv_partial_cmp split_parts (PackageVersion ''20241201093000'') (PackageVersion ''7'') = Some Less"
proof -
  have v: "split_parts ''7'' = [] @ ''7'' # []"
    and w: "split_parts ''20241201093000'' = [] @ ''20241201093000'' # []"
    by (simp_all add: is_digit_def)
  have n: "parse_u32 ''7'' = Some 7"
    by (simp add: parse_u32_def parse_uint_def is_digit_def digits_val_def digit_val_def)
  have d: "list_all is_digit ''20241201093000''" and l: "2 ^ 32 \<le> digits_val ''20241201093000''"
    by (simp_all add: is_digit_def digits_val_def digit_val_def)
  show ?thesis using pv_large_number_sorts_first [where f = split_parts, OF v w _ _ d l n] by simp
qed

end
