(* ===== verification/Packages.thy ===== *)
theory Packages
  imports Package_Version
begin

section \<open>The package formats of notus\<close>

text \<open>
  The five implementations of the trait \<^verbatim>\<open>Package\<close> under \<^verbatim>\<open>rust/src/notus/packages\<close>: \<^verbatim>\<open>deb.rs\<close>,
  \<^verbatim>\<open>rpm.rs\<close>, \<^verbatim>\<open>ebuild.rs\<close>, \<^verbatim>\<open>slack.rs\<close> and \<^verbatim>\<open>windows.rs\<close>. Each is a record with its parsers and its
  \<^verbatim>\<open>partial_cmp\<close>. The trait is the locale \<open>package_trait\<close>, and every format is shown to satisfy it. The
  compiled regular expressions (statics of the source, evaluated by the \<^verbatim>\<open>regex\<close> crate) are the
  fields of one record that the parsers take as an argument.
\<close>

subsection \<open>The trait and the regular expressions\<close>

text \<open>A match: entry \<open>i\<close> is the text of capture group \<open>i\<close>, entry 0 the whole match.\<close>

type_synonym captures = "string option list"

definition capture :: "captures \<Rightarrow> nat \<Rightarrow> string \<Rightarrow> string" where
  "capture c i d = (if i < length c then (case c ! i of None \<Rightarrow> d | Some m \<Rightarrow> m) else d)"

record regexes =
  re_parts :: "string \<Rightarrow> string list"
  re_deb :: "string \<Rightarrow> captures option"
  re_deb_wo_revision :: "string \<Rightarrow> captures option"
  re_deb_version :: "string \<Rightarrow> captures option"
  re_deb_version_wo_revision :: "string \<Rightarrow> captures option"
  re_rpm :: "string \<Rightarrow> captures option"
  re_rpm_version :: "string \<Rightarrow> captures option"
  re_slack :: "string \<Rightarrow> captures option"
  re_slack_version :: "string \<Rightarrow> captures option"

abbreviation cmp_version :: "regexes \<Rightarrow> package_version \<Rightarrow> package_version \<Rightarrow> ordering option" where
  "cmp_version R \<equiv> pv_partial_cmp (re_parts R)"

text \<open>The methods of the trait; \<^verbatim>\<open>Package\<close> extends \<^verbatim>\<open>PartialOrd\<close>.\<close>

record 'p package_ops =
  op_get_name :: "'p \<Rightarrow> string"
  op_get_version :: "'p \<Rightarrow> string"
  op_from_full_name :: "string \<Rightarrow> 'p option exec"
  op_from_name_and_full_version :: "string \<Rightarrow> string \<Rightarrow> 'p option exec"
  op_partial_cmp :: "'p \<Rightarrow> 'p \<Rightarrow> ordering option"

locale package_trait = partial_ord "op_partial_cmp ops" for ops :: "'p package_ops" +
  assumes cmp_same_name: "op_partial_cmp ops a b \<noteq> None \<Longrightarrow> op_get_name ops a = op_get_name ops b"
begin

lemma lt_same_name: "partial_lt (op_partial_cmp ops a b) \<Longrightarrow> op_get_name ops a = op_get_name ops b"
  using cmp_same_name [of a b] by (auto simp: partial_ops)

lemma other_name_incomparable: "op_get_name ops a \<noteq> op_get_name ops b \<Longrightarrow> op_partial_cmp ops a b = None"
  using cmp_same_name by blast

end

text \<open>
  Several formats compare a chain of versions: a decided difference is returned, an equal or
  undecided comparison moves on to the next one (\<^verbatim>\<open>if let Some(comp) = .. { if comp.is_ne() .. }\<close>).
\<close>

definition cmp_then :: "ordering option \<Rightarrow> ordering option \<Rightarrow> ordering option" where
  "cmp_then c d = (case c of Some o1 \<Rightarrow> if o1 \<noteq> Equal then Some o1 else d | None \<Rightarrow> d)"

lemma cmp_then_reverse: "reverse_partial (cmp_then c d) = cmp_then (reverse_partial c) (reverse_partial d)"
  by (auto simp: cmp_then_def split: option.splits)

lemma cmp_then_simps [simp]:
  "cmp_then (Some Equal) d = d" "cmp_then (Some Less) d = Some Less"
  "cmp_then (Some Greater) d = Some Greater" "cmp_then None d = d"
  by (simp_all add: cmp_then_def)

definition epoch_cmp :: "64 word \<Rightarrow> 64 word \<Rightarrow> ordering" where
  "epoch_cmp a b = (if a > b then Greater else Less)"

lemma epoch_cmp_reverse: "a \<noteq> b \<Longrightarrow> epoch_cmp b a = reverse_ordering (epoch_cmp a b)"
  by (auto simp: epoch_cmp_def)

lemma cmp_version_reverse: "cmp_version R w v = reverse_partial (cmp_version R v w)"
  by (rule pv.cmp_reverse)

subsection \<open>Debian packages\<close>

record deb =
  deb_name :: string
  deb_full_name :: string
  deb_full_version :: string
  deb_epoch :: "64 word"
  deb_upstream_version :: package_version
  deb_debian_revision :: package_version

definition deb_partial_cmp :: "regexes \<Rightarrow> deb \<Rightarrow> deb \<Rightarrow> ordering option" where
  "deb_partial_cmp R a b =
     (if deb_name a \<noteq> deb_name b then None
      else if deb_full_version a = deb_full_version b then Some Equal
      else if deb_epoch a \<noteq> deb_epoch b then Some (epoch_cmp (deb_epoch a) (deb_epoch b))
      else cmp_then (cmp_version R (deb_upstream_version a) (deb_upstream_version b))
             (cmp_version R (deb_debian_revision a) (deb_debian_revision b)))"

definition deb_from_full_name :: "regexes \<Rightarrow> string \<Rightarrow> deb option exec" where
  "deb_from_full_name R full_name0 =
     (if full_name0 = [] then Ret None
      else let full_name = str_trim full_name0;
               fields = (case re_deb R full_name of
                   Some c \<Rightarrow> Some (capture c 1 [], capture c 2 [], capture c 3 [], capture c 4 [])
                 | None \<Rightarrow> (case re_deb_wo_revision R full_name of
                       None \<Rightarrow> None
                     | Some c \<Rightarrow> Some (capture c 1 [], capture c 2 [], capture c 3 [], [])))
           in case fields of
             None \<Rightarrow> Ret None
           | Some (name, epochstr, upstream_version, debian_revision) \<Rightarrow>
               let (epoch, full_version) = (case parse_u64 epochstr of
                       Some n \<Rightarrow> (n, epochstr @ '':'' @ upstream_version)
                     | None \<Rightarrow> (0, upstream_version));
                   full_version' = (if debian_revision \<noteq> [] then full_version @ ''-'' @ debian_revision
                                    else full_version)
               in Ret (Some \<lparr>deb_name = name, deb_full_name = full_name, deb_full_version = full_version',
                        deb_epoch = epoch, deb_upstream_version = PackageVersion upstream_version,
                        deb_debian_revision = PackageVersion debian_revision\<rparr>))"

text \<open>The epoch text is unwrapped: a text that is no 64 bit number panics.\<close>

definition deb_from_name_and_full_version :: "regexes \<Rightarrow> string \<Rightarrow> string \<Rightarrow> deb option exec" where
  "deb_from_name_and_full_version R name0 full_version0 =
     (if name0 = [] \<or> full_version0 = [] then Ret None
      else let name = str_trim name0;
               full_version = str_trim full_version0;
               fields = (case re_deb_version R full_version of
                   Some c \<Rightarrow> Some (capture c 1 ''0'', capture c 2 [], capture c 3 [])
                 | None \<Rightarrow> (case re_deb_version_wo_revision R full_version of
                       None \<Rightarrow> None
                     | Some c \<Rightarrow> Some (capture c 1 ''0'', capture c 2 [], [])))
           in case fields of
             None \<Rightarrow> Ret None
           | Some (epochstr, upstream_version, debian_revision) \<Rightarrow>
               exec_bind (exec_unwrap (parse_u64 epochstr)) (\<lambda>epoch.
                 Ret (Some \<lparr>deb_name = name, deb_full_name = name @ ''-'' @ full_version,
                        deb_full_version = full_version, deb_epoch = epoch,
                        deb_upstream_version = PackageVersion upstream_version,
                        deb_debian_revision = PackageVersion debian_revision\<rparr>)))"

definition deb_ops :: "regexes \<Rightarrow> deb package_ops" where
  "deb_ops R = \<lparr>op_get_name = deb_name, op_get_version = deb_full_version,
     op_from_full_name = deb_from_full_name R,
     op_from_name_and_full_version = deb_from_name_and_full_version R,
     op_partial_cmp = deb_partial_cmp R\<rparr>"

lemma deb_partial_cmp_reverse: "deb_partial_cmp R b a = reverse_partial (deb_partial_cmp R a b)"
  using epoch_cmp_reverse [of "deb_epoch a" "deb_epoch b"]
  by (simp add: deb_partial_cmp_def cmp_then_reverse
      cmp_version_reverse [of R "deb_upstream_version b" "deb_upstream_version a"]
      cmp_version_reverse [of R "deb_debian_revision b" "deb_debian_revision a"])

interpretation deb: package_trait "deb_ops R" for R
  by unfold_locales
    (auto simp: deb_ops_def deb_partial_cmp_def [of _ a a for a] intro: deb_partial_cmp_reverse,
     auto simp: deb_partial_cmp_def split: if_splits)

subsection \<open>RPM packages\<close>

record rpm =
  rpm_name :: string
  rpm_full_name :: string
  rpm_full_version :: string
  rpm_epoch :: "64 word"
  rpm_version :: package_version
  rpm_release :: package_version
  rpm_arch :: string

definition rpm_exceptions :: "string list" where
  "rpm_exceptions = [''_fips'', ''.ksplice'']"

text \<open>Both versions carry the same markers of special builds.\<close>

definition rpm_same_exceptions :: "string \<Rightarrow> string \<Rightarrow> bool" where
  "rpm_same_exceptions v w =
     list_all (\<lambda>e. (str_find e v \<noteq> None) = (str_find e w \<noteq> None)) rpm_exceptions"

definition rpm_partial_cmp :: "regexes \<Rightarrow> rpm \<Rightarrow> rpm \<Rightarrow> ordering option" where
  "rpm_partial_cmp R a b =
     (if rpm_name a \<noteq> rpm_name b then None
      else if rpm_arch a \<noteq> rpm_arch b then None
      else if \<not> rpm_same_exceptions (rpm_full_version a) (rpm_full_version b) then None
      else if rpm_full_version a = rpm_full_version b then Some Equal
      else if rpm_epoch a \<noteq> rpm_epoch b then Some (epoch_cmp (rpm_epoch a) (rpm_epoch b))
      else cmp_then (cmp_version R (rpm_version a) (rpm_version b))
             (cmp_version R (rpm_release a) (rpm_release b)))"

definition rpm_from_full_name :: "regexes \<Rightarrow> string \<Rightarrow> rpm option exec" where
  "rpm_from_full_name R full_name0 =
     (if full_name0 = [] then Ret None
      else let full_name = str_trim full_name0
           in case re_rpm R full_name of
             None \<Rightarrow> Ret None
           | Some c \<Rightarrow>
               let name = capture c 1 []; epochstr = capture c 2 ''0''; version = capture c 3 [];
                   release = capture c 4 []; arch = capture c 5 []
               in exec_bind (exec_unwrap (parse_u64 epochstr)) (\<lambda>epoch.
                    Ret (Some \<lparr>rpm_name = name, rpm_full_name = full_name,
                      rpm_full_version = epochstr @ '':'' @ version @ ''-'' @ release @ ''.'' @ arch,
                      rpm_epoch = epoch, rpm_version = PackageVersion version,
                      rpm_release = PackageVersion release, rpm_arch = arch\<rparr>)))"

definition rpm_from_name_and_full_version :: "regexes \<Rightarrow> string \<Rightarrow> string \<Rightarrow> rpm option exec" where
  "rpm_from_name_and_full_version R name0 full_version0 =
     (if name0 = [] \<or> full_version0 = [] then Ret None
      else let name = str_trim name0; full_version = str_trim full_version0
           in case re_rpm_version R full_version of
             None \<Rightarrow> Ret None
           | Some c \<Rightarrow>
               let epochstr = capture c 1 ''0''; version = capture c 2 [];
                   release = capture c 3 []; arch = capture c 4 []
               in exec_bind (exec_unwrap (parse_u64 epochstr)) (\<lambda>epoch.
                    Ret (Some \<lparr>rpm_name = name, rpm_full_name = name @ ''-'' @ full_version,
                      rpm_full_version = full_version, rpm_epoch = epoch,
                      rpm_version = PackageVersion version, rpm_release = PackageVersion release,
                      rpm_arch = arch\<rparr>)))"

definition rpm_ops :: "regexes \<Rightarrow> rpm package_ops" where
  "rpm_ops R = \<lparr>op_get_name = rpm_name, op_get_version = rpm_full_version,
     op_from_full_name = rpm_from_full_name R,
     op_from_name_and_full_version = rpm_from_name_and_full_version R,
     op_partial_cmp = rpm_partial_cmp R\<rparr>"

lemma rpm_same_exceptions_sym: "rpm_same_exceptions v w = rpm_same_exceptions w v"
  by (auto simp: rpm_same_exceptions_def list_all_iff)

lemma rpm_same_exceptions_refl [simp]: "rpm_same_exceptions v v"
  by (simp add: rpm_same_exceptions_def list_all_iff)

lemma rpm_partial_cmp_reverse: "rpm_partial_cmp R b a = reverse_partial (rpm_partial_cmp R a b)"
  using epoch_cmp_reverse [of "rpm_epoch a" "rpm_epoch b"]
  by (simp add: rpm_partial_cmp_def cmp_then_reverse
      rpm_same_exceptions_sym [of "rpm_full_version b" "rpm_full_version a"]
      cmp_version_reverse [of R "rpm_version b" "rpm_version a"]
      cmp_version_reverse [of R "rpm_release b" "rpm_release a"])

interpretation rpm: package_trait "rpm_ops R" for R
  by unfold_locales
    (auto simp: rpm_ops_def rpm_partial_cmp_def [of _ a a for a] intro: rpm_partial_cmp_reverse,
     auto simp: rpm_partial_cmp_def split: if_splits)

subsection \<open>Slackware packages\<close>

record slack =
  slack_name :: string
  slack_full_name :: string
  slack_full_version :: string
  slack_build :: package_version
  slack_target :: package_version
  slack_version :: package_version
  slack_arch :: string

definition slack_partial_cmp :: "regexes \<Rightarrow> slack \<Rightarrow> slack \<Rightarrow> ordering option" where
  "slack_partial_cmp R a b =
     (if slack_name a \<noteq> slack_name b then None
      else if slack_arch a \<noteq> slack_arch b then None
      else if slack_full_version a = slack_full_version b then Some Equal
      else cmp_then (cmp_version R (slack_version a) (slack_version b))
             (cmp_then (cmp_version R (slack_target a) (slack_target b))
                (cmp_version R (slack_build a) (slack_build b))))"

definition slack_from_full_name :: "regexes \<Rightarrow> string \<Rightarrow> slack option exec" where
  "slack_from_full_name R full_name0 =
     (if full_name0 = [] then Ret None
      else let full_name = str_trim full_name0
           in case re_slack R full_name of
             None \<Rightarrow> Ret None
           | Some c \<Rightarrow>
               let name = capture c 1 []; version = capture c 2 []; arch = capture c 3 [];
                   build = capture c 4 []; target = capture c 5 [];
                   full_version = version @ ''-'' @ arch @ ''-'' @ build;
                   full_version' = (if target \<noteq> [] then full_version @ ''_slack'' @ target
                                    else full_version)
               in Ret (Some \<lparr>slack_name = name, slack_full_name = full_name,
                    slack_full_version = full_version', slack_build = PackageVersion build,
                    slack_target = PackageVersion target, slack_version = PackageVersion version,
                    slack_arch = arch\<rparr>))"

definition slack_from_name_and_full_version :: "regexes \<Rightarrow> string \<Rightarrow> string \<Rightarrow> slack option exec" where
  "slack_from_name_and_full_version R name0 full_version0 =
     (if name0 = [] \<or> full_version0 = [] then Ret None
      else let name = str_trim name0; full_version = str_trim full_version0
           in case re_slack_version R full_version of
             None \<Rightarrow> Ret None
           | Some c \<Rightarrow>
               Ret (Some \<lparr>slack_name = name, slack_full_name = name @ ''-'' @ full_version,
                 slack_full_version = full_version, slack_build = PackageVersion (capture c 3 []),
                 slack_target = PackageVersion (capture c 4 []),
                 slack_version = PackageVersion (capture c 1 []), slack_arch = capture c 2 []\<rparr>))"

definition slack_ops :: "regexes \<Rightarrow> slack package_ops" where
  "slack_ops R = \<lparr>op_get_name = slack_name, op_get_version = slack_full_version,
     op_from_full_name = slack_from_full_name R,
     op_from_name_and_full_version = slack_from_name_and_full_version R,
     op_partial_cmp = slack_partial_cmp R\<rparr>"

lemma slack_partial_cmp_reverse: "slack_partial_cmp R b a = reverse_partial (slack_partial_cmp R a b)"
  by (simp add: slack_partial_cmp_def cmp_then_reverse
      cmp_version_reverse [of R "slack_version b" "slack_version a"]
      cmp_version_reverse [of R "slack_target b" "slack_target a"]
      cmp_version_reverse [of R "slack_build b" "slack_build a"])

interpretation slack: package_trait "slack_ops R" for R
  by unfold_locales
    (auto simp: slack_ops_def slack_partial_cmp_def [of _ a a for a] intro: slack_partial_cmp_reverse,
     auto simp: slack_partial_cmp_def split: if_splits)

subsection \<open>Gentoo packages\<close>

record ebuild =
  ebuild_name :: string
  ebuild_full_name :: string
  ebuild_full_version :: package_version

definition ebuild_partial_cmp :: "regexes \<Rightarrow> ebuild \<Rightarrow> ebuild \<Rightarrow> ordering option" where
  "ebuild_partial_cmp R a b =
     (if ebuild_name a \<noteq> ebuild_name b then None
      else if ebuild_full_version a = ebuild_full_version b then Some Equal
      else cmp_version R (ebuild_full_version a) (ebuild_full_version b))"

definition ebuild_from_full_name :: "string \<Rightarrow> ebuild option exec" where
  "ebuild_from_full_name full_name =
     (if full_name = [] then Ret None
      else let base_name = (case char_find (CHR ''/'') full_name of
                   None \<Rightarrow> full_name | Some i \<Rightarrow> drop (i + 1) full_name)
           in if base_name = [] then Ret None
              else let d_index = (case char_find (CHR ''-'') base_name of
                           None \<Rightarrow> length base_name | Some i \<Rightarrow> i);
                       full_version = drop d_index base_name
                   in if full_version = [] then Ret None
                      else Ret (Some \<lparr>ebuild_name = take (length full_name - length full_version) full_name,
                             ebuild_full_name = full_name,
                             ebuild_full_version = PackageVersion full_version\<rparr>))"

definition ebuild_from_name_and_full_version :: "string \<Rightarrow> string \<Rightarrow> ebuild option exec" where
  "ebuild_from_name_and_full_version name0 full_version0 =
     (if name0 = [] \<or> full_version0 = [] then Ret None
      else let name = str_trim name0; full_version = str_trim full_version0
           in Ret (Some \<lparr>ebuild_name = name, ebuild_full_name = name @ ''-'' @ full_version,
                ebuild_full_version = PackageVersion full_version\<rparr>))"

definition ebuild_ops :: "regexes \<Rightarrow> ebuild package_ops" where
  "ebuild_ops R = \<lparr>op_get_name = ebuild_name, op_get_version = (\<lambda>p. pv_string (ebuild_full_version p)),
     op_from_full_name = ebuild_from_full_name,
     op_from_name_and_full_version = ebuild_from_name_and_full_version,
     op_partial_cmp = ebuild_partial_cmp R\<rparr>"

lemma ebuild_partial_cmp_reverse: "ebuild_partial_cmp R b a = reverse_partial (ebuild_partial_cmp R a b)"
  by (simp add: ebuild_partial_cmp_def
      cmp_version_reverse [of R "ebuild_full_version b" "ebuild_full_version a"])

interpretation ebuild: package_trait "ebuild_ops R" for R
  by unfold_locales
    (auto simp: ebuild_ops_def ebuild_partial_cmp_def [of _ a a for a] intro: ebuild_partial_cmp_reverse,
     auto simp: ebuild_partial_cmp_def split: if_splits)

subsection \<open>Windows builds\<close>

record windows =
  windows_full_name :: string
  windows_build :: string
  windows_revision :: package_version

definition windows_partial_cmp :: "regexes \<Rightarrow> windows \<Rightarrow> windows \<Rightarrow> ordering option" where
  "windows_partial_cmp R a b =
     (if windows_build a \<noteq> windows_build b then None
      else if windows_full_name a = windows_full_name b then Some Equal
      else cmp_version R (windows_revision a) (windows_revision b))"

definition windows_from_full_name :: "string \<Rightarrow> windows option exec" where
  "windows_from_full_name full_name0 =
     (if full_name0 = [] then Ret None
      else let full_name = str_trim full_name0
           in case rsplit_once (CHR ''.'') full_name of
             None \<Rightarrow> Ret None
           | Some (b, r) \<Rightarrow> Ret (Some \<lparr>windows_full_name = full_name, windows_build = b,
                 windows_revision = PackageVersion r\<rparr>))"

text \<open>The full name is built from the version text before it is trimmed.\<close>

definition windows_from_name_and_full_version :: "string \<Rightarrow> string \<Rightarrow> windows option exec" where
  "windows_from_name_and_full_version name0 full_version =
     (if name0 = [] \<or> full_version = [] then Ret None
      else let name = str_trim name0; revision = str_trim full_version
           in Ret (Some \<lparr>windows_full_name = name @ ''.'' @ full_version, windows_build = name,
                windows_revision = PackageVersion revision\<rparr>))"

definition windows_ops :: "regexes \<Rightarrow> windows package_ops" where
  "windows_ops R = \<lparr>op_get_name = windows_build, op_get_version = (\<lambda>p. pv_string (windows_revision p)),
     op_from_full_name = windows_from_full_name,
     op_from_name_and_full_version = windows_from_name_and_full_version,
     op_partial_cmp = windows_partial_cmp R\<rparr>"

lemma windows_partial_cmp_reverse: "windows_partial_cmp R b a = reverse_partial (windows_partial_cmp R a b)"
  by (simp add: windows_partial_cmp_def
      cmp_version_reverse [of R "windows_revision b" "windows_revision a"])

interpretation windows: package_trait "windows_ops R" for R
  by unfold_locales
    (auto simp: windows_ops_def windows_partial_cmp_def [of _ a a for a] intro: windows_partial_cmp_reverse,
     auto simp: windows_partial_cmp_def split: if_splits)

subsection \<open>The order of Debian packages\<close>

definition deb_key :: "regexes \<Rightarrow> deb \<Rightarrow> nat \<times> (nat \<times> nat list) list \<times> (nat \<times> nat list) list" where
  "deb_key R d =
     (unat (deb_epoch d), version_key (re_parts R) (pv_string (deb_upstream_version d)),
      version_key (re_parts R) (pv_string (deb_debian_revision d)))"

definition deb_canonical :: "regexes \<Rightarrow> deb \<Rightarrow> bool" where
  "deb_canonical R d =
     (canonical_version (re_parts R) (pv_string (deb_upstream_version d)) \<and>
      canonical_version (re_parts R) (pv_string (deb_debian_revision d)))"

lemma cmp_version_key:
  assumes "parts_regex (re_parts R)" "canonical_version (re_parts R) (pv_string v)"
    "canonical_version (re_parts R) (pv_string w)"
  shows "cmp_version R v w =
    Some (ord_cmp (version_key (re_parts R) (pv_string v)) (version_key (re_parts R) (pv_string w)))"
proof (cases "pv_string v = pv_string w")
  case False
  then have "re_parts R (pv_string v) \<noteq> re_parts R (pv_string w)"
    using parts_regex_inject assms by (auto simp: canonical_version_def)
  then show ?thesis
    using parts_cmp_key [of "re_parts R (pv_string v)" "re_parts R (pv_string w)"] False assms
    by (simp add: pv_partial_cmp_def canonical_version_def version_key_def list_cmp_ord_cmp)
qed (simp add: pv_partial_cmp_def ord_cmp_def)

lemma cmp_then_ord_cmp:
  "cmp_then (Some (ord_cmp a b)) (Some (ord_cmp c d)) = Some (ord_cmp (a, c) (b, d))"
  by (auto simp: cmp_then_def ord_cmp_def)

lemma deb_cmp_key:
  assumes "parts_regex (re_parts R)" and "deb_canonical R a" and "deb_canonical R b"
    and "deb_name a = deb_name b"
    and "deb_full_version a = deb_full_version b \<longrightarrow> deb_key R a = deb_key R b"
  shows "deb_partial_cmp R a b = Some (ord_cmp (deb_key R a) (deb_key R b))"
proof (cases "deb_full_version a = deb_full_version b \<or> deb_epoch a \<noteq> deb_epoch b")
  case True
  with assms(4,5) show ?thesis
    by (auto simp: deb_partial_cmp_def ord_cmp_def epoch_cmp_def deb_key_def word_less_nat_alt
        dest: word_unat_eq_iff [THEN iffD2])
next
  case False
  with assms have "deb_partial_cmp R a b =
     Some (ord_cmp (snd (deb_key R a)) (snd (deb_key R b)))"
    by (simp add: deb_partial_cmp_def deb_key_def deb_canonical_def cmp_version_key cmp_then_ord_cmp)
  with False show ?thesis by (auto simp: deb_key_def ord_cmp_def)
qed

text \<open>
  Two Debian packages of one name whose versions are canonical, and whose full versions agree
  only when their parts do, are always comparable, and \<^verbatim>\<open>Deb::partial_cmp\<close> is the lexicographic
  order of the epoch, the upstream version and the Debian revision: a total order.
\<close>

theorem deb_partial_cmp_lexicographic:
  assumes "parts_regex (re_parts R)" and "deb_canonical R a" and "deb_canonical R b"
    and "deb_name a = deb_name b"
    and "deb_full_version a = deb_full_version b \<longrightarrow> deb_key R a = deb_key R b"
  shows "deb_partial_cmp R a b = Some (ord_cmp (deb_key R a) (deb_key R b))"
  using assms by (rule deb_cmp_key)

text \<open>A set of regular expressions for examples: the parts are cut as documented, nothing else matches.\<close>

definition no_regexes :: regexes where
  "no_regexes = \<lparr>re_parts = split_parts, re_deb = (\<lambda>_. None), re_deb_wo_revision = (\<lambda>_. None),
     re_deb_version = (\<lambda>_. None), re_deb_version_wo_revision = (\<lambda>_. None), re_rpm = (\<lambda>_. None),
     re_rpm_version = (\<lambda>_. None), re_slack = (\<lambda>_. None), re_slack_version = (\<lambda>_. None)\<rparr>"

lemma no_regexes_parts [simp]: "re_parts no_regexes = split_parts"
  by (simp add: no_regexes_def)

definition example_deb :: "string \<Rightarrow> string \<Rightarrow> deb" where
  "example_deb upstream revision = \<lparr>deb_name = ''foo'', deb_full_name = ''foo-'' @ upstream @ ''-'' @ revision,
     deb_full_version = upstream @ ''-'' @ revision, deb_epoch = 0,
     deb_upstream_version = PackageVersion upstream, deb_debian_revision = PackageVersion revision\<rparr>"

lemmas example_version_simps =
  canonical_version_def canonical_part_def version_key_def part_key_def end_key_def parse_uint_def
  is_digit_def is_upper_def is_lower_def is_alphabetic_def all_alphabetic_def digits_val_def
  digit_val_def

theorem deb_partial_cmp_lexicographic_witness:
  "deb_partial_cmp no_regexes (example_deb ''1.9'' ''4'') (example_deb ''1.10'' ''2'') = Some Less"
proof -
  let ?a = "example_deb ''1.9'' ''4''" and ?b = "example_deb ''1.10'' ''2''"
  have "deb_canonical no_regexes ?a" "deb_canonical no_regexes ?b"
    by (simp_all add: deb_canonical_def example_deb_def example_version_simps)
  moreover have "deb_key no_regexes ?a < deb_key no_regexes ?b"
    by (simp add: deb_key_def example_deb_def example_version_simps)
  ultimately show ?thesis
    using deb_partial_cmp_lexicographic [of no_regexes ?a ?b] parts_regex_split_parts
    by (simp add: ord_cmp_def example_deb_def)
qed

subsection \<open>When RPM packages are comparable\<close>

definition rpm_canonical :: "regexes \<Rightarrow> rpm \<Rightarrow> bool" where
  "rpm_canonical R d =
     (canonical_version (re_parts R) (pv_string (rpm_version d)) \<and>
      canonical_version (re_parts R) (pv_string (rpm_release d)))"

text \<open>
  RPM packages with canonical versions are comparable exactly when they have the same name, the
  same architecture and the same markers of special builds; an installed package is never judged
  against the fix of another architecture or of a FIPS or ksplice build.
\<close>

theorem rpm_comparable_iff:
  assumes "parts_regex (re_parts R)" and "rpm_canonical R a" and "rpm_canonical R b"
  shows "rpm_partial_cmp R a b \<noteq> None \<longleftrightarrow>
     rpm_name a = rpm_name b \<and> rpm_arch a = rpm_arch b \<and>
     rpm_same_exceptions (rpm_full_version a) (rpm_full_version b)"
  using assms by (auto simp: rpm_partial_cmp_def rpm_canonical_def cmp_version_key cmp_then_def)

definition example_rpm :: "string \<Rightarrow> string \<Rightarrow> rpm" where
  "example_rpm version release = \<lparr>rpm_name = ''openssl'', rpm_full_name = ''openssl-'' @ version @ ''-'' @ release,
     rpm_full_version = version @ ''-'' @ release, rpm_epoch = 0, rpm_version = PackageVersion version,
     rpm_release = PackageVersion release, rpm_arch = ''x86''\<rparr>"

theorem rpm_comparable_iff_witness:
  "rpm_partial_cmp no_regexes (example_rpm ''1.1'' ''2_fips'') (example_rpm ''1.1'' ''3'') = None \<and>
   rpm_partial_cmp no_regexes (example_rpm ''1.1'' ''2_fips'') (example_rpm ''1.2'' ''1_fips'') \<noteq> None"
proof -
  let ?a = "example_rpm ''1.1'' ''2_fips''" and ?b = "example_rpm ''1.1'' ''3''"
    and ?c = "example_rpm ''1.2'' ''1_fips''"
  have ca: "rpm_canonical no_regexes ?a" and cb: "rpm_canonical no_regexes ?b"
    and cc: "rpm_canonical no_regexes ?c"
    by (simp_all add: rpm_canonical_def example_rpm_def example_version_simps)
  have "\<not> rpm_same_exceptions (rpm_full_version ?a) (rpm_full_version ?b)"
    and "rpm_same_exceptions (rpm_full_version ?a) (rpm_full_version ?c)"
    by (simp_all add: rpm_same_exceptions_def rpm_exceptions_def example_rpm_def)
  then show ?thesis
    using rpm_comparable_iff [OF _ ca cb] rpm_comparable_iff [OF _ ca cc] parts_regex_split_parts
    by (simp add: example_rpm_def)
qed

subsection \<open>The panics of the parsers\<close>

text \<open>The captures \<^verbatim>\<open>Deb::from_name_and_full_version\<close> works on: of the first pattern that matches.\<close>

definition deb_version_captures :: "regexes \<Rightarrow> string \<Rightarrow> captures option" where
  "deb_version_captures R v =
     (case re_deb_version R v of Some c \<Rightarrow> Some c | None \<Rightarrow> re_deb_version_wo_revision R v)"

lemma exec_bind_unwrap_Panic: "exec_bind (exec_unwrap x) (\<lambda>y. Ret (f y)) = Panic \<longleftrightarrow> x = None"
  by (cases x) simp_all

text \<open>
  \<^verbatim>\<open>Deb::from_full_name\<close> never panics. \<^verbatim>\<open>Deb::from_name_and_full_version\<close> panics exactly when the
  version matches and the text captured for the epoch is no 64 bit number; the pattern
  \<^verbatim>\<open>(?:(\d*):)?\<close> captures the empty text for a version such as \<^verbatim>\<open>:1.2-3\<close>, although the source says
  that parsing the epoch never fails.
\<close>

theorem deb_parsers_panic_iff:
  "deb_from_full_name R full_name \<noteq> Panic \<and>
   (deb_from_name_and_full_version R name full_version = Panic \<longleftrightarrow>
      name \<noteq> [] \<and> full_version \<noteq> [] \<and>
      (\<exists>c. deb_version_captures R (str_trim full_version) = Some c \<and> parse_u64 (capture c 1 ''0'') = None))"
  by (auto simp: deb_from_full_name_def deb_from_name_and_full_version_def deb_version_captures_def
      Let_def exec_bind_unwrap_Panic split: option.splits prod.splits)

text \<open>
  Both parsers of RPM packages panic exactly when the text matches and its epoch does not fit 64
  bits; otherwise they return. The text of \<^verbatim>\<open>from_full_name\<close> comes from the package list of the
  request.
\<close>

theorem rpm_parsers_panic_iff:
  "(rpm_from_full_name R full_name = Panic \<longleftrightarrow>
      full_name \<noteq> [] \<and>
      (\<exists>c. re_rpm R (str_trim full_name) = Some c \<and> parse_u64 (capture c 2 ''0'') = None)) \<and>
   (rpm_from_name_and_full_version R name full_version = Panic \<longleftrightarrow>
      name \<noteq> [] \<and> full_version \<noteq> [] \<and>
      (\<exists>c. re_rpm_version R (str_trim full_version) = Some c \<and> parse_u64 (capture c 1 ''0'') = None))"
  by (auto simp: rpm_from_full_name_def rpm_from_name_and_full_version_def Let_def
      exec_bind_unwrap_Panic split: option.splits)

subsection \<open>Installed Gentoo packages\<close>

lemma first_part_digits:
  assumes "parts_regex f" "CHR 0x0A \<notin> set (c # s)" "is_digit c"
  shows "\<exists>p ps. f (c # s) = p # ps \<and> p \<noteq> [] \<and> list_all is_digit p"
proof -
  have con: "concat (f (c # s)) = c # s" and parts: "list_all is_part (f (c # s))"
    using assms by (auto simp: parts_regex_def)
  then obtain p ps where f: "f (c # s) = p # ps" by (cases "f (c # s)") auto
  with parts have p: "is_part p" by simp
  then have "p \<noteq> []" by (auto simp: is_part_def)
  with con f have "hd p = c" by (cases p) auto
  with p \<open>p \<noteq> []\<close> assms(3) have "list_all is_digit p" by (cases p) (auto simp: is_part_def)
  with f \<open>p \<noteq> []\<close> show ?thesis by blast
qed

lemma first_part_char:
  assumes "parts_regex f" "CHR 0x0A \<notin> set (c # s)" "\<not> is_digit c"
  shows "\<exists>ps. f (c # s) = [c] # ps"
proof -
  have con: "concat (f (c # s)) = c # s" and parts: "list_all is_part (f (c # s))"
    using assms by (auto simp: parts_regex_def)
  then obtain p ps where f: "f (c # s) = p # ps" by (cases "f (c # s)") auto
  with parts have p: "is_part p" by simp
  then have "p \<noteq> []" by (auto simp: is_part_def)
  with con f have "hd p = c" by (cases p) auto
  with p \<open>p \<noteq> []\<close> assms(3) have "p = [c]" by (cases p) (auto simp: is_part_def)
  with f show ?thesis by blast
qed

lemma ebuild_from_full_name_version:
  assumes "ebuild_from_full_name s = Ret (Some p)"
  obtains v where "ebuild_full_version p = PackageVersion (CHR ''-'' # v)"
    and "s = ebuild_name p @ CHR ''-'' # v"
proof -
  define base where "base = (case char_find (CHR ''/'') s of None \<Rightarrow> s | Some i \<Rightarrow> drop (i + 1) s)"
  obtain pre where s: "s = pre @ base"
    unfolding base_def by (cases "char_find (CHR ''/'') s") (auto, metis append_take_drop_id)
  obtain i where i: "char_find (CHR ''-'') base = Some i"
    using assms by (auto simp: ebuild_from_full_name_def base_def Let_def split: if_splits option.splits)
  from char_find_Some [OF i] obtain u v where base: "base = u @ CHR ''-'' # v" "length u = i" by blast
  have p: "ebuild_full_version p = PackageVersion (drop i base)"
    "ebuild_name p = take (length s - length (drop i base)) s"
    using assms i unfolding ebuild_from_full_name_def base_def [symmetric]
    by (auto simp: Let_def split: if_splits)
  from base have drop: "drop i base = CHR ''-'' # v" by simp
  then have "ebuild_name p = pre @ u" using p s base by simp
  then show thesis using that [of v] p drop s base by simp
qed

text \<open>
  The version that \<^verbatim>\<open>EBuild::from_full_name\<close> stores keeps the hyphen before it, while
  \<^verbatim>\<open>EBuild::from_name_and_full_version\<close> stores the version alone. Hence an installed Gentoo package is
  older than every fixed version that begins with a number, whichever versions they are: it is
  always reported as vulnerable.
\<close>

theorem ebuild_installed_always_older:
  assumes "parts_regex (re_parts R)"
    and "ebuild_from_full_name s = Ret (Some installed)"
    and "ebuild_from_name_and_full_version name version = Ret (Some fixed)"
    and "ebuild_name installed = ebuild_name fixed"
    and "CHR 0x0A \<notin> set s" and "canonical_version (re_parts R) (str_trim version)"
    and "str_trim version = c # rest" and "is_digit c"
  shows "ebuild_partial_cmp R installed fixed = Some Less"
proof -
  from ebuild_from_full_name_version [OF assms(2)] obtain v where
    inst: "ebuild_full_version installed = PackageVersion (CHR ''-'' # v)" and s: "CHR 0x0A \<notin> set v"
    using assms(5) by (metis Un_iff list.set_intros(2) set_append)
  have fixed: "ebuild_full_version fixed = PackageVersion (c # rest)"
    using assms(3,7) by (auto simp: ebuild_from_name_and_full_version_def Let_def split: if_splits)
  obtain ps where ps: "re_parts R (CHR ''-'' # v) = ''-'' # ps"
    using first_part_char [OF assms(1), of "CHR ''-''" v] s by (auto simp: is_digit_def)
  have nl: "CHR 0x0A \<notin> set (c # rest)" using assms(6,7) by (auto simp: canonical_version_def)
  obtain q qs where q: "re_parts R (c # rest) = q # qs" "q \<noteq> []" "list_all is_digit q"
    using first_part_digits [OF assms(1) nl assms(8)] by blast
  have "canonical_part q" using assms(6,7) q(1) by (simp add: canonical_version_def)
  then have num: "parse_u32 q = Some (of_nat (digits_val q))" using canonical_number(3) q(3) by blast
  have hyphen: "parse_u32 ''-'' = None" by (simp add: parse_u32_def parse_uint_def is_digit_def)
  then have "''-'' \<noteq> q" using num by auto
  moreover have "c \<noteq> CHR ''-''" using assms(8) by (auto simp: is_digit_def)
  ultimately show ?thesis
    using inst fixed ps q(1) num hyphen assms(4)
    by (simp add: ebuild_partial_cmp_def pv_partial_cmp_def part_cmp_def)
qed

theorem ebuild_installed_always_older_witness:
  "\<exists>installed fixed. ebuild_from_full_name ''www-servers/apache-2.4.60'' = Ret (Some installed) \<and>
     ebuild_from_name_and_full_version ''www-servers/apache'' ''2.4.51'' = Ret (Some fixed) \<and>
     ebuild_partial_cmp no_regexes installed fixed = Some Less"
proof -
  let ?i = "\<lparr>ebuild_name = ''www-servers/apache'', ebuild_full_name = ''www-servers/apache-2.4.60'',
    ebuild_full_version = PackageVersion ''-2.4.60''\<rparr>"
  let ?f = "\<lparr>ebuild_name = ''www-servers/apache'', ebuild_full_name = ''www-servers/apache-2.4.51'',
    ebuild_full_version = PackageVersion ''2.4.51''\<rparr>"
  have i: "ebuild_from_full_name ''www-servers/apache-2.4.60'' = Ret (Some ?i)"
    by (simp add: ebuild_from_full_name_def Let_def)
  have f: "ebuild_from_name_and_full_version ''www-servers/apache'' ''2.4.51'' = Ret (Some ?f)"
    by (simp add: ebuild_from_name_and_full_version_def str_trim_def is_whitespace_def Let_def)
  have t: "str_trim ''2.4.51'' = ''2.4.51''" by (simp add: str_trim_def is_whitespace_def)
  have c: "canonical_version (re_parts no_regexes) (str_trim ''2.4.51'')"
    by (simp add: t example_version_simps)
  have "ebuild_partial_cmp no_regexes ?i ?f = Some Less"
    by (rule ebuild_installed_always_older [OF _ i f _ _ c t])
      (simp_all add: parts_regex_split_parts is_digit_def)
  with i f show ?thesis by blast
qed

subsection \<open>Windows builds round trip\<close>

text \<open>
  A Windows build parsed from its full name is rebuilt by \<^verbatim>\<open>from_name_and_full_version\<close> from the
  name and the version that the package reports.
\<close>

theorem windows_round_trip:
  assumes "windows_from_full_name s = Ret (Some p)"
    and "windows_build p \<noteq> []" and "pv_string (windows_revision p) \<noteq> []"
    and "str_trim (windows_build p) = windows_build p"
    and "str_trim (pv_string (windows_revision p)) = pv_string (windows_revision p)"
  shows "windows_from_name_and_full_version (op_get_name (windows_ops R) p) (op_get_version (windows_ops R) p) =
     Ret (Some p)"
proof -
  from assms(1) obtain b r where br: "rsplit_once (CHR ''.'') (str_trim s) = Some (b, r)"
    and p: "p = \<lparr>windows_full_name = str_trim s, windows_build = b, windows_revision = PackageVersion r\<rparr>"
    by (auto simp: windows_from_full_name_def Let_def split: if_splits option.splits)
  with rsplit_once_Some [OF br] assms show ?thesis
    by (simp add: windows_from_name_and_full_version_def windows_ops_def)
qed

theorem windows_round_trip_witness:
  "windows_from_name_and_full_version ''10.0.22631'' ''3447'' =
     Ret (Some \<lparr>windows_full_name = ''10.0.22631.3447'', windows_build = ''10.0.22631'',
       windows_revision = PackageVersion ''3447''\<rparr>)"
proof -
  let ?p = "\<lparr>windows_full_name = ''10.0.22631.3447'', windows_build = ''10.0.22631'',
    windows_revision = PackageVersion ''3447''\<rparr>"
  have "windows_from_full_name '' 10.0.22631.3447'' = Ret (Some ?p)"
    by (simp add: windows_from_full_name_def str_trim_def is_whitespace_def rsplit_once_def)
  from windows_round_trip [OF this] show ?thesis
    by (simp add: windows_ops_def str_trim_def is_whitespace_def)
qed

end
