(* ===== verification/Notus.thy ===== *)
theory Notus
  imports Packages
begin

section \<open>The notus scanner\<close>

text \<open>
  \<^verbatim>\<open>rust/src/notus/vts.rs\<close> and \<^verbatim>\<open>rust/src/notus/notus.rs\<close> with the models they read: a product file
  lists, per OID, the packages that fix a vulnerability; a scan parses the installed packages and
  reports, per OID, those that do not have the fix. The product loader (file system, JSON, hash sums,
  signatures) is an argument: a record of its methods as they answer at the time of a call.
\<close>

subsection \<open>Products\<close>

datatype specifier = GT | LT | GE | LE | EQ

record version_range =
  range_start :: string
  range_end :: string

datatype fixed_package =
    ByFullName string specifier
  | ByNameAndFullVersion string string specifier
  | ByRange string version_range

record model_vulnerability_test =
  mvt_oid :: string
  mvt_fixed_packages :: "fixed_package list"

datatype package_type = DEB | EBUILD | RPM | SLACK | MSP

record model_product =
  mp_version :: string
  mp_package_type :: package_type
  mp_vulnerability_tests :: "model_vulnerability_test list"

text \<open>The errors; the payloads of other libraries (I/O, JSON, loading) are their texts.\<close>

datatype verify_error =
    SumsFileCorrupt string
  | VerifyLoadError string
  | HashInvalid string string string
  | BadSignature string
  | MissingKeyring

datatype notus_error =
    MissingProductsDir string
  | ProductsDirIsFile string
  | UnreadableProductsDir string string
  | UnknownProduct string
  | LoadProductError string string
  | JSONParseError string string
  | UnsupportedVersion string string string
  | PackageParseError string
  | VulnerabilityTestParseError string fixed_package
  | HashsumLoadError verify_error
  | SignatureCheckError verify_error

datatype fixed_version =
    FixedSingle string specifier
  | FixedRange string string

record vulnerable_package =
  vp_name :: string
  vp_installed_version :: string
  vp_fixed_version :: fixed_version

type_synonym notus_results = "(string, vulnerable_package list) hashmap"

subsection \<open>Vulnerability tests\<close>

datatype 'p package_information = Single specifier 'p | Range 'p 'p

record 'p vulnerability_test =
  vt_oid :: string
  vt_package_information :: "'p package_information"

type_synonym 'p vulnerability_tests = "(string, 'p vulnerability_test list) hashmap"

definition vt_single :: "'p package_ops \<Rightarrow> string \<Rightarrow> specifier \<Rightarrow> 'p option \<Rightarrow> (string \<times> 'p vulnerability_test) option" where
  "vt_single ops oid specifier parsed = (case parsed of
      None \<Rightarrow> None
    | Some package \<Rightarrow> Some (op_get_name ops package,
        \<lparr>vt_oid = oid, vt_package_information = Single specifier package\<rparr>))"

definition vt_create :: "'p package_ops \<Rightarrow> string \<Rightarrow> fixed_package \<Rightarrow> (string \<times> 'p vulnerability_test) option exec" where
  "vt_create ops oid fixed_package = (case fixed_package of
      ByFullName full_name specifier \<Rightarrow>
        exec_bind (op_from_full_name ops full_name) (\<lambda>p. Ret (vt_single ops oid specifier p))
    | ByNameAndFullVersion name full_version specifier \<Rightarrow>
        exec_bind (op_from_name_and_full_version ops name full_version)
          (\<lambda>p. Ret (vt_single ops oid specifier p))
    | ByRange name rng \<Rightarrow>
        exec_bind (op_from_name_and_full_version ops name (range_start rng)) (\<lambda>s. case s of
          None \<Rightarrow> Ret None
        | Some start \<Rightarrow>
            exec_bind (op_from_name_and_full_version ops name (range_end rng)) (\<lambda>e. case e of
              None \<Rightarrow> Ret None
            | Some end' \<Rightarrow> Ret (Some (op_get_name ops start,
                \<lparr>vt_oid = oid, vt_package_information = Range start end'\<rparr>)))))"

text \<open>The operators are those of \<^verbatim>\<open>PartialOrd\<close>, but \<^verbatim>\<open>!=\<close> is the structural inequality of \<^verbatim>\<open>PartialEq\<close>.\<close>

definition vt_is_vulnerable :: "'p package_ops \<Rightarrow> 'p vulnerability_test \<Rightarrow> 'p \<Rightarrow> bool" where
  "vt_is_vulnerable ops vt pkg = (case vt_package_information vt of
      Single specifier package \<Rightarrow>
        (case specifier of
           GT \<Rightarrow> partial_le (op_partial_cmp ops pkg package)
         | LT \<Rightarrow> partial_ge (op_partial_cmp ops pkg package)
         | GE \<Rightarrow> partial_lt (op_partial_cmp ops pkg package)
         | LE \<Rightarrow> partial_gt (op_partial_cmp ops pkg package)
         | EQ \<Rightarrow> pkg \<noteq> package)
    | Range start end' \<Rightarrow>
        partial_ge (op_partial_cmp ops pkg start) \<and> partial_lt (op_partial_cmp ops pkg end'))"

definition vt_get_fixed_version :: "'p package_ops \<Rightarrow> 'p vulnerability_test \<Rightarrow> fixed_version" where
  "vt_get_fixed_version ops vt = (case vt_package_information vt of
      Single specifier package \<Rightarrow> FixedSingle (op_get_version ops package) specifier
    | Range start end' \<Rightarrow> FixedRange (op_get_version ops start) (op_get_version ops end'))"

subsection \<open>Transforming a product\<close>

fun transform_packages :: "'p package_ops \<Rightarrow> string \<Rightarrow> fixed_package list \<Rightarrow> 'p vulnerability_tests \<Rightarrow>
    (notus_error + 'p vulnerability_tests) exec" where
  "transform_packages ops oid [] vts = Ret (Inr vts)"
| "transform_packages ops oid (fixed_package # fps) vts =
     exec_bind (vt_create ops oid fixed_package) (\<lambda>r. case r of
       None \<Rightarrow> Ret (Inl (VulnerabilityTestParseError [] fixed_package))
     | Some (pkg_name, adv) \<Rightarrow> transform_packages ops oid fps (hm_push pkg_name adv vts))"

fun transform_vts :: "'p package_ops \<Rightarrow> model_vulnerability_test list \<Rightarrow> 'p vulnerability_tests \<Rightarrow>
    (notus_error + 'p vulnerability_tests) exec" where
  "transform_vts ops [] vts = Ret (Inr vts)"
| "transform_vts ops (vt_model # ms) vts =
     res_bind (transform_packages ops (mvt_oid vt_model) (mvt_fixed_packages vt_model) vts)
       (transform_vts ops ms)"

definition transform :: "'p package_ops \<Rightarrow> model_vulnerability_test list \<Rightarrow>
    (notus_error + 'p vulnerability_tests) exec" where
  "transform ops vts_model = transform_vts ops vts_model []"

datatype product =
    Deb "deb vulnerability_tests"
  | EBuild "ebuild vulnerability_tests"
  | Rpm "rpm vulnerability_tests"
  | Slack "slack vulnerability_tests"
  | Windows "windows vulnerability_tests"

definition product_try_from :: "regexes \<Rightarrow> model_product \<Rightarrow> (notus_error + product) exec" where
  "product_try_from R p = (case mp_package_type p of
      DEB \<Rightarrow> res_bind (transform (deb_ops R) (mp_vulnerability_tests p)) (\<lambda>vts. Ret (Inr (Deb vts)))
    | EBUILD \<Rightarrow> res_bind (transform (ebuild_ops R) (mp_vulnerability_tests p)) (\<lambda>vts. Ret (Inr (EBuild vts)))
    | RPM \<Rightarrow> res_bind (transform (rpm_ops R) (mp_vulnerability_tests p)) (\<lambda>vts. Ret (Inr (Rpm vts)))
    | SLACK \<Rightarrow> res_bind (transform (slack_ops R) (mp_vulnerability_tests p)) (\<lambda>vts. Ret (Inr (Slack vts)))
    | MSP \<Rightarrow> res_bind (transform (windows_ops R) (mp_vulnerability_tests p)) (\<lambda>vts. Ret (Inr (Windows vts))))"

subsection \<open>Parsing and comparing the installed packages\<close>

fun parse_packages :: "'p package_ops \<Rightarrow> string list \<Rightarrow> (notus_error + 'p list) exec" where
  "parse_packages ops [] = Ret (Inr [])"
| "parse_packages ops (package # ps) =
     exec_bind (op_from_full_name ops package) (\<lambda>r. case r of
       None \<Rightarrow> Ret (Inl (PackageParseError package))
     | Some p \<Rightarrow> res_bind (parse_packages ops ps) (\<lambda>qs. Ret (Inr (p # qs))))"

definition vulnerable_package_of :: "'p package_ops \<Rightarrow> 'p \<Rightarrow> 'p vulnerability_test \<Rightarrow> vulnerable_package" where
  "vulnerable_package_of ops package vt = \<lparr>vp_name = op_get_name ops package,
     vp_installed_version = op_get_version ops package,
     vp_fixed_version = vt_get_fixed_version ops vt\<rparr>"

fun compare_vts :: "'p package_ops \<Rightarrow> 'p \<Rightarrow> 'p vulnerability_test list \<Rightarrow> notus_results \<Rightarrow> notus_results" where
  "compare_vts ops package [] results = results"
| "compare_vts ops package (vt # vts) results =
     compare_vts ops package vts
       (if vt_is_vulnerable ops vt package
        then hm_push (vt_oid vt) (vulnerable_package_of ops package vt) results
        else results)"

fun compare_packages :: "'p package_ops \<Rightarrow> 'p list \<Rightarrow> 'p vulnerability_tests \<Rightarrow> notus_results \<Rightarrow> notus_results" where
  "compare_packages ops [] vts results = results"
| "compare_packages ops (package # ps) vts results =
     compare_packages ops ps vts
       (case hm_get vts (op_get_name ops package) of
          Some ts \<Rightarrow> compare_vts ops package ts results
        | None \<Rightarrow> results)"

definition compare :: "'p package_ops \<Rightarrow> 'p list \<Rightarrow> 'p vulnerability_tests \<Rightarrow> notus_results" where
  "compare ops packages vts = compare_packages ops packages vts []"

definition parse_and_compare :: "'p package_ops \<Rightarrow> string list \<Rightarrow> 'p vulnerability_tests \<Rightarrow>
    (notus_error + notus_results) exec" where
  "parse_and_compare ops packages vts =
     res_bind (parse_packages ops packages) (\<lambda>ps. Ret (Inr (compare ops ps vts)))"

subsection \<open>The scanner\<close>

datatype feed_stamp = Time nat | Hashsum string

record product_loader =
  load_product :: "string \<Rightarrow> notus_error + (model_product \<times> feed_stamp)"
  get_products :: "notus_error + string list"
  has_changed :: "string \<Rightarrow> feed_stamp \<Rightarrow> bool"
  verify_signature :: "verify_error + unit"

text \<open>
  The field \<^verbatim>\<open>loader\<close> of \<^verbatim>\<open>Notus\<close> is an argument of the methods, since what it answers depends on
  files that change between calls.
\<close>

record notus =
  loaded_products :: "(string, product \<times> feed_stamp) hashmap"
  signature_check_enabled :: bool

definition notus_new :: "bool \<Rightarrow> notus" where
  "notus_new check = \<lparr>loaded_products = [], signature_check_enabled = check\<rparr>"

text \<open>The name of the product is put into the error of its transformation.\<close>

definition with_product :: "string \<Rightarrow> notus_error \<Rightarrow> notus_error" where
  "with_product os e = (case e of
      VulnerabilityTestParseError _ pkg \<Rightarrow> VulnerabilityTestParseError os pkg
    | err \<Rightarrow> err)"

definition load_new_product :: "regexes \<Rightarrow> product_loader \<Rightarrow> string \<Rightarrow> (notus_error + (product \<times> feed_stamp)) exec" where
  "load_new_product R L os =
     res_bind (Ret (load_product L os)) (\<lambda>(product, stamp).
       exec_bind (product_try_from R product) (\<lambda>r. Ret (case r of
           Inr adv \<Rightarrow> Inr (adv, stamp)
         | Inl err \<Rightarrow> Inl (with_product os err))))"

definition signature_check :: "product_loader \<Rightarrow> notus \<Rightarrow> notus_error + unit" where
  "signature_check L st =
     (if signature_check_enabled st then
        (case verify_signature L of
           Inr _ \<Rightarrow> Inr ()
         | Inl MissingKeyring \<Rightarrow> Inl (SignatureCheckError MissingKeyring)
         | Inl (BadSignature e) \<Rightarrow> Inl (SignatureCheckError (BadSignature e))
         | Inl e \<Rightarrow> Inl (HashsumLoadError e))
      else Inr ())"

definition product_parse_and_compare :: "regexes \<Rightarrow> product \<Rightarrow> string list \<Rightarrow> (notus_error + notus_results) exec" where
  "product_parse_and_compare R product packages = (case product of
      Deb adv \<Rightarrow> parse_and_compare (deb_ops R) packages adv
    | EBuild adv \<Rightarrow> parse_and_compare (ebuild_ops R) packages adv
    | Rpm adv \<Rightarrow> parse_and_compare (rpm_ops R) packages adv
    | Slack adv \<Rightarrow> parse_and_compare (slack_ops R) packages adv
    | Windows adv \<Rightarrow> parse_and_compare (windows_ops R) packages adv)"

text \<open>The product a scan uses, with the cache after the access.\<close>

definition notus_product :: "regexes \<Rightarrow> product_loader \<Rightarrow> notus \<Rightarrow> string \<Rightarrow> (notus \<times> (notus_error + product)) exec" where
  "notus_product R L st os =
     (let load = (\<lambda>st'. exec_bind (load_new_product R L os) (\<lambda>r. Ret (case r of
                     Inl e \<Rightarrow> (st', Inl e)
                   | Inr entry \<Rightarrow> (st'\<lparr>loaded_products := hm_insert os entry (loaded_products st')\<rparr>, Inr (fst entry)))))
      in case hm_get (loaded_products st) os of
        Some (adv, stamp) \<Rightarrow>
          (if has_changed L os stamp then
             (case signature_check L st of
                Inl e \<Rightarrow> Ret (st, Inl e)
              | Inr _ \<Rightarrow> load (st\<lparr>loaded_products := hm_remove os (loaded_products st)\<rparr>))
           else Ret (st, Inr adv))
      | None \<Rightarrow>
          (case signature_check L st of
             Inl e \<Rightarrow> Ret (st, Inl e)
           | Inr _ \<Rightarrow> load st))"

definition notus_scan :: "regexes \<Rightarrow> product_loader \<Rightarrow> notus \<Rightarrow> string \<Rightarrow> string list \<Rightarrow>
    (notus \<times> (notus_error + notus_results)) exec" where
  "notus_scan R L st os packages =
     exec_bind (notus_product R L st os) (\<lambda>(st', r). case r of
       Inl e \<Rightarrow> Ret (st', Inl e)
     | Inr product \<Rightarrow>
         exec_bind (product_parse_and_compare R product packages) (\<lambda>res. Ret (st', res)))"

definition get_available_os :: "product_loader \<Rightarrow> notus \<Rightarrow> notus_error + string list" where
  "get_available_os L st = (case signature_check L st of Inl e \<Rightarrow> Inl e | Inr _ \<Rightarrow> get_products L)"

subsection \<open>What a vulnerability test decides\<close>

definition satisfies :: "specifier \<Rightarrow> ordering \<Rightarrow> bool" where
  "satisfies s c = (case s of GT \<Rightarrow> c = Greater | LT \<Rightarrow> c = Less | GE \<Rightarrow> c \<noteq> Less | LE \<Rightarrow> c \<noteq> Greater
     | EQ \<Rightarrow> c = Equal)"

lemma vt_is_vulnerable_single:
  "s \<noteq> EQ \<Longrightarrow> vt_is_vulnerable ops \<lparr>vt_oid = oid, vt_package_information = Single s q\<rparr> p \<longleftrightarrow>
     (\<exists>c. op_partial_cmp ops p q = Some c \<and> \<not> satisfies s c)"
  by (cases s; cases "op_partial_cmp ops p q"; cases "the (op_partial_cmp ops p q)")
    (auto simp: vt_is_vulnerable_def satisfies_def partial_ops)



text \<open>
  The specifier \<^verbatim>\<open>=\<close> compares the parsed records with \<^verbatim>\<open>!=\<close>, not the versions. The full version of
  an RPM package parsed from its full name always spells the epoch, that of a fixed package given
  by name and version only when the advisory does. Hence an installed package is reported as
  vulnerable to every such fix, also when it has exactly the required version.
\<close>

theorem rpm_equal_specifier_always_vulnerable:
  assumes "rpm_from_full_name R s = Ret (Some installed)"
    and "vt_create (rpm_ops R) oid (ByNameAndFullVersion name version EQ) = Ret (Some (pkg_name, vt))"
    and "CHR '':'' \<notin> set (str_trim version)"
  shows "vt_is_vulnerable (rpm_ops R) vt installed"
proof -
  obtain fixed where fixed: "rpm_from_name_and_full_version R name version = Ret (Some fixed)"
    and vt: "vt = \<lparr>vt_oid = oid, vt_package_information = Single EQ fixed\<rparr>"
    using assms(2) by (auto simp: vt_create_def vt_single_def rpm_ops_def exec_simps split: option.splits)
  have "rpm_full_version fixed = str_trim version"
    using fixed by (auto simp: rpm_from_name_and_full_version_def Let_def exec_simps split: if_splits option.splits)
  moreover have "CHR '':'' \<in> set (rpm_full_version installed)"
    using assms(1) by (auto simp: rpm_from_full_name_def Let_def exec_simps split: if_splits option.splits)
  ultimately have "installed \<noteq> fixed" using assms(3) by auto
  then show ?thesis by (simp add: vt vt_is_vulnerable_def)
qed

definition example_rpm_regexes :: regexes where
  "example_rpm_regexes = no_regexes\<lparr>
     re_rpm := (\<lambda>s. if s = ''a-1-2.x'' then Some [Some s, Some ''a'', None, Some ''1'', Some ''2'', Some ''x''] else None),
     re_rpm_version := (\<lambda>s. if s = ''1-2.x'' then Some [Some s, None, Some ''1'', Some ''2'', Some ''x''] else None)\<rparr>"

lemma parse_u64_zero: "parse_u64 ''0'' = Some 0"
  by (simp add: parse_u64_def parse_uint_def is_digit_def digits_val_def digit_val_def)

theorem rpm_equal_specifier_always_vulnerable_witness:
  "\<exists>installed vt. rpm_from_full_name example_rpm_regexes ''a-1-2.x'' = Ret (Some installed) \<and>
     vt_create (rpm_ops example_rpm_regexes) ''1.3'' (ByNameAndFullVersion ''a'' ''1-2.x'' EQ) = Ret (Some (''a'', vt)) \<and>
     vt_is_vulnerable (rpm_ops example_rpm_regexes) vt installed"
proof -
  let ?i = "\<lparr>rpm_name = ''a'', rpm_full_name = ''a-1-2.x'', rpm_full_version = ''0:1-2.x'', rpm_epoch = 0,
    rpm_version = PackageVersion ''1'', rpm_release = PackageVersion ''2'', rpm_arch = ''x''\<rparr>"
  let ?vt = "\<lparr>vt_oid = ''1.3'', vt_package_information = Single EQ (?i\<lparr>rpm_full_version := ''1-2.x''\<rparr>)\<rparr>"
  have i: "rpm_from_full_name example_rpm_regexes ''a-1-2.x'' = Ret (Some ?i)"
    by (simp add: rpm_from_full_name_def example_rpm_regexes_def str_trim_def is_whitespace_def
        capture_def parse_u64_zero Let_def)
  have v: "vt_create (rpm_ops example_rpm_regexes) ''1.3'' (ByNameAndFullVersion ''a'' ''1-2.x'' EQ) =
      Ret (Some (''a'', ?vt))"
    by (simp add: vt_create_def vt_single_def rpm_ops_def rpm_from_name_and_full_version_def
        example_rpm_regexes_def str_trim_def is_whitespace_def capture_def parse_u64_zero Let_def)
  show ?thesis
    using rpm_equal_specifier_always_vulnerable [OF i v] i v
    by (auto simp: str_trim_def is_whitespace_def)
qed

subsection \<open>What a transformed product holds\<close>

definition fixed_of :: "model_vulnerability_test list \<Rightarrow> (string \<times> fixed_package) list" where
  "fixed_of ms = concat (map (\<lambda>m. map (Pair (mvt_oid m)) (mvt_fixed_packages m)) ms)"

definition creates :: "'p package_ops \<Rightarrow> (string \<times> fixed_package) list \<Rightarrow> (string \<times> 'p vulnerability_test) list \<Rightarrow> bool" where
  "creates ops xs cs = list_all2 (\<lambda>x c. vt_create ops (fst x) (snd x) = Ret (Some c)) xs cs"

lemma creates_simps [simp]:
  "creates ops [] cs \<longleftrightarrow> cs = []"
  "creates ops (x # xs) cs \<longleftrightarrow> (\<exists>c ds. cs = c # ds \<and> vt_create ops (fst x) (snd x) = Ret (Some c) \<and> creates ops xs ds)"
  by (auto simp: creates_def list_all2_Cons1)

lemma creates_append:
  "creates ops (xs @ ys) cs \<longleftrightarrow> (\<exists>us vs. cs = us @ vs \<and> creates ops xs us \<and> creates ops ys vs)"
proof
  assume "creates ops (xs @ ys) cs"
  then show "\<exists>us vs. cs = us @ vs \<and> creates ops xs us \<and> creates ops ys vs"
    unfolding creates_def list_all2_append1 by blast
next
  assume "\<exists>us vs. cs = us @ vs \<and> creates ops xs us \<and> creates ops ys vs"
  then show "creates ops (xs @ ys) cs" unfolding creates_def by (blast intro: list_all2_appendI)
qed

lemma transform_packages_Ok:
  "transform_packages ops oid fps vts = Ret (Inr vts') \<longleftrightarrow>
     (\<exists>cs. creates ops (map (Pair oid) fps) cs \<and> vts' = hm_push_all cs vts)"
proof (induction fps arbitrary: vts)
  case (Cons fp fps)
  show ?case
  proof (cases "\<exists>c. vt_create ops oid fp = Ret (Some c)")
    case True
    then obtain n adv where "vt_create ops oid fp = Ret (Some (n, adv))" by fastforce
    then show ?thesis using Cons.IH [of "hm_push n adv vts"] by auto
  next
    case False
    then show ?thesis by (auto simp: exec_bind_Ret_conv split: option.splits)
  qed
qed auto

lemma fixed_of_simps [simp]:
  "fixed_of [] = []"
  "fixed_of (m # ms) = map (Pair (mvt_oid m)) (mvt_fixed_packages m) @ fixed_of ms"
  by (simp_all add: fixed_of_def)

lemma transform_vts_Ok:
  "transform_vts ops ms vts = Ret (Inr vts') \<longleftrightarrow>
     (\<exists>cs. creates ops (fixed_of ms) cs \<and> vts' = hm_push_all cs vts)"
proof (induction ms arbitrary: vts)
  case (Cons m ms)
  have "transform_vts ops (m # ms) vts = Ret (Inr vts') \<longleftrightarrow>
      (\<exists>us. creates ops (map (Pair (mvt_oid m)) (mvt_fixed_packages m)) us \<and>
        transform_vts ops ms (hm_push_all us vts) = Ret (Inr vts'))"
    by (auto simp: res_bind_Ok_conv transform_packages_Ok)
  then show ?case unfolding Cons.IH fixed_of_simps creates_append by fastforce
qed auto

lemma transform_Ok:
  "transform ops ms = Ret (Inr vts) \<longleftrightarrow> (\<exists>cs. creates ops (fixed_of ms) cs \<and> vts = hm_push_all cs [])"
  by (simp add: transform_def transform_vts_Ok)

lemma transform_packages_Err:
  "creates ops (map (Pair oid) fps) cs \<Longrightarrow> vt_create ops oid fp = Ret None \<Longrightarrow>
   transform_packages ops oid (fps @ fp # rest) vts = Ret (Inl (VulnerabilityTestParseError [] fp))"
  by (induction fps arbitrary: vts cs) auto

text \<open>
  When the fixed packages before one parse and that one does not, the transformation of a
  product stops there and returns the error with exactly that fixed package; no later advisory is
  looked at.
\<close>

theorem transform_first_error:
  assumes "creates ops (fixed_of ms) cs" and "creates ops (map (Pair (mvt_oid m)) fps) ds"
    and "mvt_fixed_packages m = fps @ fp # rest" and "vt_create ops (mvt_oid m) fp = Ret None"
  shows "transform ops (ms @ m # ms') = Ret (Inl (VulnerabilityTestParseError [] fp))"
proof -
  have "transform_vts ops (xs @ ys) vts = transform_vts ops ys (hm_push_all cs vts)"
    if "creates ops (fixed_of xs) cs" for xs ys cs vts
    using that
  proof (induction xs arbitrary: vts cs)
    case (Cons x xs)
    then obtain us vs where cs: "cs = us @ vs" and us: "creates ops (map (Pair (mvt_oid x)) (mvt_fixed_packages x)) us"
      and vs: "creates ops (fixed_of xs) vs" by (auto simp: creates_append)
    from us have "transform_packages ops (mvt_oid x) (mvt_fixed_packages x) vts = Ret (Inr (hm_push_all us vts))"
      by (auto simp: transform_packages_Ok)
    with Cons.IH [OF vs] cs show ?case by simp
  qed simp
  from this [OF assms(1), of "m # ms'" "[]"] show ?thesis
    using transform_packages_Err [OF assms(2,4), of rest "hm_push_all cs []"] assms(3)
    by (simp add: transform_def)
qed

theorem transform_first_error_witness:
  "transform (windows_ops no_regexes)
     [\<lparr>mvt_oid = ''1'', mvt_fixed_packages = [ByFullName ''10.1'' GE, ByFullName ''10'' GE]\<rparr>,
      \<lparr>mvt_oid = ''2'', mvt_fixed_packages = [ByFullName [] GE]\<rparr>] =
   Ret (Inl (VulnerabilityTestParseError [] (ByFullName ''10'' GE)))"
proof -
  let ?vt = "(''10'', \<lparr>vt_oid = ''1'', vt_package_information = Single GE
    \<lparr>windows_full_name = ''10.1'', windows_build = ''10'', windows_revision = PackageVersion ''1''\<rparr>\<rparr>)"
  let ?m = "\<lparr>mvt_oid = ''1'', mvt_fixed_packages = [ByFullName ''10.1'' GE, ByFullName ''10'' GE]\<rparr>"
  have "creates (windows_ops no_regexes) (map (Pair (mvt_oid ?m)) [ByFullName ''10.1'' GE]) [?vt]"
    by (simp add: vt_create_def vt_single_def windows_ops_def windows_from_full_name_def str_trim_def
        is_whitespace_def rsplit_once_def)
  moreover have "vt_create (windows_ops no_regexes) (mvt_oid ?m) (ByFullName ''10'' GE) = Ret None"
    by (simp add: vt_create_def vt_single_def windows_ops_def windows_from_full_name_def str_trim_def
        is_whitespace_def rsplit_once_def)
  ultimately show ?thesis
    using transform_first_error [of "windows_ops no_regexes" "[]" "[]" ?m "[ByFullName ''10.1'' GE]" "[?vt]"
        "ByFullName ''10'' GE" "[]"] by simp
qed

subsection \<open>What a scan reports\<close>

definition reports :: "'p package_ops \<Rightarrow> 'p vulnerability_test list \<Rightarrow> 'p \<Rightarrow> (string \<times> vulnerable_package) list" where
  "reports ops ts p = map (\<lambda>t. (vt_oid t, vulnerable_package_of ops p t)) (filter (\<lambda>t. vt_is_vulnerable ops t p) ts)"

lemma compare_vts_reports: "compare_vts ops p ts results = hm_push_all (reports ops ts p) results"
  by (induction ts arbitrary: results) (auto simp: reports_def)

lemma compare_packages_reports:
  "compare_packages ops ps vts results = hm_push_all (concat (map (\<lambda>p. reports ops
     (case hm_get vts (op_get_name ops p) of None \<Rightarrow> [] | Some ts \<Rightarrow> ts) p) ps)) results"
  by (induction ps arbitrary: results)
    (auto simp: compare_vts_reports reports_def [of _ "[]"] split: option.splits)

lemma parse_packages_Ok:
  "parse_packages ops ss = Ret (Inr ps) \<longleftrightarrow> map (op_from_full_name ops) ss = map (\<lambda>p. Ret (Some p)) ps"
proof (induction ss arbitrary: ps)
  case (Cons s ss)
  show ?case by (cases ps) (auto simp: exec_simps Cons.IH split: option.splits)
qed auto

lemma case_option_nonempty [simp]: "(case nonempty xs of None \<Rightarrow> [] | Some ys \<Rightarrow> ys) = xs"
  by (simp add: nonempty_def)

text \<open>
  C1: the whole pipeline, from the product file to the results. If the product transforms and the
  installed packages parse, the scan returns, and what it reports for an OID is exactly: for each
  installed package in the order of the request, and each fixed package of the product file with
  that name and OID in the order of the file, the entry of the pair when the package is vulnerable.
  An OID without such a pair has no entry.
\<close>

theorem parse_and_compare_reports:
  assumes "transform ops ms = Ret (Inr vts)" and "parse_packages ops texts = Ret (Inr ps)"
  shows "\<exists>cs results. creates ops (fixed_of ms) cs \<and>
     map (op_from_full_name ops) texts = map (\<lambda>p. Ret (Some p)) ps \<and>
     parse_and_compare ops texts vts = Ret (Inr results) \<and>
     (\<forall>oid. hm_get results oid = nonempty (concat (map (\<lambda>p.
        map (vulnerable_package_of ops p)
          (filter (\<lambda>t. vt_oid t = oid \<and> vt_is_vulnerable ops t p) (group_of (op_get_name ops p) cs))) ps)))"
proof -
  from assms(1) obtain cs where cs: "creates ops (fixed_of ms) cs" and vts: "vts = hm_push_all cs []"
    by (auto simp: transform_Ok)
  have group: "group_of oid (reports ops ts p) =
      map (vulnerable_package_of ops p) (filter (\<lambda>t. vt_oid t = oid \<and> vt_is_vulnerable ops t p) ts)" for oid ts p
    by (induction ts) (auto simp: reports_def)
  have concat: "group_of oid (concat xss) = concat (map (group_of oid) xss)"
    for oid and xss :: "(string \<times> vulnerable_package) list list"
    by (induction xss) auto
  have "hm_get (compare ops ps vts) oid = nonempty (concat (map (\<lambda>p.
        map (vulnerable_package_of ops p)
          (filter (\<lambda>t. vt_oid t = oid \<and> vt_is_vulnerable ops t p) (group_of (op_get_name ops p) cs))) ps))" for oid
    by (simp add: compare_def compare_packages_reports vts hm_get_push_all concat group comp_def)
  with cs assms(2) show ?thesis
    by (auto simp: parse_and_compare_def parse_packages_Ok [symmetric])
qed

definition example_product :: "model_vulnerability_test list" where
  "example_product = [\<lparr>mvt_oid = ''1'', mvt_fixed_packages = [ByFullName ''10.5'' GE]\<rparr>]"

definition example_windows :: "string \<Rightarrow> windows" where
  "example_windows revision = \<lparr>windows_full_name = ''10.'' @ revision, windows_build = ''10'',
     windows_revision = PackageVersion revision\<rparr>"

lemmas example_windows_simps =
  windows_ops_def windows_from_full_name_def str_trim_def is_whitespace_def rsplit_once_def
  example_windows_def

theorem parse_and_compare_reports_witness:
  "\<exists>vts results. transform (windows_ops no_regexes) example_product = Ret (Inr vts) \<and>
     parse_and_compare (windows_ops no_regexes) [''10.3'', ''10.7''] vts = Ret (Inr results) \<and>
     hm_get results ''1'' = Some [\<lparr>vp_name = ''10'', vp_installed_version = ''3'',
        vp_fixed_version = FixedSingle ''5'' GE\<rparr>]"
proof -
  let ?ops = "windows_ops no_regexes"
  let ?t = "\<lparr>vt_oid = ''1'', vt_package_information = Single GE (example_windows ''5'')\<rparr>"
  have create: "vt_create ?ops ''1'' (ByFullName ''10.5'' GE) = Ret (Some (''10'', ?t))"
    by (simp add: vt_create_def vt_single_def example_windows_simps)
  then have tr: "transform ?ops example_product = Ret (Inr (hm_push_all [(''10'', ?t)] []))"
    by (simp add: transform_def example_product_def)
  have ps: "parse_packages ?ops [''10.3'', ''10.7''] = Ret (Inr [example_windows ''3'', example_windows ''7''])"
    by (simp add: example_windows_simps)
  obtain cs results where cs: "creates ?ops (fixed_of example_product) cs"
    and res: "parse_and_compare ?ops [''10.3'', ''10.7''] (hm_push_all [(''10'', ?t)] []) = Ret (Inr results)"
    and get: "\<forall>oid. hm_get results oid = nonempty (concat (map (\<lambda>p.
        map (vulnerable_package_of ?ops p)
          (filter (\<lambda>t. vt_oid t = oid \<and> vt_is_vulnerable ?ops t p) (group_of (op_get_name ?ops p) cs)))
        [example_windows ''3'', example_windows ''7'']))"
    using parse_and_compare_reports [OF tr ps] by blast
  have cs: "cs = [(''10'', ?t)]" using cs create by (auto simp: example_product_def)
  have three: "vt_is_vulnerable ?ops ?t (example_windows ''3'')"
    and seven: "\<not> vt_is_vulnerable ?ops ?t (example_windows ''7'')"
    by (simp_all add: vt_is_vulnerable_def windows_ops_def windows_partial_cmp_def example_windows_def
        pv_partial_cmp_def part_cmp_def parse_u32_def parse_uint_def is_digit_def digits_val_def
        digit_val_def ord_cmp_def partial_ops)
  have "hm_get results ''1'' = Some [vulnerable_package_of ?ops (example_windows ''3'') ?t]"
    using get three seven by (simp add: cs windows_ops_def example_windows_def)
  then show ?thesis
    using tr res by (auto simp: vulnerable_package_of_def vt_get_fixed_version_def windows_ops_def example_windows_def)
qed

subsection \<open>The cache of products\<close>

text \<open>A sequence of scans, each with the loader as it answers at that time.\<close>

fun notus_run :: "regexes \<Rightarrow> notus \<Rightarrow> (product_loader \<times> string \<times> string list) list \<Rightarrow> notus exec" where
  "notus_run R st [] = Ret st"
| "notus_run R st ((L, os, packages) # reqs) =
     exec_bind (notus_scan R L st os packages) (\<lambda>(st', _). notus_run R st' reqs)"

definition cached_from :: "regexes \<Rightarrow> product_loader set \<Rightarrow> notus \<Rightarrow> bool" where
  "cached_from R Ls st = (\<forall>os adv stamp. hm_get (loaded_products st) os = Some (adv, stamp) \<longrightarrow>
     (\<exists>L\<in>Ls. \<exists>p. load_product L os = Inr (p, stamp) \<and> product_try_from R p = Ret (Inr adv)))"

lemma load_new_product_Ok:
  "load_new_product R L os = Ret (Inr (adv, stamp)) \<longleftrightarrow>
     (\<exists>p. load_product L os = Inr (p, stamp) \<and> product_try_from R p = Ret (Inr adv))"
proof (cases "load_product L os")
  case (Inr x)
  obtain p st where x: "x = (p, st)" by (cases x)
  show ?thesis
  proof (cases "product_try_from R p")
    case (Ret r)
    then show ?thesis using Inr x by (cases r) (auto simp: load_new_product_def)
  qed (use Inr x in \<open>auto simp: load_new_product_def\<close>)
qed (auto simp: load_new_product_def)

lemma cached_from_mono: "cached_from R Ls st \<Longrightarrow> Ls \<subseteq> Ls' \<Longrightarrow> cached_from R Ls' st"
  by (fastforce simp: cached_from_def)

lemma notus_product_cached:
  assumes "cached_from R Ls st" and "notus_product R L st os = Ret (st', r)"
    and "signature_check L st = Inr () \<Longrightarrow> L \<in> Ls"
  shows "cached_from R Ls st' \<and> signature_check_enabled st' = signature_check_enabled st"
proof -
  have load: "cached_from R Ls (s\<lparr>loaded_products := hm_insert os entry (loaded_products s)\<rparr>)"
    if "cached_from R Ls s" "load_new_product R L os = Ret (Inr entry)" "L \<in> Ls" for s entry
    using that by (cases entry) (auto simp: cached_from_def load_new_product_Ok)
  have remove: "cached_from R Ls (st\<lparr>loaded_products := hm_remove os (loaded_products st)\<rparr>)"
    using assms(1) by (auto simp: cached_from_def)
  show ?thesis
  proof (cases "signature_check L st")
    case (Inl e)
    with assms(1,2) show ?thesis
      by (auto simp: notus_product_def Let_def split: option.splits if_splits)
  next
    case (Inr u)
    then have L: "L \<in> Ls" using assms(3) by simp
    note facts = load [OF assms(1) _ L] load [OF remove _ L] remove assms(1)
    show ?thesis
    proof (cases "load_new_product R L os")
      case Panic
      with assms(2) Inr facts show ?thesis
        by (auto simp: notus_product_def Let_def split: option.splits if_splits)
    next
      case (Ret lr)
      with assms(2) Inr facts show ?thesis
        by (cases lr) (auto simp: notus_product_def Let_def split: option.splits if_splits)
    qed
  qed
qed

lemma notus_scan_cached:
  assumes "cached_from R Ls st" and "notus_scan R L st os packages = Ret (st', r)"
    and "signature_check L st = Inr () \<Longrightarrow> L \<in> Ls"
  shows "cached_from R Ls st' \<and> signature_check_enabled st' = signature_check_enabled st"
proof -
  obtain st1 r1 where st1: "notus_product R L st os = Ret (st1, r1)"
    using assms(2) by (auto simp: notus_scan_def exec_bind_Ret_conv)
  moreover from this have "st' = st1"
    using assms(2) by (cases r1) (auto simp: notus_scan_def exec_bind_Ret_conv)
  ultimately show ?thesis using notus_product_cached [OF assms(1) st1 assms(3)] by simp
qed

lemma signature_check_enabled_Ok:
  "signature_check_enabled st \<Longrightarrow> signature_check L st = Inr () \<longleftrightarrow> verify_signature L = Inr ()"
  by (auto simp: signature_check_def split: sum.splits verify_error.splits)

lemma notus_run_cached:
  "notus_run R st reqs = Ret st' \<Longrightarrow> cached_from R Ls st \<Longrightarrow> signature_check_enabled st \<Longrightarrow>
   {L \<in> fst ` set reqs. verify_signature L = Inr ()} \<subseteq> Ls \<Longrightarrow> cached_from R Ls st'"
proof (induction reqs arbitrary: st)
  case (Cons req reqs)
  obtain L os packages where req: "req = (L, os, packages)" by (cases req)
  with Cons.prems(1) obtain st1 r where scan: "notus_scan R L st os packages = Ret (st1, r)"
    and run: "notus_run R st1 reqs = Ret st'"
    by (auto simp: exec_bind_Ret_conv)
  have "signature_check L st = Inr () \<Longrightarrow> L \<in> Ls"
    using Cons.prems(3,4) req by (auto simp: signature_check_enabled_Ok)
  then have "cached_from R Ls st1 \<and> signature_check_enabled st1"
    using notus_scan_cached [OF Cons.prems(2) scan] Cons.prems(3) by simp
  then show ?case using Cons.IH [OF run] Cons.prems(4) by auto
qed simp

text \<open>
  C18: with the signature check enabled, every product in the cache after any sequence of scans was
  loaded by a loader whose feed signature verified at that time, and is the transformation of what
  that loader returned: an unverified feed never enters the cache.
\<close>

theorem notus_cache_only_verified:
  assumes "notus_run R (notus_new True) reqs = Ret st"
    and "hm_get (loaded_products st) os = Some (adv, stamp)"
  shows "\<exists>L p. L \<in> fst ` set reqs \<and> verify_signature L = Inr () \<and> load_product L os = Inr (p, stamp) \<and>
     product_try_from R p = Ret (Inr adv)"
proof -
  let ?Ls = "{L \<in> fst ` set reqs. verify_signature L = Inr ()}"
  have "cached_from R ?Ls (notus_new True)" by (simp add: cached_from_def notus_new_def)
  then have "cached_from R ?Ls st"
    using notus_run_cached [OF assms(1)] by (simp add: notus_new_def)
  with assms(2) show ?thesis by (fastforce simp: cached_from_def)
qed

definition example_loader :: product_loader where
  "example_loader = \<lparr>load_product = (\<lambda>os. if os = ''win''
       then Inr (\<lparr>mp_version = ''1'', mp_package_type = MSP, mp_vulnerability_tests = example_product\<rparr>, Hashsum ''h'')
       else Inl (UnknownProduct os)),
     get_products = Inr [''win''], has_changed = (\<lambda>_ stamp. stamp \<noteq> Hashsum ''h''), verify_signature = Inr ()\<rparr>"

definition example_adv :: product where
  "example_adv = Windows [(''10'', [\<lparr>vt_oid = ''1'', vt_package_information = Single GE (example_windows ''5'')\<rparr>])]"

definition example_notus :: notus where
  "example_notus = \<lparr>loaded_products = [(''win'', (example_adv, Hashsum ''h''))], signature_check_enabled = True\<rparr>"

lemma example_try_from:
  "product_try_from no_regexes \<lparr>mp_version = ''1'', mp_package_type = MSP, mp_vulnerability_tests = example_product\<rparr> =
     Ret (Inr example_adv)"
  by (simp add: product_try_from_def transform_def example_product_def vt_create_def vt_single_def
      example_windows_simps hm_push_def example_adv_def)

lemma example_scan:
  "notus_scan no_regexes example_loader (notus_new True) ''win'' [] = Ret (example_notus, Inr [])"
  by (simp add: notus_scan_def notus_product_def notus_new_def signature_check_def load_new_product_def
      example_loader_def example_try_from Let_def example_notus_def product_parse_and_compare_def
      parse_and_compare_def compare_def example_adv_def)

theorem notus_cache_only_verified_witness:
  "notus_run no_regexes (notus_new True) [(example_loader, ''win'', [])] = Ret example_notus \<and>
   (\<exists>L p. L \<in> {example_loader} \<and> verify_signature L = Inr () \<and> load_product L ''win'' = Inr (p, Hashsum ''h'') \<and>
     product_try_from no_regexes p = Ret (Inr example_adv))"
proof -
  have run: "notus_run no_regexes (notus_new True) [(example_loader, ''win'', [])] = Ret example_notus"
    by (simp add: example_scan)
  have "hm_get (loaded_products example_notus) ''win'' = Some (example_adv, Hashsum ''h'')"
    by (simp add: example_notus_def)
  from notus_cache_only_verified [OF run this] run show ?thesis by simp
qed

text \<open>What the loaders promise of a stamp: while it has not changed, the file still has the content it was issued for.\<close>

definition stamps_sound :: "product_loader set \<Rightarrow> product_loader \<Rightarrow> bool" where
  "stamps_sound Ls L = (\<forall>L0\<in>Ls. \<forall>os p stamp p' stamp'.
     load_product L0 os = Inr (p, stamp) \<and> \<not> has_changed L os stamp \<and> load_product L os = Inr (p', stamp') \<longrightarrow> p' = p)"

lemma notus_scan_result:
  "exec_bind (notus_scan R L st os packages) (\<lambda>(_, r). Ret r) =
     exec_bind (notus_product R L st os) (\<lambda>(_, r). res_bind (Ret r) (\<lambda>product. product_parse_and_compare R product packages))"
proof (cases "notus_product R L st os")
  case (Ret x)
  obtain st1 r where x: "x = (st1, r)" by (cases x)
  show ?thesis
  proof (cases r)
    case (Inr product)
    with Ret x show ?thesis
      by (cases "product_parse_and_compare R product packages") (auto simp: notus_scan_def)
  qed (use Ret x in \<open>simp add: notus_scan_def\<close>)
qed (simp add: notus_scan_def)



end
