(* ===== verification/Storage_Types.thy ===== *)
theory Storage_Types
  imports Prelude
begin

section \<open>The data of the storage\<close>

text \<open>
  The data that the storage keeps and hands out: \<^verbatim>\<open>rust/src/storage/types.rs\<close> (primitive values),
  the enums with a text form and the tag values of \<^verbatim>\<open>item.rs\<close>, \<^verbatim>\<open>time.rs\<close>, the scan results of
  \<^verbatim>\<open>rust/src/models/result.rs\<close>, and the keys, knowledge base items and errors of
  \<^verbatim>\<open>rust/src/storage/mod.rs\<close>. Parsing a date with a format description is the \<^verbatim>\<open>time\<close> crate, an
  argument of the definitions that use it.
\<close>

subsection \<open>Errors\<close>

datatype storage_error =
    Retry string
  | ConnectionLost string
  | UnexpectedData string
  | Dirty string
  | NotFound string

datatype io_error_kind =
    IoNotFound | PermissionDenied | ConnectionRefused | NotConnected | BrokenPipe | AlreadyExists
  | AddrInUse | AddrNotAvailable | InvalidInput | InvalidData | UnexpectedEof | Unsupported
  | ConnectionReset | ConnectionAborted | TimedOut | Interrupted | OtherIoError

text \<open>The errors of a loader of scripts, \<^verbatim>\<open>rust/src/nasl/syntax/loader.rs\<close>.\<close>

datatype load_error = LoadRetry string | LoadNotFound string | LoadPermissionDenied string | LoadDirty string

text \<open>The message is the kind as \<^verbatim>\<open>Debug\<close> prints it.\<close>

definition storage_error_from_io :: "io_error_kind \<Rightarrow> string \<Rightarrow> storage_error" where
  "storage_error_from_io kind msg =
     (if kind \<in> {IoNotFound, PermissionDenied, ConnectionRefused, NotConnected, BrokenPipe, AlreadyExists,
                 AddrInUse, AddrNotAvailable, InvalidInput, InvalidData, UnexpectedEof, Unsupported}
      then UnexpectedData msg
      else if kind \<in> {ConnectionReset, ConnectionAborted, TimedOut, Interrupted} then Retry msg
      else Dirty msg)"

subsection \<open>Primitive values\<close>

datatype primitive =
    PString string
  | PData "8 word list"
  | PNumber "64 word"
  | PArray "primitive list"
  | PDict "(string \<times> primitive) list"
  | PBoolean bool
  | PNull

definition primitive_from_strings :: "string list \<Rightarrow> primitive" where
  "primitive_from_strings s = PArray (map PString s)"

definition primitive_from_i32 :: "32 word \<Rightarrow> primitive" where
  "primitive_from_i32 n = PNumber (scast n)"

definition primitive_from_hashmap ::
  "((string \<times> primitive) list \<Rightarrow> (string \<times> primitive) list) \<Rightarrow> (string, primitive) hashmap \<Rightarrow> primitive" where
  "primitive_from_hashmap it x = PDict (it x)"

definition primitive_to_bool :: "primitive \<Rightarrow> bool" where
  "primitive_to_bool v = (case v of
      PString string \<Rightarrow> string \<noteq> [] \<and> string \<noteq> ''0''
    | PArray v \<Rightarrow> v \<noteq> []
    | PData v \<Rightarrow> v \<noteq> []
    | PBoolean boolean \<Rightarrow> boolean
    | PNull \<Rightarrow> False
    | PNumber number \<Rightarrow> number \<noteq> 0
    | PDict v \<Rightarrow> v \<noteq> [])"

definition primitive_to_i64 :: "primitive \<Rightarrow> 64 word" where
  "primitive_to_i64 v = (case v of
      PString _ \<Rightarrow> 1
    | PNumber x \<Rightarrow> x
    | PArray _ \<Rightarrow> 1
    | PData _ \<Rightarrow> 1
    | PDict _ \<Rightarrow> 1
    | PBoolean x \<Rightarrow> (if x then 1 else 0)
    | PNull \<Rightarrow> 0)"

text \<open>The native byte order is that of the supported little endian targets.\<close>

definition to_ne_bytes :: "64 word \<Rightarrow> 8 word list" where
  "to_ne_bytes x = map (\<lambda>i. ucast (drop_bit (8 * i) x)) [0..<8]"

definition primitive_to_bytes :: "primitive \<Rightarrow> 8 word list" where
  "primitive_to_bytes v = (case v of
      PString x \<Rightarrow> as_bytes x
    | PNumber x \<Rightarrow> to_ne_bytes x
    | PData x \<Rightarrow> x
    | _ \<Rightarrow> [])"

fun str_join :: "string \<Rightarrow> string list \<Rightarrow> string" where
  "str_join sep [] = []"
| "str_join sep [s] = s"
| "str_join sep (s # t # ss) = s @ sep @ str_join sep (t # ss)"

fun primitive_display :: "primitive \<Rightarrow> string" where
  "primitive_display (PString x) = x"
| "primitive_display (PNumber x) = show_i64 x"
| "primitive_display (PArray x) =
     str_join '','' (map (\<lambda>(i, s). show_nat i @ '': '' @ s) (enumerate 0 (map primitive_display x)))"
| "primitive_display (PData x) = map (\<lambda>b. char_of (unat b)) x"
| "primitive_display (PDict x) = str_join '','' (map (\<lambda>(k, v). k @ '': '' @ primitive_display v) x)"
| "primitive_display (PBoolean True) = ''1''"
| "primitive_display (PBoolean False) = ''0''"
| "primitive_display PNull = [CHR 0x00]"

subsection \<open>Attack categories\<close>

datatype act = Init | Scanner | Settings | GatherInfo | Attack | MixedAttack | DestructiveAttack
  | Denial | KillHost | Flood | End

definition act_from_str :: "string \<Rightarrow> storage_error + act" where
  "act_from_str s =
     (if s = ''0'' then Inr Init else if s = ''1'' then Inr Scanner else if s = ''2'' then Inr Settings
      else if s = ''3'' then Inr GatherInfo else if s = ''4'' then Inr Attack
      else if s = ''5'' then Inr MixedAttack else if s = ''6'' then Inr DestructiveAttack
      else if s = ''7'' then Inr Denial else if s = ''8'' then Inr KillHost
      else if s = ''9'' then Inr Flood else if s = ''10'' then Inr End
      else Inl (UnexpectedData s))"

subsection \<open>Enums with a text form\<close>

text \<open>
  The macro \<^verbatim>\<open>make_str_lookup_enum\<close>: an enum given by the table of its texts and constructors, with
  \<^verbatim>\<open>from_str\<close> and \<^verbatim>\<open>as_ref\<close> generated from that table.
\<close>

definition enum_from_str :: "string \<Rightarrow> (string \<times> 'k) list \<Rightarrow> string \<Rightarrow> storage_error + 'k" where
  "enum_from_str enum_name table s = (case map_of table s of
      Some k \<Rightarrow> Inr k
    | None \<Rightarrow> Inl (UnexpectedData (enum_name @ '': '' @ s)))"

fun enum_as_ref :: "(string \<times> 'k) list \<Rightarrow> 'k \<Rightarrow> string" where
  "enum_as_ref [] k = []"
| "enum_as_ref ((matcher, key) # table) k = (if key = k then matcher else enum_as_ref table k)"

datatype tag_key = Affected | CreationDate | CvssBase | CvssBaseVector | Deprecated | Impact | Insight
  | LastModification | Qod | QodType | SeverityDate | SeverityOrigin | SeverityVector | Solution
  | SolutionMethod | SolutionType | Summary | Vuldetect

definition tag_key_table :: "(string \<times> tag_key) list" where
  "tag_key_table = [(''affected'', Affected), (''creation_date'', CreationDate), (''cvss_base'', CvssBase),
     (''cvss_base_vector'', CvssBaseVector), (''deprecated'', Deprecated), (''impact'', Impact),
     (''insight'', Insight), (''last_modification'', LastModification), (''qod'', Qod), (''qod_type'', QodType),
     (''severity_date'', SeverityDate), (''severity_origin'', SeverityOrigin),
     (''severity_vector'', SeverityVector), (''solution'', Solution), (''solution_method'', SolutionMethod),
     (''solution_type'', SolutionType), (''summary'', Summary), (''vuldetect'', Vuldetect)]"

datatype solution_type = Mitigation | NoneAvailable | VendorFix | WillNotFix | Workaround

definition solution_type_table :: "(string \<times> solution_type) list" where
  "solution_type_table = [(''Mitigation'', Mitigation), (''NoneAvailable'', NoneAvailable),
     (''VendorFix'', VendorFix), (''WillNotFix'', WillNotFix), (''Workaround'', Workaround)]"

datatype qod_type = ExecutableVersion | ExecutableVersionUnreliable | Exploit | GeneralNote | Package
  | Registry | RemoteActive | RemoteAnalysis | RemoteApp | RemoteBanner | RemoteBannerUnreliable
  | RemoteProbe | RemoteVul | PackageUnreliable | QodDefault

definition qod_type_table :: "(string \<times> qod_type) list" where
  "qod_type_table = [(''executable_version'', ExecutableVersion),
     (''executable_version_unreliable'', ExecutableVersionUnreliable), (''exploit'', Exploit),
     (''general_note'', GeneralNote), (''package'', Package), (''registry'', Registry),
     (''remote_active'', RemoteActive), (''remote_analysis'', RemoteAnalysis), (''remote_app'', RemoteApp),
     (''remote_banner'', RemoteBanner), (''remote_banner_unreliable'', RemoteBannerUnreliable),
     (''remote_probe'', RemoteProbe), (''remote_vul'', RemoteVul),
     (''package_unreliable'', PackageUnreliable), (''default'', QodDefault)]"

definition qod_type_to_i64 :: "qod_type \<Rightarrow> 64 word" where
  "qod_type_to_i64 v = (case v of
      Exploit \<Rightarrow> 100 | RemoteVul \<Rightarrow> 99 | RemoteApp \<Rightarrow> 98 | Package \<Rightarrow> 97 | Registry \<Rightarrow> 97
    | RemoteActive \<Rightarrow> 95 | RemoteBanner \<Rightarrow> 80 | ExecutableVersion \<Rightarrow> 80 | RemoteAnalysis \<Rightarrow> 70
    | RemoteProbe \<Rightarrow> 50 | PackageUnreliable \<Rightarrow> 30 | RemoteBannerUnreliable \<Rightarrow> 30
    | ExecutableVersionUnreliable \<Rightarrow> 30 | GeneralNote \<Rightarrow> 1 | QodDefault \<Rightarrow> 70)"

datatype preference_type = CheckBox | Entry | File | Password | Radio | SshLogin | Integer

definition preference_type_table :: "(string \<times> preference_type) list" where
  "preference_type_table = [(''checkbox'', CheckBox), (''entry'', Entry), (''file'', File),
     (''password'', Password), (''radio'', Radio), (''sshlogin'', SshLogin), (''integer'', Integer)]"

text \<open>What the macro promises for a table: the texts and the constructors are distinct, and every constructor is listed.\<close>

locale str_lookup_enum =
  fixes enum_name :: string and table :: "(string \<times> 'k) list"
  assumes texts_distinct: "distinct (map fst table)"
    and keys_distinct: "distinct (map snd table)"
    and complete: "k \<in> snd ` set table"
begin

lemma as_ref_in_table: "(enum_as_ref table k, k) \<in> set table"
proof -
  have "k \<in> snd ` set t \<Longrightarrow> (enum_as_ref t k, k) \<in> set t" for t :: "(string \<times> 'k) list"
  proof (induction t)
    case (Cons x t)
    then show ?case by (cases x; cases "snd x = k") simp_all
  qed simp
  then show ?thesis using complete by blast
qed

lemma from_str_as_ref: "enum_from_str enum_name table (enum_as_ref table k) = Inr k"
  using map_of_is_SomeI [OF texts_distinct as_ref_in_table, of k] by (simp add: enum_from_str_def)

lemma from_str_iff: "enum_from_str enum_name table s = Inr k \<longleftrightarrow> s = enum_as_ref table k"
proof
  assume "enum_from_str enum_name table s = Inr k"
  then have "(s, k) \<in> set table" by (auto simp: enum_from_str_def dest: map_of_SomeD split: option.splits)
  then show "s = enum_as_ref table k"
    using as_ref_in_table [of k] keys_distinct by (metis eq_key_imp_eq_value map_of_eq_Some_iff
        distinct_map fst_conv inj_onD snd_conv)
qed (simp add: from_str_as_ref)

lemma as_ref_inject: "enum_as_ref table k = enum_as_ref table l \<longleftrightarrow> k = l"
  by (metis from_str_as_ref sum.inject(2))

end

interpretation tag_key: str_lookup_enum "''TagKey''" tag_key_table
proof
  show "k \<in> snd ` set tag_key_table" for k by (cases k) (simp_all add: tag_key_table_def)
qed (simp_all add: tag_key_table_def)

interpretation solution_type: str_lookup_enum "''SolutionType''" solution_type_table
proof
  show "k \<in> snd ` set solution_type_table" for k by (cases k) (simp_all add: solution_type_table_def)
qed (simp_all add: solution_type_table_def)

interpretation qod_type: str_lookup_enum "''QodType''" qod_type_table
proof
  show "k \<in> snd ` set qod_type_table" for k by (cases k) (simp_all add: qod_type_table_def)
qed (simp_all add: qod_type_table_def)

interpretation preference_type: str_lookup_enum "''PreferenceType''" preference_type_table
proof
  show "k \<in> snd ` set preference_type_table" for k by (cases k) (simp_all add: preference_type_table_def)
qed (simp_all add: preference_type_table_def)

text \<open>The derived order of the tag keys is the order of their declaration.\<close>

fun tag_key_index :: "tag_key \<Rightarrow> nat" where
  "tag_key_index Affected = 0"
| "tag_key_index CreationDate = 1"
| "tag_key_index CvssBase = 2"
| "tag_key_index CvssBaseVector = 3"
| "tag_key_index Deprecated = 4"
| "tag_key_index Impact = 5"
| "tag_key_index Insight = 6"
| "tag_key_index LastModification = 7"
| "tag_key_index Qod = 8"
| "tag_key_index QodType = 9"
| "tag_key_index SeverityDate = 10"
| "tag_key_index SeverityOrigin = 11"
| "tag_key_index SeverityVector = 12"
| "tag_key_index Solution = 13"
| "tag_key_index SolutionMethod = 14"
| "tag_key_index SolutionType = 15"
| "tag_key_index Summary = 16"
| "tag_key_index Vuldetect = 17"

lemma tag_key_table_index: "map snd tag_key_table ! tag_key_index k = k"
  by (cases k) (simp_all add: tag_key_table_def)

lemma tag_key_index_inject: "tag_key_index k = tag_key_index l \<longleftrightarrow> k = l"
  by (metis tag_key_table_index)

instantiation tag_key :: linorder
begin

definition less_eq_tag_key :: "tag_key \<Rightarrow> tag_key \<Rightarrow> bool" where
  "less_eq_tag_key k l \<longleftrightarrow> tag_key_index k \<le> tag_key_index l"

definition less_tag_key :: "tag_key \<Rightarrow> tag_key \<Rightarrow> bool" where
  "less_tag_key k l \<longleftrightarrow> tag_key_index k < tag_key_index l"

instance
  by standard (auto simp: less_eq_tag_key_def less_tag_key_def tag_key_index_inject)

end

text \<open>\<^verbatim>\<open>{:?}\<close> prints the name of the constructor.\<close>

definition tag_key_debug :: "tag_key \<Rightarrow> string" where
  "tag_key_debug k = [''Affected'', ''CreationDate'', ''CvssBase'', ''CvssBaseVector'', ''Deprecated'', ''Impact'',
     ''Insight'', ''LastModification'', ''Qod'', ''QodType'', ''SeverityDate'', ''SeverityOrigin'',
     ''SeverityVector'', ''Solution'', ''SolutionMethod'', ''SolutionType'', ''Summary'', ''Vuldetect'']
     ! tag_key_index k"

subsection \<open>Dates and tag values\<close>

definition supported_formats :: "string list" where
  "supported_formats =
     [''[year]-[month]-[day] [hour]:[minute]:[second] [offset_hour][offset_minute]'',
      ''[weekday repr:short] [month repr:short] [day] [hour]:[minute]:[second] [year] [offset_hour][offset_minute]'',
      ''[weekday repr:short], [day] [month repr:short] [year] [hour]:[minute]:[second] [offset_hour][offset_minute]'']"

text \<open>\<^verbatim>\<open>splitn(2, p)\<close>: at the first occurrence of the pattern, if there is one.\<close>

definition splitn2 :: "string \<Rightarrow> string \<Rightarrow> string list" where
  "splitn2 p s = (case str_find p s of
      None \<Rightarrow> [s]
    | Some i \<Rightarrow> [take i s, drop (i + length p) s])"

text \<open>
  The argument is \<^verbatim>\<open>OffsetDateTime::parse\<close> with a format description, followed by
  \<^verbatim>\<open>unix_timestamp\<close>: the seconds for a text that has the format.
\<close>

definition as_timestamp :: "(string \<Rightarrow> string \<Rightarrow> 64 word option) \<Rightarrow> string \<Rightarrow> 64 word option" where
  "as_timestamp parse_format s =
     (let to_parse = (case find (\<lambda>x. x \<noteq> []) (splitn2 '' ('' s) of Some x \<Rightarrow> x | None \<Rightarrow> [])
      in case List.map_filter (\<lambda>f. parse_format f to_parse) supported_formats of
        [] \<Rightarrow> None
      | t # _ \<Rightarrow> Some t)"

definition tag_value_parse :: "(string \<Rightarrow> string \<Rightarrow> 64 word option) \<Rightarrow> tag_key \<Rightarrow> string \<Rightarrow> storage_error + primitive" where
  "tag_value_parse parse_format key val =
     (let error = UnexpectedData (tag_key_debug key @ '' => '' @ val)
      in case key of
        CreationDate \<Rightarrow> (case as_timestamp parse_format val of None \<Rightarrow> Inl error | Some t \<Rightarrow> Inr (PNumber t))
      | LastModification \<Rightarrow> (case as_timestamp parse_format val of None \<Rightarrow> Inl error | Some t \<Rightarrow> Inr (PNumber t))
      | SeverityDate \<Rightarrow> (case as_timestamp parse_format val of None \<Rightarrow> Inl error | Some t \<Rightarrow> Inr (PNumber t))
      | CvssBase \<Rightarrow> Inr PNull
      | Deprecated \<Rightarrow>
          (if val \<in> {''TRUE'', ''true'', ''1''} then Inr (PBoolean True)
           else if val \<in> {''FALSE'', ''false'', ''0''} then Inr (PBoolean False)
           else Inl error)
      | SolutionType \<Rightarrow> map_sum id (\<lambda>x. PString (enum_as_ref solution_type_table x))
          (enum_from_str ''SolutionType'' solution_type_table val)
      | QodType \<Rightarrow> map_sum id (\<lambda>x. PString (enum_as_ref qod_type_table x))
          (enum_from_str ''QodType'' qod_type_table val)
      | Qod \<Rightarrow> (case parse_i64 val of None \<Rightarrow> Inl error | Some n \<Rightarrow> Inr (PNumber n))
      | _ \<Rightarrow> Inr (PString val))"

subsection \<open>Keys, knowledge base items and results\<close>

datatype context_key = Scan string "string option" | CtxFileName string

definition context_key_as_ref :: "context_key \<Rightarrow> string" where
  "context_key_as_ref key = (case key of Scan x _ \<Rightarrow> x | CtxFileName x \<Rightarrow> x)"

definition context_key_default :: context_key where
  "context_key_default = CtxFileName []"

definition context_key_display :: "context_key \<Rightarrow> string" where
  "context_key_display key = (case key of
      Scan scan None \<Rightarrow> ''scan_id='' @ scan
    | Scan scan (Some target) \<Rightarrow> ''scan_id='' @ scan @ '' target='' @ target
    | CtxFileName name \<Rightarrow> ''file='' @ name)"

record kb =
  kb_key :: string
  kb_value :: primitive
  kb_expire :: "64 word option"

definition kb_from :: "string \<times> primitive \<Rightarrow> kb" where
  "kb_from = (\<lambda>(key, val). \<lparr>kb_key = key, kb_value = val, kb_expire = None\<rparr>)"

datatype protocol = UDP | TCP

datatype result_type = Alarm | Log | Error | HostStart | HostEnd | DeadHost | HostDetail

record detail_source =
  source_type :: string
  source_name :: string
  source_description :: string

record detail =
  detail_name :: string
  detail_value :: string
  detail_src :: detail_source

record scan_result =
  result_id :: nat
  result_r_type :: result_type
  result_ip_address :: "string option"
  result_hostname :: "string option"
  result_oid :: "string option"
  result_port :: "16 word option"
  result_protocol :: "protocol option"
  result_message :: "string option"
  result_detail :: "detail option"

definition result_from :: "nat \<times> scan_result \<Rightarrow> scan_result" where
  "result_from = (\<lambda>(i, r). r\<lparr>result_id := i\<rparr>)"

subsection \<open>Texts and values\<close>

text \<open>
  \<^verbatim>\<open>from_str\<close> of the four enums accepts exactly the text that \<^verbatim>\<open>as_ref\<close> gives for a constructor
  and returns that constructor, so the two are inverse to each other.
\<close>

theorem enum_texts_round_trip:
  "(enum_from_str ''TagKey'' tag_key_table s = Inr tag \<longleftrightarrow> s = enum_as_ref tag_key_table tag) \<and>
   (enum_from_str ''SolutionType'' solution_type_table s = Inr sol \<longleftrightarrow> s = enum_as_ref solution_type_table sol) \<and>
   (enum_from_str ''QodType'' qod_type_table s = Inr qod \<longleftrightarrow> s = enum_as_ref qod_type_table qod) \<and>
   (enum_from_str ''PreferenceType'' preference_type_table s = Inr pref \<longleftrightarrow> s = enum_as_ref preference_type_table pref)"
  by (simp add: tag_key.from_str_iff solution_type.from_str_iff qod_type.from_str_iff preference_type.from_str_iff)

lemma enum_value_accepted:
  assumes "\<And>k. enum_from_str n t v = Inr k \<longleftrightarrow> v = enum_as_ref t k"
  shows "map_sum id (\<lambda>k. PString (enum_as_ref t k)) (enum_from_str n t v) = Inr x \<longleftrightarrow>
     v \<in> range (enum_as_ref t) \<and> x = PString v"
proof (cases "enum_from_str n t v")
  case (Inl e)
  then have "v \<noteq> enum_as_ref t k" for k using assms [of k] by auto
  with Inl show ?thesis by auto
next
  case (Inr k)
  with assms [of k] show ?thesis by auto
qed

text \<open>
  \<^verbatim>\<open>TagValue::parse\<close> keeps a solution type or a quality of detection type exactly when it is one of
  the defined texts, and then unchanged; a printed number is read back as that number; and every
  key without a rule of its own keeps its text.
\<close>

theorem tag_value_parse_accepts:
  "(tag_value_parse f SolutionType v = Inr x \<longleftrightarrow> v \<in> range (enum_as_ref solution_type_table) \<and> x = PString v) \<and>
   (tag_value_parse f QodType v = Inr x \<longleftrightarrow> v \<in> range (enum_as_ref qod_type_table) \<and> x = PString v) \<and>
   tag_value_parse f Qod (primitive_display (PNumber n)) = Inr (PNumber n) \<and>
   (\<forall>k. k \<in> {Affected, CvssBaseVector, Impact, Insight, SeverityOrigin, SeverityVector, Solution,
        SolutionMethod, Summary, Vuldetect} \<longleftrightarrow> (\<forall>f v. tag_value_parse f k v = Inr (PString v)))"
proof -
  have keys: "k \<in> {Affected, CvssBaseVector, Impact, Insight, SeverityOrigin, SeverityVector, Solution,
        SolutionMethod, Summary, Vuldetect} \<longleftrightarrow> (\<forall>f v. tag_value_parse f k v = Inr (PString v))" for k
  proof (cases "k \<in> {CreationDate, LastModification, SeverityDate, CvssBase, Deprecated, SolutionType, QodType, Qod}")
    case True
    have "tag_value_parse (\<lambda>_ _. None) k [] \<noteq> Inr (PString [])"
      using True by (auto simp: tag_value_parse_def Let_def enum_from_str_def solution_type_table_def
          qod_type_table_def parse_i64_def as_timestamp_def supported_formats_def map_filter_def)
    with True show ?thesis by auto
  next
    case False
    then show ?thesis by (cases k) (auto simp: tag_value_parse_def)
  qed
  have "tag_value_parse f SolutionType v = Inr x \<longleftrightarrow> v \<in> range (enum_as_ref solution_type_table) \<and> x = PString v"
    using enum_value_accepted [OF solution_type.from_str_iff, of v x] by (simp add: tag_value_parse_def)
  moreover have "tag_value_parse f QodType v = Inr x \<longleftrightarrow> v \<in> range (enum_as_ref qod_type_table) \<and> x = PString v"
    using enum_value_accepted [OF qod_type.from_str_iff, of v x] by (simp add: tag_value_parse_def)
  ultimately show ?thesis using keys by (simp add: tag_value_parse_def parse_show_i64)
qed

lemma str_find_comment: "str_find '' ('' w = None \<Longrightarrow> str_find '' ('' (w @ '' ('' @ c) = Some (length w)"
proof (induction w)
  case (Cons x w)
  then have IH: "str_find '' ('' (w @ '' ('' @ c) = Some (length w)" by (auto split: if_splits)
  have "take 2 (x # w @ '' ('' @ c) \<noteq> '' (''"
    using Cons.prems by (cases w) (auto split: if_splits)
  with IH show ?case by simp
qed simp

text \<open>
  A comment in parentheses after a date is ignored: the time stamp is the one of the text
  before it.
\<close>

theorem as_timestamp_ignores_comment:
  assumes "w \<noteq> []" and "str_find '' ('' w = None"
  shows "as_timestamp f (w @ '' ('' @ c) = as_timestamp f w"
proof -
  have "splitn2 '' ('' (w @ '' ('' @ c) = [w, c]" using str_find_comment [OF assms(2), of c] by (simp add: splitn2_def)
  moreover have "splitn2 '' ('' w = [w]" using assms(2) by (simp add: splitn2_def)
  ultimately show ?thesis using assms(1) by (simp only: as_timestamp_def) simp
qed

theorem as_timestamp_ignores_comment_witness:
  "as_timestamp (\<lambda>f s. if s = ''2018-09-07 11:08:31 +0200'' then Some 1536311311 else None)
     ''2018-09-07 11:08:31 +0200 (Fri, 07 Sep 2018)'' = Some 1536311311"
  using as_timestamp_ignores_comment [of "''2018-09-07 11:08:31 +0200''"
      "\<lambda>f s. if s = ''2018-09-07 11:08:31 +0200'' then Some 1536311311 else None" "''Fri, 07 Sep 2018)''"]
  by (simp add: as_timestamp_def splitn2_def supported_formats_def map_filter_def)

end
