(* ===== verification/Nvt.thy ===== *)
theory Nvt
  imports Storage_Types
begin

section \<open>NVT metadata\<close>

text \<open>
  \<^verbatim>\<open>rust/src/storage/item.rs\<close>: the metadata of a NASL plugin, its fields, and how an NVT is built
  from fields, matched against fields, cut into fields, and made from a notus advisory; the commands
  of \<^verbatim>\<open>rust/src/storage/retrieve.rs\<close>; and the dispatcher that collects the fields of one
  description run and hands over the complete NVT when the script exits.
\<close>

subsection \<open>Data\<close>

record nvt_preference =
  pref_id :: "32 word option"
  pref_type :: preference_type
  pref_name :: string
  pref_default :: string

record nvt_ref =
  ref_class :: string
  ref_id :: string

definition nvt_ref_from :: "string \<times> string \<Rightarrow> nvt_ref" where
  "nvt_ref_from = (\<lambda>(c, i). \<lparr>ref_class = c, ref_id = i\<rparr>)"

record nvt =
  nvt_oid :: string
  nvt_name :: string
  nvt_filename :: string
  nvt_tag :: "(tag_key, primitive) btreemap"
  nvt_dependencies :: "string list"
  nvt_required_keys :: "string list"
  nvt_mandatory_keys :: "string list"
  nvt_excluded_keys :: "string list"
  nvt_required_ports :: "string list"
  nvt_required_udp_ports :: "string list"
  nvt_references :: "nvt_ref list"
  nvt_preferences :: "nvt_preference list"
  nvt_category :: act
  nvt_family :: string

definition nvt_default :: nvt where
  "nvt_default = \<lparr>nvt_oid = [], nvt_name = [], nvt_filename = [], nvt_tag = [], nvt_dependencies = [],
     nvt_required_keys = [], nvt_mandatory_keys = [], nvt_excluded_keys = [], nvt_required_ports = [],
     nvt_required_udp_ports = [], nvt_references = [], nvt_preferences = [], nvt_category = End,
     nvt_family = []\<rparr>"

definition nvt_display :: "nvt \<Rightarrow> string" where
  "nvt_display n = ''VT '' @ nvt_oid n @ '' ('' @ nvt_filename n @ '')''"

datatype nvt_field =
    is_Oid: Oid string
  | is_FileName: FileName string
  | is_Version: Version string
  | is_Name: Name string
  | is_Tag: Tag tag_key primitive
  | is_Dependencies: Dependencies "string list"
  | is_RequiredKeys: RequiredKeys "string list"
  | is_MandatoryKeys: MandatoryKeys "string list"
  | is_ExcludedKeys: ExcludedKeys "string list"
  | is_RequiredPorts: RequiredPorts "string list"
  | is_RequiredUdpPorts: RequiredUdpPorts "string list"
  | is_Preference: Preference nvt_preference
  | is_Reference: Reference "nvt_ref list"
  | is_Category: Category act
  | is_Family: Family string
  | is_Nvt: Nvt nvt
  | NoOp

datatype nvt_key =
    KeyOid | KeyFileName | KeyVersion | KeyName | KeyTag | KeyDependencies | KeyRequiredKeys
  | KeyMandatoryKeys | KeyExcludedKeys | KeyRequiredPorts | KeyRequiredUdpPorts | KeyPreference
  | KeyReference | KeyCategory | KeyFamily | KeyNvt | KeyNoOp

subsection \<open>Notus advisories\<close>

record severity =
  sev_origin :: string
  sev_date :: "64 word"
  sev_cvss_v2 :: "string option"
  sev_cvss_v3 :: "string option"

record advisories =
  adv_title :: string
  adv_oid :: string
  adv_creation_date :: "64 word"
  adv_last_modification :: "64 word"
  adv_advisory_id :: string
  adv_advisory_xref :: string
  adv_cves :: "string list"
  adv_summary :: string
  adv_insight :: string
  adv_affected :: string
  adv_xrefs :: "string list"
  adv_qod_type :: string
  adv_severity :: severity

record vulnerability_data =
  vd_adv :: advisories
  vd_family :: string
  vd_filename :: string

record vulnerability =
  vul_vt_params :: "string list"
  vul_creation_date :: "64 word"
  vul_last_modification :: "64 word"
  vul_summary :: string
  vul_impact :: string
  vul_affected :: string
  vul_insight :: string
  vul_solution :: string
  vul_solution_type :: string
  vul_vuldetect :: string
  vul_qod_type :: string
  vul_severity_vector :: string
  vul_filename :: string
  vul_refs :: "(string, string list) hashmap"
  vul_family :: string
  vul_name :: string
  vul_category :: string

definition vulnerability_from :: "vulnerability_data \<Rightarrow> vulnerability" where
  "vulnerability_from data =
     (let adv = vd_adv data;
          sv = (case sev_cvss_v2 (adv_severity adv) of
              Some cvss \<Rightarrow> cvss
            | None \<Rightarrow> (case sev_cvss_v3 (adv_severity adv) of Some cvss \<Rightarrow> cvss | None \<Rightarrow> []))
      in \<lparr>vul_vt_params = [], vul_creation_date = adv_creation_date adv,
          vul_last_modification = adv_last_modification adv, vul_summary = adv_summary adv, vul_impact = [],
          vul_affected = adv_affected adv, vul_insight = adv_insight adv,
          vul_solution = ''Please install the updated package(s).'', vul_solution_type = ''VendorFix'',
          vul_vuldetect = ''Checks if a vulnerable package version is present on the target host.'',
          vul_qod_type = adv_qod_type adv, vul_severity_vector = sv, vul_filename = vd_filename data,
          vul_refs = [], vul_family = vd_family data, vul_name = adv_title adv, vul_category = ''3''\<rparr>)"

definition tag_if :: "tag_key \<Rightarrow> string \<Rightarrow> (tag_key, primitive) btreemap \<Rightarrow> (tag_key, primitive) btreemap" where
  "tag_if key text tags = (if text \<noteq> [] then bt_insert key (PString text) tags else tags)"

definition date_if :: "tag_key \<Rightarrow> 64 word \<Rightarrow> (tag_key, primitive) btreemap \<Rightarrow> (tag_key, primitive) btreemap" where
  "date_if key date tags = (if date \<noteq> 0 then bt_insert key (PNumber date) tags else tags)"

definition tag_to_vec :: "vulnerability \<Rightarrow> (tag_key, primitive) btreemap" where
  "tag_to_vec v =
     (date_if LastModification (vul_last_modification v) \<circ> date_if CreationDate (vul_creation_date v) \<circ>
      tag_if SeverityVector (vul_severity_vector v) \<circ> tag_if QodType (vul_qod_type v) \<circ>
      tag_if Vuldetect (vul_vuldetect v) \<circ> tag_if SolutionType (vul_solution_type v) \<circ>
      tag_if Solution (vul_solution v) \<circ> tag_if Insight (vul_insight v) \<circ> tag_if Impact (vul_impact v) \<circ>
      tag_if Summary (vul_summary v) \<circ> tag_if Affected (vul_affected v)) []"

type_synonym refs_iter = "(string \<times> string list) list \<Rightarrow> (string \<times> string list) list"

definition get_refs :: "refs_iter \<Rightarrow> (string, string list) hashmap \<Rightarrow> nvt_ref list" where
  "get_refs it references =
     concat (map (\<lambda>(reftype, vals). map (\<lambda>r. nvt_ref_from (reftype, r)) vals) (it references))"

definition nvt_from_vulnerability :: "refs_iter \<Rightarrow> string \<Rightarrow> vulnerability \<Rightarrow> nvt" where
  "nvt_from_vulnerability it oid adv = \<lparr>nvt_oid = oid, nvt_name = vul_name adv, nvt_filename = vul_filename adv,
     nvt_tag = tag_to_vec adv, nvt_dependencies = [], nvt_required_keys = [], nvt_mandatory_keys = [],
     nvt_excluded_keys = [], nvt_required_ports = [], nvt_required_udp_ports = [],
     nvt_references = get_refs it (vul_refs adv), nvt_preferences = [], nvt_category = GatherInfo,
     nvt_family = vul_family adv\<rparr>"

definition nvt_from_data :: "refs_iter \<Rightarrow> vulnerability_data \<Rightarrow> nvt" where
  "nvt_from_data it data = nvt_from_vulnerability it (adv_oid (vd_adv data)) (vulnerability_from data)"

subsection \<open>Fields\<close>

datatype field =
    NVT nvt_field
  | KB kb
  | ResultField scan_result
  | NotusAdvisory "vulnerability_data option"

text \<open>\<^verbatim>\<open>set_from_field\<close> returns the feed version as its error.\<close>

definition set_from_field :: "nvt_field \<Rightarrow> nvt \<Rightarrow> nvt \<times> (string + unit)" where
  "set_from_field f n = (case f of
      Oid s \<Rightarrow> (n\<lparr>nvt_oid := s\<rparr>, Inr ())
    | FileName s \<Rightarrow> (n\<lparr>nvt_filename := s\<rparr>, Inr ())
    | Version s \<Rightarrow> (n, Inl s)
    | Name s \<Rightarrow> (n\<lparr>nvt_name := s\<rparr>, Inr ())
    | Tag key val \<Rightarrow> (n\<lparr>nvt_tag := bt_insert key val (nvt_tag n)\<rparr>, Inr ())
    | Dependencies s \<Rightarrow> (n\<lparr>nvt_dependencies := nvt_dependencies n @ s\<rparr>, Inr ())
    | RequiredKeys s \<Rightarrow> (n\<lparr>nvt_required_keys := nvt_required_keys n @ s\<rparr>, Inr ())
    | MandatoryKeys s \<Rightarrow> (n\<lparr>nvt_mandatory_keys := nvt_mandatory_keys n @ s\<rparr>, Inr ())
    | ExcludedKeys s \<Rightarrow> (n\<lparr>nvt_excluded_keys := nvt_excluded_keys n @ s\<rparr>, Inr ())
    | RequiredPorts s \<Rightarrow> (n\<lparr>nvt_required_ports := nvt_required_ports n @ s\<rparr>, Inr ())
    | RequiredUdpPorts s \<Rightarrow> (n\<lparr>nvt_required_udp_ports := nvt_required_udp_ports n @ s\<rparr>, Inr ())
    | Preference s \<Rightarrow> (n\<lparr>nvt_preferences := nvt_preferences n @ [s]\<rparr>, Inr ())
    | Reference s \<Rightarrow> (n\<lparr>nvt_references := nvt_references n @ s\<rparr>, Inr ())
    | Category s \<Rightarrow> (n\<lparr>nvt_category := s\<rparr>, Inr ())
    | Family s \<Rightarrow> (n\<lparr>nvt_family := s\<rparr>, Inr ())
    | NoOp \<Rightarrow> (n, Inr ())
    | Nvt x \<Rightarrow> (x, Inr ()))"

definition matches_field :: "nvt \<Rightarrow> field \<Rightarrow> bool" where
  "matches_field n f = (case f of
      NVT nf \<Rightarrow>
        (case nf of
           Oid x \<Rightarrow> nvt_oid n = x
         | FileName x \<Rightarrow> nvt_filename n = x
         | Name x \<Rightarrow> nvt_name n = x
         | Tag a _ \<Rightarrow> map_of (nvt_tag n) a \<noteq> None
         | Dependencies x \<Rightarrow> nvt_dependencies n = x
         | RequiredKeys x \<Rightarrow> nvt_required_keys n = x
         | MandatoryKeys x \<Rightarrow> nvt_mandatory_keys n = x
         | ExcludedKeys x \<Rightarrow> nvt_excluded_keys n = x
         | RequiredPorts x \<Rightarrow> nvt_required_ports n = x
         | RequiredUdpPorts x \<Rightarrow> nvt_required_udp_ports n = x
         | Preference x \<Rightarrow> x \<in> set (nvt_preferences n)
         | Reference x \<Rightarrow> nvt_references n = x
         | Category x \<Rightarrow> nvt_category n = x
         | Family x \<Rightarrow> nvt_family n = x
         | Nvt x \<Rightarrow> n = x
         | NoOp \<Rightarrow> False
         | Version _ \<Rightarrow> False)
    | KB _ \<Rightarrow> False
    | NotusAdvisory _ \<Rightarrow> False
    | ResultField _ \<Rightarrow> False)"

definition matches_any_field :: "nvt \<Rightarrow> field list \<Rightarrow> bool" where
  "matches_any_field n fs = list_ex (matches_field n) fs"

definition unless_empty :: "'a list \<Rightarrow> nvt_field \<Rightarrow> nvt_field list" where
  "unless_empty xs f = (if xs = [] then [] else [f])"

text \<open>The tags of an NVT that has some are not implemented: \<^verbatim>\<open>todo!\<close> panics.\<close>

definition key_as_field :: "nvt_key \<Rightarrow> nvt \<Rightarrow> nvt_field list exec" where
  "key_as_field k n = (case k of
      KeyOid \<Rightarrow> Ret (unless_empty (nvt_oid n) (Oid (nvt_oid n)))
    | KeyFileName \<Rightarrow> Ret (unless_empty (nvt_filename n) (FileName (nvt_filename n)))
    | KeyVersion \<Rightarrow> Ret []
    | KeyName \<Rightarrow> Ret (unless_empty (nvt_name n) (Name (nvt_name n)))
    | KeyTag \<Rightarrow> (if nvt_tag n = [] then Ret [] else Panic)
    | KeyDependencies \<Rightarrow> Ret (unless_empty (nvt_dependencies n) (Dependencies (nvt_dependencies n)))
    | KeyRequiredKeys \<Rightarrow> Ret (unless_empty (nvt_required_keys n) (RequiredKeys (nvt_required_keys n)))
    | KeyMandatoryKeys \<Rightarrow> Ret (unless_empty (nvt_mandatory_keys n) (MandatoryKeys (nvt_mandatory_keys n)))
    | KeyExcludedKeys \<Rightarrow> Ret (unless_empty (nvt_excluded_keys n) (ExcludedKeys (nvt_excluded_keys n)))
    | KeyRequiredPorts \<Rightarrow> Ret (unless_empty (nvt_required_ports n) (RequiredPorts (nvt_required_ports n)))
    | KeyRequiredUdpPorts \<Rightarrow> Ret (unless_empty (nvt_required_udp_ports n) (RequiredUdpPorts (nvt_required_udp_ports n)))
    | KeyPreference \<Rightarrow> Ret (map Preference (nvt_preferences n))
    | KeyReference \<Rightarrow> Ret (unless_empty (nvt_references n) (Reference (nvt_references n)))
    | KeyCategory \<Rightarrow> Ret [Category (nvt_category n)]
    | KeyFamily \<Rightarrow> Ret (unless_empty (nvt_family n) (Family (nvt_family n)))
    | KeyNvt \<Rightarrow> Ret [Nvt n]
    | KeyNoOp \<Rightarrow> Ret [])"

definition nvt_from_field :: "nvt_field \<Rightarrow> nvt" where
  "nvt_from_field f = (case f of
      Oid oid \<Rightarrow> nvt_default\<lparr>nvt_oid := oid\<rparr>
    | FileName filename \<Rightarrow> nvt_default\<lparr>nvt_filename := filename\<rparr>
    | Version _ \<Rightarrow> nvt_default
    | Name name \<Rightarrow> nvt_default\<lparr>nvt_name := name\<rparr>
    | Tag key val \<Rightarrow> nvt_default\<lparr>nvt_tag := bt_insert key val []\<rparr>
    | Dependencies s \<Rightarrow> nvt_default\<lparr>nvt_dependencies := s\<rparr>
    | RequiredKeys s \<Rightarrow> nvt_default\<lparr>nvt_required_keys := s\<rparr>
    | MandatoryKeys s \<Rightarrow> nvt_default\<lparr>nvt_mandatory_keys := s\<rparr>
    | ExcludedKeys s \<Rightarrow> nvt_default\<lparr>nvt_excluded_keys := s\<rparr>
    | RequiredPorts s \<Rightarrow> nvt_default\<lparr>nvt_required_ports := s\<rparr>
    | RequiredUdpPorts s \<Rightarrow> nvt_default\<lparr>nvt_required_udp_ports := s\<rparr>
    | Preference p \<Rightarrow> nvt_default\<lparr>nvt_preferences := [p]\<rparr>
    | Reference r \<Rightarrow> nvt_default\<lparr>nvt_references := r\<rparr>
    | Category c \<Rightarrow> nvt_default\<lparr>nvt_category := c\<rparr>
    | Family s \<Rightarrow> nvt_default\<lparr>nvt_family := s\<rparr>
    | Nvt n \<Rightarrow> n
    | NoOp \<Rightarrow> nvt_default)"

text \<open>The error prints the field with \<^verbatim>\<open>{:?}\<close>, which is an argument.\<close>

definition nvt_try_from :: "(field \<Rightarrow> string) \<Rightarrow> field \<Rightarrow> storage_error + nvt" where
  "nvt_try_from debug f = (case f of
      NVT x \<Rightarrow> Inr (nvt_from_field x)
    | _ \<Rightarrow> Inl (UnexpectedData (debug f @ '' is not a NVT'')))"

subsection \<open>Retrieve commands\<close>

datatype retrieve =
    RetrieveNVT "nvt_key option"
  | RetrieveKB string
  | RetrieveNotusAdvisory "string option"
  | RetrieveResult "nat option"

definition retrieve_scope :: "retrieve \<Rightarrow> string" where
  "retrieve_scope r = (case r of
      RetrieveNVT _ \<Rightarrow> ''nvt''
    | RetrieveKB _ \<Rightarrow> ''kb''
    | RetrieveNotusAdvisory _ \<Rightarrow> ''notus''
    | RetrieveResult _ \<Rightarrow> ''result'')"

definition nvt_field_for :: "nvt_key \<Rightarrow> nvt_field \<Rightarrow> bool" where
  "nvt_field_for k f = (case k of
      KeyOid \<Rightarrow> is_Oid f
    | KeyFileName \<Rightarrow> is_FileName f
    | KeyVersion \<Rightarrow> is_Version f
    | KeyName \<Rightarrow> is_Name f
    | KeyTag \<Rightarrow> is_Tag f
    | KeyDependencies \<Rightarrow> is_Dependencies f
    | KeyRequiredKeys \<Rightarrow> is_RequiredKeys f
    | KeyMandatoryKeys \<Rightarrow> is_MandatoryKeys f
    | KeyExcludedKeys \<Rightarrow> is_ExcludedKeys f
    | KeyRequiredPorts \<Rightarrow> is_RequiredPorts f
    | KeyRequiredUdpPorts \<Rightarrow> is_RequiredUdpPorts f
    | KeyPreference \<Rightarrow> is_Preference f
    | KeyReference \<Rightarrow> is_Reference f
    | KeyCategory \<Rightarrow> is_Category f
    | KeyFamily \<Rightarrow> is_Family f
    | KeyNoOp \<Rightarrow> f = NoOp
    | KeyNvt \<Rightarrow> is_Nvt f)"

definition for_field :: "retrieve \<Rightarrow> field \<Rightarrow> bool" where
  "for_field r f = (case r of
      RetrieveNVT None \<Rightarrow> (case f of NVT _ \<Rightarrow> True | _ \<Rightarrow> False)
    | RetrieveNVT (Some k) \<Rightarrow> (case f of NVT nf \<Rightarrow> nvt_field_for k nf | _ \<Rightarrow> False)
    | RetrieveKB s \<Rightarrow> (case f of KB kb \<Rightarrow> kb_key kb = s | _ \<Rightarrow> False)
    | RetrieveNotusAdvisory _ \<Rightarrow> (case f of NotusAdvisory _ \<Rightarrow> True | _ \<Rightarrow> False)
    | RetrieveResult None \<Rightarrow> (case f of ResultField _ \<Rightarrow> True | _ \<Rightarrow> False)
    | RetrieveResult (Some i) \<Rightarrow> (case f of ResultField r \<Rightarrow> result_id r = i | _ \<Rightarrow> False))"

subsection \<open>Collecting the fields of one description run\<close>

text \<open>The trait \<^verbatim>\<open>ItemDispatcher\<close> over a state of the implementation.\<close>

record 's item_dispatcher =
  item_dispatch_nvt :: "nvt \<Rightarrow> 's \<Rightarrow> 's \<times> (storage_error + unit)"
  item_dispatch_feed_version :: "string \<Rightarrow> 's \<Rightarrow> 's \<times> (storage_error + unit)"
  item_dispatch_kb :: "context_key \<Rightarrow> kb \<Rightarrow> 's \<Rightarrow> 's \<times> (storage_error + unit)"
  item_dispatch_advisory :: "string \<Rightarrow> vulnerability_data option \<Rightarrow> 's \<Rightarrow> 's \<times> (storage_error + unit)"

record 's per_item_dispatcher =
  per_item_nvt :: "nvt option"
  per_item_inner :: 's

definition per_item_new :: "'s \<Rightarrow> 's per_item_dispatcher" where
  "per_item_new s = \<lparr>per_item_nvt = None, per_item_inner = s\<rparr>"

text \<open>A call of the inner dispatcher.\<close>

definition per_item_call :: "('s \<Rightarrow> 's \<times> (storage_error + unit)) \<Rightarrow> 's per_item_dispatcher \<Rightarrow>
    's per_item_dispatcher \<times> (storage_error + unit)" where
  "per_item_call f st = (case f (per_item_inner st) of (s, r) \<Rightarrow> (st\<lparr>per_item_inner := s\<rparr>, r))"

definition store_nvt_field :: "'s item_dispatcher \<Rightarrow> nvt_field \<Rightarrow> 's per_item_dispatcher \<Rightarrow>
    's per_item_dispatcher \<times> (storage_error + unit)" where
  "store_nvt_field D f st =
     (let n = (case per_item_nvt st of None \<Rightarrow> nvt_default | Some n \<Rightarrow> n);
          keep = (\<lambda>m. (st\<lparr>per_item_nvt := Some m\<rparr>, Inr ()))
      in case f of
        Oid s \<Rightarrow> keep (n\<lparr>nvt_oid := s\<rparr>)
      | FileName s \<Rightarrow> keep (n\<lparr>nvt_filename := s\<rparr>)
      | Version s \<Rightarrow> per_item_call (item_dispatch_feed_version D s) st
      | Name s \<Rightarrow> keep (n\<lparr>nvt_name := s\<rparr>)
      | Tag key val \<Rightarrow> keep (n\<lparr>nvt_tag := bt_insert key val (nvt_tag n)\<rparr>)
      | Dependencies s \<Rightarrow> keep (n\<lparr>nvt_dependencies := nvt_dependencies n @ s\<rparr>)
      | RequiredKeys s \<Rightarrow> keep (n\<lparr>nvt_required_keys := nvt_required_keys n @ s\<rparr>)
      | MandatoryKeys s \<Rightarrow> keep (n\<lparr>nvt_mandatory_keys := nvt_mandatory_keys n @ s\<rparr>)
      | ExcludedKeys s \<Rightarrow> keep (n\<lparr>nvt_excluded_keys := nvt_excluded_keys n @ s\<rparr>)
      | RequiredPorts s \<Rightarrow> keep (n\<lparr>nvt_required_ports := nvt_required_ports n @ s\<rparr>)
      | RequiredUdpPorts s \<Rightarrow> keep (n\<lparr>nvt_required_udp_ports := nvt_required_udp_ports n @ s\<rparr>)
      | Preference s \<Rightarrow> keep (n\<lparr>nvt_preferences := nvt_preferences n @ [s]\<rparr>)
      | Reference s \<Rightarrow> keep (n\<lparr>nvt_references := nvt_references n @ s\<rparr>)
      | Category s \<Rightarrow> keep (n\<lparr>nvt_category := s\<rparr>)
      | Family s \<Rightarrow> keep (n\<lparr>nvt_family := s\<rparr>)
      | NoOp \<Rightarrow> keep n
      | Nvt x \<Rightarrow> keep x)"

text \<open>Dispatching a result calls itself with the same result; not returning is \<^const>\<open>None\<close>.\<close>

partial_function (option) per_item_dispatch :: "'s item_dispatcher \<Rightarrow> context_key \<Rightarrow> field \<Rightarrow> 's per_item_dispatcher \<Rightarrow>
    ('s per_item_dispatcher \<times> (storage_error + unit)) option" where
  "per_item_dispatch D key scope st = (case scope of
      NVT f \<Rightarrow> Some (store_nvt_field D f st)
    | KB kb \<Rightarrow> Some (per_item_call (item_dispatch_kb D key kb) st)
    | NotusAdvisory adv \<Rightarrow> Some (per_item_call (item_dispatch_advisory D (context_key_as_ref key) adv) st)
    | ResultField result \<Rightarrow> per_item_dispatch D key (ResultField result) st)"

definition per_item_dispatch_replace :: "'s item_dispatcher \<Rightarrow> context_key \<Rightarrow> field \<Rightarrow> 's per_item_dispatcher \<Rightarrow>
    ('s per_item_dispatcher \<times> (storage_error + unit)) option" where
  "per_item_dispatch_replace D key scope st = (case scope of
      NVT f \<Rightarrow> Some (store_nvt_field D f st)
    | KB kb \<Rightarrow> Some (per_item_call (item_dispatch_kb D key kb) st)
    | NotusAdvisory adv \<Rightarrow> Some (per_item_call (item_dispatch_advisory D (context_key_as_ref key) adv) st)
    | ResultField result \<Rightarrow> per_item_dispatch D key (ResultField result) st)"

definition per_item_on_exit :: "'s item_dispatcher \<Rightarrow> 's per_item_dispatcher \<Rightarrow>
    's per_item_dispatcher \<times> (storage_error + unit)" where
  "per_item_on_exit D st =
     (case per_item_call (item_dispatch_nvt D (case per_item_nvt st of None \<Rightarrow> nvt_default | Some n \<Rightarrow> n)) st of
        (st', Inl e) \<Rightarrow> (st', Inl e)
      | (st', Inr _) \<Rightarrow> (st'\<lparr>per_item_nvt := None\<rparr>, Inr ()))"

subsection \<open>Fields build an NVT\<close>

text \<open>
  The three ways the source turns a field into NVT data agree: \<^verbatim>\<open>From<NVTField>\<close> is
  \<^verbatim>\<open>set_from_field\<close> on the default NVT, and \<^verbatim>\<open>store_nvt_field\<close> of the collecting dispatcher does to the
  NVT collected so far what \<^verbatim>\<open>set_from_field\<close> does, except that it hands a feed version on.
\<close>

theorem nvt_field_setters_agree:
  "nvt_from_field f = fst (set_from_field f nvt_default) \<and>
   store_nvt_field D f st =
     (case set_from_field f (case per_item_nvt st of None \<Rightarrow> nvt_default | Some n \<Rightarrow> n) of
        (n, Inl version) \<Rightarrow> per_item_call (item_dispatch_feed_version D version) st
      | (n, Inr _) \<Rightarrow> (st\<lparr>per_item_nvt := Some n\<rparr>, Inr ()))"
  by (cases f) (simp_all add: nvt_from_field_def set_from_field_def store_nvt_field_def nvt_default_def Let_def)

definition apply_fields :: "nvt_field list \<Rightarrow> nvt \<Rightarrow> nvt" where
  "apply_fields fs n = fold (\<lambda>f m. fst (set_from_field f m)) fs n"

fun per_item_dispatch_all :: "'s item_dispatcher \<Rightarrow> context_key \<Rightarrow> field list \<Rightarrow> 's per_item_dispatcher \<Rightarrow>
    's per_item_dispatcher option" where
  "per_item_dispatch_all D key [] st = Some st"
| "per_item_dispatch_all D key (f # fs) st = (case per_item_dispatch D key f st of
      Some (st', Inr _) \<Rightarrow> per_item_dispatch_all D key fs st'
    | _ \<Rightarrow> None)"

lemma store_nvt_field_keep:
  "\<not> is_Version f \<Longrightarrow> store_nvt_field D f st =
     (st\<lparr>per_item_nvt := Some (fst (set_from_field f (case per_item_nvt st of None \<Rightarrow> nvt_default | Some n \<Rightarrow> n)))\<rparr>, Inr ())"
  by (cases f) (simp_all add: set_from_field_def store_nvt_field_def Let_def)

lemma per_item_dispatch_all_fields:
  "list_all (\<lambda>f. \<not> is_Version f) fs \<Longrightarrow> fs \<noteq> [] \<Longrightarrow>
   per_item_dispatch_all D key (map NVT fs) st =
     Some (st\<lparr>per_item_nvt := Some (apply_fields fs (case per_item_nvt st of None \<Rightarrow> nvt_default | Some n \<Rightarrow> n))\<rparr>)"
proof (induction fs arbitrary: st)
  case (Cons f fs)
  then show ?case
    by (cases "fs = []") (simp_all add: per_item_dispatch.simps store_nvt_field_keep apply_fields_def)
qed simp

text \<open>
  A description run that dispatches NVT fields and then exits hands the inner dispatcher exactly
  one NVT: the default NVT with the fields applied in order. When that succeeds nothing is left for
  the next script.
\<close>

theorem per_item_run_collects:
  assumes "list_all (\<lambda>f. \<not> is_Version f) fs" and "fs \<noteq> []"
    and "item_dispatch_nvt D (apply_fields fs nvt_default) s = (s', Inr ())"
  shows "\<exists>st. per_item_dispatch_all D key (map NVT fs) (per_item_new s) = Some st \<and> per_item_inner st = s \<and>
     per_item_on_exit D st = (per_item_new s', Inr ())"
  using assms per_item_dispatch_all_fields [OF assms(1,2), of D key "per_item_new s"]
  by (simp add: per_item_on_exit_def per_item_call_def per_item_new_def)

definition recording_dispatcher :: "nvt list item_dispatcher" where
  "recording_dispatcher = \<lparr>item_dispatch_nvt = (\<lambda>n s. (s @ [n], Inr ())), item_dispatch_feed_version = (\<lambda>_ s. (s, Inr ())),
     item_dispatch_kb = (\<lambda>_ _ s. (s, Inr ())), item_dispatch_advisory = (\<lambda>_ _ s. (s, Inr ()))\<rparr>"

theorem per_item_run_collects_witness:
  "\<exists>st. per_item_dispatch_all recording_dispatcher (CtxFileName ''a.nasl'') (map NVT [Oid ''1'', Dependencies [''b''], Dependencies [''c'']])
       (per_item_new []) = Some st \<and> per_item_inner st = [] \<and>
     per_item_on_exit recording_dispatcher st =
       (per_item_new [nvt_default\<lparr>nvt_oid := ''1'', nvt_dependencies := [''b'', ''c'']\<rparr>], Inr ())"
  using per_item_run_collects [of "[Oid ''1'', Dependencies [''b''], Dependencies [''c'']]" recording_dispatcher "[]"
      "[nvt_default\<lparr>nvt_oid := ''1'', nvt_dependencies := [''b'', ''c'']\<rparr>]" "CtxFileName ''a.nasl''"]
  by (simp add: recording_dispatcher_def apply_fields_def set_from_field_def nvt_default_def)

text \<open>
  Dispatching a result to the collecting dispatcher never returns: \<^verbatim>\<open>dispatch\<close> calls itself with
  the unchanged result, instead of the inner dispatcher, and \<^verbatim>\<open>dispatch_replace\<close> calls \<^verbatim>\<open>dispatch\<close>.
\<close>

theorem per_item_dispatch_result_diverges:
  "per_item_dispatch D key (ResultField r) st = None \<and> per_item_dispatch_replace D key (ResultField r) st = None"
proof -
  have "scope \<noteq> ResultField r" if "per_item_dispatch D key scope st = Some y" for scope y
    by (rule per_item_dispatch.raw_induct [where P = "\<lambda>_ _ scope _ _. scope \<noteq> ResultField r", OF _ that])
      (fastforce split: field.split_asm)
  then have "per_item_dispatch D key (ResultField r) st = None"
    by (cases "per_item_dispatch D key (ResultField r) st") auto
  then show ?thesis by (simp add: per_item_dispatch_replace_def)
qed

subsection \<open>Cutting an NVT into fields\<close>

text \<open>
  A field that \<^verbatim>\<open>key_as_field\<close> cuts out of an NVT belongs to the key it was asked for and matches
  the NVT it was cut from; and \<^verbatim>\<open>key_as_field\<close> panics exactly for the tags of an NVT that has tags,
  which are not implemented.
\<close>

theorem key_as_field_matches:
  "(\<forall>fs. key_as_field k n = Ret fs \<longrightarrow>
      list_all (\<lambda>f. matches_field n (NVT f) \<and> for_field (RetrieveNVT (Some k)) (NVT f)) fs) \<and>
   (key_as_field k n = Panic \<longleftrightarrow> k = KeyTag \<and> nvt_tag n \<noteq> [])"
  by (cases k) (auto simp: key_as_field_def matches_field_def for_field_def nvt_field_for_def unless_empty_def list_all_iff)

theorem key_as_field_matches_witness:
  "matches_field (nvt_default\<lparr>nvt_oid := ''1.3''\<rparr>) (NVT (Oid ''1.3'')) \<and>
   for_field (RetrieveNVT (Some KeyOid)) (NVT (Oid ''1.3''))"
proof -
  have "key_as_field KeyOid (nvt_default\<lparr>nvt_oid := ''1.3''\<rparr>) = Ret [Oid ''1.3'']"
    by (simp add: key_as_field_def unless_empty_def)
  then show ?thesis using key_as_field_matches [of KeyOid "nvt_default\<lparr>nvt_oid := ''1.3''\<rparr>"] by simp
qed

text \<open>A field set on an NVT is found again by its key.\<close>

lemma set_from_field_tags:
  "bt_wf (nvt_tag n) \<Longrightarrow> \<not> is_Nvt f \<Longrightarrow> bt_wf (nvt_tag (fst (set_from_field f n)))"
  by (cases f) (auto simp: set_from_field_def bt_wf_insert)

lemma apply_fields_simps [simp]:
  "apply_fields [] n = n" "apply_fields (f # fs) n = apply_fields fs (fst (set_from_field f n))"
  by (simp_all add: apply_fields_def)

lemma apply_fields_tag_wf:
  "list_all (\<lambda>f. \<not> is_Nvt f) fs \<Longrightarrow> bt_wf (nvt_tag n) \<Longrightarrow> bt_wf (nvt_tag (apply_fields fs n))"
proof (induction fs arbitrary: n)
  case (Cons f fs)
  then show ?case using set_from_field_tags [of n f] by auto
qed simp

definition tags_of :: "nvt_field list \<Rightarrow> (tag_key \<times> primitive) list" where
  "tags_of fs = concat (map (\<lambda>f. case f of Tag k v \<Rightarrow> [(k, v)] | _ \<Rightarrow> []) fs)"

lemma apply_fields_tags:
  "list_all (\<lambda>f. \<not> is_Nvt f) fs \<Longrightarrow> bt_wf (nvt_tag n) \<Longrightarrow>
   map_of (nvt_tag (apply_fields fs n)) = map_of (nvt_tag n) ++ map_of (rev (tags_of fs))"
proof (induction fs arbitrary: n)
  case (Cons f fs)
  have "bt_wf (nvt_tag (fst (set_from_field f n)))" using set_from_field_tags [of n f] Cons.prems by auto
  with Cons show ?case
    by (cases f) (auto simp: set_from_field_def tags_of_def bt_get_insert map_add_def fun_eq_iff split: option.splits)
qed (simp add: tags_of_def)

text \<open>
  After a sequence of fields (none of them a complete NVT) a tag has the value of the last field
  that sets it, and the tags stay sorted; the dependencies are all dispatched dependencies in order.
\<close>

theorem apply_fields_lookup:
  assumes "list_all (\<lambda>f. \<not> is_Nvt f) fs"
  shows "map_of (nvt_tag (apply_fields fs nvt_default)) = map_of (rev (tags_of fs)) \<and>
     bt_wf (nvt_tag (apply_fields fs nvt_default)) \<and>
     nvt_dependencies (apply_fields fs nvt_default) =
       concat (map (\<lambda>f. case f of Dependencies s \<Rightarrow> s | _ \<Rightarrow> []) fs)"
proof -
  have "nvt_dependencies (apply_fields fs n) =
      nvt_dependencies n @ concat (map (\<lambda>f. case f of Dependencies s \<Rightarrow> s | _ \<Rightarrow> []) fs)" for n
    using assms
  proof (induction fs arbitrary: n)
    case (Cons f fs)
    then show ?case by (cases f) (auto simp: set_from_field_def)
  qed simp
  then show ?thesis
    using apply_fields_tags [OF assms, of nvt_default] apply_fields_tag_wf [OF assms, of nvt_default]
    by (simp add: nvt_default_def)
qed

theorem apply_fields_lookup_witness:
  "map_of (nvt_tag (apply_fields [Tag Summary (PString ''a''), Oid ''1'', Tag Affected (PString ''b''),
     Tag Summary (PString ''c'')] nvt_default)) Summary = Some (PString ''c'')"
  using apply_fields_lookup [of "[Tag Summary (PString ''a''), Oid ''1'', Tag Affected (PString ''b''),
     Tag Summary (PString ''c'')]"]
  by (simp add: tags_of_def)

subsection \<open>The NVT of an advisory\<close>

definition text_tag :: "string \<Rightarrow> primitive option" where
  "text_tag s = (if s = [] then None else Some (PString s))"

definition date_tag :: "64 word \<Rightarrow> primitive option" where
  "date_tag d = (if d = 0 then None else Some (PNumber d))"

lemma tag_if_lookup:
  "bt_wf m \<Longrightarrow> map_of (tag_if k s m) = (if s = [] then map_of m else (map_of m)(k \<mapsto> PString s)) \<and> bt_wf (tag_if k s m)"
  by (simp add: tag_if_def bt_get_insert bt_wf_insert)

lemma date_if_lookup:
  "bt_wf m \<Longrightarrow> map_of (date_if k d m) = (if d = 0 then map_of m else (map_of m)(k \<mapsto> PNumber d)) \<and> bt_wf (date_if k d m)"
  by (simp add: date_if_def bt_get_insert bt_wf_insert)

text \<open>
  The NVT made from a notus advisory has exactly the tags of the non-empty parts of the advisory,
  the severity vector of CVSS version 2 when there is one and of version 3 otherwise, and the category
  of information gathering. It has no references: the CVEs and cross references of the advisory are
  dropped, although the field \<^verbatim>\<open>refs\<close> is documented to hold them all.
\<close>

theorem nvt_from_data_contents:
  assumes "iteration it"
  shows "map_of (nvt_tag (nvt_from_data it d)) = (\<lambda>k. case k of
      Affected \<Rightarrow> text_tag (adv_affected (vd_adv d))
    | Summary \<Rightarrow> text_tag (adv_summary (vd_adv d))
    | Insight \<Rightarrow> text_tag (adv_insight (vd_adv d))
    | Solution \<Rightarrow> Some (PString ''Please install the updated package(s).'')
    | SolutionType \<Rightarrow> Some (PString ''VendorFix'')
    | Vuldetect \<Rightarrow> Some (PString ''Checks if a vulnerable package version is present on the target host.'')
    | QodType \<Rightarrow> text_tag (adv_qod_type (vd_adv d))
    | SeverityVector \<Rightarrow> text_tag (case sev_cvss_v2 (adv_severity (vd_adv d)) of
          Some v \<Rightarrow> v
        | None \<Rightarrow> (case sev_cvss_v3 (adv_severity (vd_adv d)) of Some v \<Rightarrow> v | None \<Rightarrow> []))
    | CreationDate \<Rightarrow> date_tag (adv_creation_date (vd_adv d))
    | LastModification \<Rightarrow> date_tag (adv_last_modification (vd_adv d))
    | _ \<Rightarrow> None) \<and>
   nvt_references (nvt_from_data it d) = [] \<and> nvt_category (nvt_from_data it d) = GatherInfo \<and>
   nvt_oid (nvt_from_data it d) = adv_oid (vd_adv d) \<and> nvt_filename (nvt_from_data it d) = vd_filename d"
  (is "?tags \<and> _")
proof -
  have ?tags
  proof
    fix k
    show "map_of (nvt_tag (nvt_from_data it d)) k = (case k of
      Affected \<Rightarrow> text_tag (adv_affected (vd_adv d))
    | Summary \<Rightarrow> text_tag (adv_summary (vd_adv d))
    | Insight \<Rightarrow> text_tag (adv_insight (vd_adv d))
    | Solution \<Rightarrow> Some (PString ''Please install the updated package(s).'')
    | SolutionType \<Rightarrow> Some (PString ''VendorFix'')
    | Vuldetect \<Rightarrow> Some (PString ''Checks if a vulnerable package version is present on the target host.'')
    | QodType \<Rightarrow> text_tag (adv_qod_type (vd_adv d))
    | SeverityVector \<Rightarrow> text_tag (case sev_cvss_v2 (adv_severity (vd_adv d)) of
          Some v \<Rightarrow> v
        | None \<Rightarrow> (case sev_cvss_v3 (adv_severity (vd_adv d)) of Some v \<Rightarrow> v | None \<Rightarrow> []))
    | CreationDate \<Rightarrow> date_tag (adv_creation_date (vd_adv d))
    | LastModification \<Rightarrow> date_tag (adv_last_modification (vd_adv d))
    | _ \<Rightarrow> None)"
      by (cases k) (simp_all add: nvt_from_data_def nvt_from_vulnerability_def vulnerability_from_def Let_def
          tag_to_vec_def tag_if_lookup date_if_lookup text_tag_def date_tag_def)
  qed
  moreover have "it [] = []" using iteration_length [OF assms, of "[]"] by simp
  ultimately show ?thesis
    by (simp add: nvt_from_data_def nvt_from_vulnerability_def vulnerability_from_def Let_def get_refs_def)
qed

definition example_advisory :: vulnerability_data where
  "example_advisory = \<lparr>vd_adv = \<lparr>adv_title = ''t'', adv_oid = ''1.3'', adv_creation_date = 5, adv_last_modification = 0,
     adv_advisory_id = ''DSA-1'', adv_advisory_xref = ''x'', adv_cves = [''CVE-2024-1''], adv_summary = ''s'',
     adv_insight = [], adv_affected = [], adv_xrefs = [''y''], adv_qod_type = ''package'',
     adv_severity = \<lparr>sev_origin = [], sev_date = 0, sev_cvss_v2 = None, sev_cvss_v3 = Some ''v3''\<rparr>\<rparr>,
     vd_family = ''f'', vd_filename = ''a.notus''\<rparr>"

theorem nvt_from_data_contents_witness:
  "map_of (nvt_tag (nvt_from_data rev example_advisory)) SeverityVector = Some (PString ''v3'') \<and>
   nvt_references (nvt_from_data rev example_advisory) = [] \<and> adv_cves (vd_adv example_advisory) \<noteq> []"
  using nvt_from_data_contents [OF iteration_rev, of example_advisory] by (simp add: example_advisory_def text_tag_def)

end
