(* ===== verification/Storage.thy ===== *)
theory Storage
  imports Nvt
begin

section \<open>The in-memory storage\<close>

text \<open>
  \<^verbatim>\<open>rust/src/storage/mod.rs\<close>: the dispatcher, retriever and remover traits with their default methods
  and \<^verbatim>\<open>DefaultDispatcher\<close>, the storage that keeps everything in memory. The locks are not modelled:
  each method is one atomic step on the state, and no method panics while it holds a lock, so none is
  ever poisoned. The unspecified iteration orders of the hash maps are collected in one record.
\<close>

subsection \<open>State\<close>

type_synonym kbs = "(context_key, (string, kb list) hashmap) hashmap"

record default_dispatcher =
  dd_vts :: "(string, nvt) hashmap"
  dd_feed_version :: string
  dd_advisories :: "vulnerability_data list"
  dd_kbs :: kbs
  dd_results :: "(string, scan_result list) hashmap"

record iter_orders =
  it_vts :: "(string \<times> nvt) list \<Rightarrow> (string \<times> nvt) list"
  it_advisories :: "vulnerability_data list \<Rightarrow> vulnerability_data list"
  it_kb_entries :: "(string \<times> kb list) list \<Rightarrow> (string \<times> kb list) list"
  it_refs :: refs_iter

definition iter_orders_ok :: "iter_orders \<Rightarrow> bool" where
  "iter_orders_ok I = (iteration (it_vts I) \<and> iteration (it_advisories I) \<and> iteration (it_kb_entries I) \<and>
     iteration (it_refs I))"

definition dd_new :: default_dispatcher where
  "dd_new = \<lparr>dd_vts = [], dd_feed_version = [], dd_advisories = [], dd_kbs = [], dd_results = []\<rparr>"

definition set_vts :: "(string, nvt) hashmap \<Rightarrow> default_dispatcher \<Rightarrow> default_dispatcher" where
  "set_vts vts st = st\<lparr>dd_vts := vts\<rparr>"

definition cleanse :: "default_dispatcher \<Rightarrow> default_dispatcher" where
  "cleanse st = st"

subsection \<open>Storing\<close>

definition cache_nvt_field :: "string \<Rightarrow> nvt_field \<Rightarrow> default_dispatcher \<Rightarrow> default_dispatcher" where
  "cache_nvt_field filename field st = (case hm_get (dd_vts st) filename of
      Some vt \<Rightarrow>
        (case set_from_field field vt of
           (vt', Inl feed_version) \<Rightarrow>
             st\<lparr>dd_vts := hm_insert filename vt' (dd_vts st), dd_feed_version := feed_version\<rparr>
         | (vt', Inr _) \<Rightarrow> st\<lparr>dd_vts := hm_insert filename vt' (dd_vts st)\<rparr>)
    | None \<Rightarrow>
        (case set_from_field field nvt_default of
           (_, Inl feed_version) \<Rightarrow> st\<lparr>dd_feed_version := feed_version\<rparr>
         | (n, Inr _) \<Rightarrow>
             (let n' = (if nvt_filename n = [] then n\<lparr>nvt_filename := filename\<rparr> else n)
              in st\<lparr>dd_vts := hm_insert (nvt_filename n') n' (dd_vts st)\<rparr>)))"

definition cache_kb :: "context_key \<Rightarrow> kb \<Rightarrow> default_dispatcher \<Rightarrow> default_dispatcher" where
  "cache_kb ck kb st = (case hm_get (dd_kbs st) ck of
      Some scan_entry \<Rightarrow>
        (case hm_get scan_entry (kb_key kb) of
           Some kb_entry \<Rightarrow>
             (if \<not> list_ex (\<lambda>x. kb_value x = kb_value kb) kb_entry
              then st\<lparr>dd_kbs := hm_insert ck (hm_insert (kb_key kb) (kb_entry @ [kb]) scan_entry) (dd_kbs st)\<rparr>
              else st)
         | None \<Rightarrow> st\<lparr>dd_kbs := hm_insert ck (hm_insert (kb_key kb) [kb] scan_entry) (dd_kbs st)\<rparr>)
    | None \<Rightarrow> st\<lparr>dd_kbs := hm_insert ck (hm_insert (kb_key kb) [kb] []) (dd_kbs st)\<rparr>)"

definition replace_kb :: "context_key \<Rightarrow> kb \<Rightarrow> default_dispatcher \<Rightarrow> default_dispatcher" where
  "replace_kb ck kb st = (case hm_get (dd_kbs st) ck of
      Some scan_entry \<Rightarrow>
        (case hm_get scan_entry (kb_key kb) of
           Some kb_entry \<Rightarrow> st\<lparr>dd_kbs := hm_insert ck (hm_insert (kb_key kb) [kb] scan_entry) (dd_kbs st)\<rparr>
         | None \<Rightarrow> st\<lparr>dd_kbs := hm_insert ck (hm_insert (kb_key kb) [kb] scan_entry) (dd_kbs st)\<rparr>)
    | None \<Rightarrow> st\<lparr>dd_kbs := hm_insert ck (hm_insert (kb_key kb) [kb] []) (dd_kbs st)\<rparr>)"

definition cache_result :: "string \<Rightarrow> scan_result \<Rightarrow> default_dispatcher \<Rightarrow> default_dispatcher" where
  "cache_result scan_id result st = (case hm_get (dd_results st) scan_id of
      Some entry \<Rightarrow> st\<lparr>dd_results := hm_insert scan_id (entry @ [result]) (dd_results st)\<rparr>
    | None \<Rightarrow> st\<lparr>dd_results := hm_insert scan_id [result] (dd_results st)\<rparr>)"

definition cache_notus_advisory :: "vulnerability_data \<Rightarrow> default_dispatcher \<Rightarrow> default_dispatcher" where
  "cache_notus_advisory adv st =
     (if adv \<in> set (dd_advisories st) then st else st\<lparr>dd_advisories := dd_advisories st @ [adv]\<rparr>)"

definition clean_vts :: "default_dispatcher \<Rightarrow> default_dispatcher" where
  "clean_vts st = st\<lparr>dd_vts := [], dd_feed_version := []\<rparr>"

definition clean_advisories :: "default_dispatcher \<Rightarrow> default_dispatcher" where
  "clean_advisories st = st\<lparr>dd_advisories := []\<rparr>"

definition dd_dispatch :: "context_key \<Rightarrow> field \<Rightarrow> default_dispatcher \<Rightarrow> default_dispatcher \<times> (storage_error + unit)" where
  "dd_dispatch key scope st = (case scope of
      NVT x \<Rightarrow> (cache_nvt_field (context_key_as_ref key) x st, Inr ())
    | KB x \<Rightarrow> (cache_kb key x st, Inr ())
    | NotusAdvisory x \<Rightarrow> (case x of Some adv \<Rightarrow> (cache_notus_advisory adv st, Inr ()) | None \<Rightarrow> (st, Inr ()))
    | ResultField x \<Rightarrow> (cache_result (context_key_as_ref key) x st, Inr ()))"

definition dd_dispatch_replace :: "context_key \<Rightarrow> field \<Rightarrow> default_dispatcher \<Rightarrow> default_dispatcher \<times> (storage_error + unit)" where
  "dd_dispatch_replace key scope st = (case scope of
      NVT x \<Rightarrow> (cache_nvt_field (context_key_as_ref key) x st, Inr ())
    | KB x \<Rightarrow> (replace_kb key x st, Inr ())
    | NotusAdvisory x \<Rightarrow> (case x of Some adv \<Rightarrow> (cache_notus_advisory adv st, Inr ()) | None \<Rightarrow> (st, Inr ()))
    | ResultField x \<Rightarrow> (cache_result (context_key_as_ref key) x st, Inr ()))"

definition dd_on_exit :: "context_key \<Rightarrow> default_dispatcher \<Rightarrow> default_dispatcher \<times> (storage_error + unit)" where
  "dd_on_exit key st = (st, Inr ())"

text \<open>The default method \<^verbatim>\<open>retry_dispatch\<close>, for the dispatch of any implementation.\<close>

fun retry_dispatch :: "nat \<Rightarrow> ('s \<Rightarrow> 's \<times> (storage_error + unit)) \<Rightarrow> 's \<Rightarrow> 's \<times> (storage_error + unit)" where
  "retry_dispatch retries dispatch s = (case dispatch s of
      (s', Inr r) \<Rightarrow> (s', Inr r)
    | (s', Inl e) \<Rightarrow>
        (if retries > 0 \<and> (case e of Retry _ \<Rightarrow> True | _ \<Rightarrow> False)
         then retry_dispatch (retries - 1) dispatch s'
         else (s', Inl e)))"

declare retry_dispatch.simps [simp del]

subsection \<open>Removing\<close>

definition remove_kb :: "iter_orders \<Rightarrow> context_key \<Rightarrow> string option \<Rightarrow> default_dispatcher \<Rightarrow>
    default_dispatcher \<times> kb list option" where
  "remove_kb I key kb_id st = (case kb_id of
      None \<Rightarrow> (st\<lparr>dd_kbs := hm_remove key (dd_kbs st)\<rparr>,
        map_option (\<lambda>x. concat (map snd (it_kb_entries I x))) (hm_get (dd_kbs st) key))
    | Some x \<Rightarrow>
        (case hm_get (dd_kbs st) key of
           Some kbs \<Rightarrow> (st\<lparr>dd_kbs := hm_insert key (hm_remove x kbs) (dd_kbs st)\<rparr>, hm_get kbs x)
         | None \<Rightarrow> (st, None)))"

definition vec_remove :: "nat \<Rightarrow> 'a list \<Rightarrow> 'a list" where
  "vec_remove i xs = take i xs @ drop (Suc i) xs"

definition remove_result :: "context_key \<Rightarrow> nat option \<Rightarrow> default_dispatcher \<Rightarrow>
    default_dispatcher \<times> scan_result list option" where
  "remove_result key result_id' st =
     (let scan_id = context_key_as_ref key
      in case result_id' of
        Some idx \<Rightarrow>
          (case hm_get (dd_results st) scan_id of
             Some results \<Rightarrow>
               (case position (\<lambda>x. result_id x = idx) results of
                  Some i \<Rightarrow> (st\<lparr>dd_results := hm_insert scan_id (vec_remove i results) (dd_results st)\<rparr>, Some [results ! i])
                | None \<Rightarrow> (st, None))
           | None \<Rightarrow> (st, None))
      | None \<Rightarrow> (st\<lparr>dd_results := hm_remove scan_id (dd_results st)\<rparr>, hm_get (dd_results st) scan_id))"

definition scan_finished :: "iter_orders \<Rightarrow> context_key \<Rightarrow> default_dispatcher \<Rightarrow> default_dispatcher" where
  "scan_finished I key st = fst (remove_kb I key None st)"

definition remove_scan :: "iter_orders \<Rightarrow> context_key \<Rightarrow> default_dispatcher \<Rightarrow> default_dispatcher \<times> scan_result list" where
  "remove_scan I key st =
     (let st1 = fst (remove_kb I key None st)
      in case remove_result key None st1 of
        (st2, results) \<Rightarrow> (st2, case results of Some rs \<Rightarrow> rs | None \<Rightarrow> []))"

subsection \<open>Retrieving\<close>

definition all_vts :: "iter_orders \<Rightarrow> default_dispatcher \<Rightarrow> nvt list" where
  "all_vts I st = map snd (it_vts I (dd_vts st)) @
     map (nvt_from_data (it_refs I)) (it_advisories I (dd_advisories st))"

definition dd_retrieve :: "iter_orders \<Rightarrow> context_key \<Rightarrow> retrieve \<Rightarrow> default_dispatcher \<Rightarrow> field list exec" where
  "dd_retrieve I key scope st = (case scope of
      RetrieveNVT None \<Rightarrow> Ret (map (\<lambda>x. NVT (Nvt x)) (all_vts I st))
    | RetrieveNVT (Some KeyNvt) \<Rightarrow> Ret (map (\<lambda>x. NVT (Nvt x)) (all_vts I st))
    | RetrieveNVT (Some KeyVersion) \<Rightarrow> Ret [NVT (Version (dd_feed_version st))]
    | RetrieveNVT (Some x) \<Rightarrow>
        exec_bind (exec_flat_map (key_as_field x) (all_vts I st)) (\<lambda>fs. Ret (map NVT fs))
    | RetrieveKB kb_id \<Rightarrow>
        (case hm_get (dd_kbs st) key of
           Some kbs \<Rightarrow> (case hm_get kbs kb_id of Some ks \<Rightarrow> Ret (map KB ks) | None \<Rightarrow> Ret [])
         | None \<Rightarrow> Ret [])
    | RetrieveNotusAdvisory x \<Rightarrow> Ret (map (\<lambda>a. NotusAdvisory (Some a)) (it_advisories I (dd_advisories st)))
    | RetrieveResult None \<Rightarrow>
        Ret (map ResultField (case hm_get (dd_results st) (context_key_as_ref key) of Some x \<Rightarrow> x | None \<Rightarrow> []))
    | RetrieveResult (Some i) \<Rightarrow>
        Ret (map ResultField (filter (\<lambda>x. result_id x = i)
          (case hm_get (dd_results st) (context_key_as_ref key) of Some x \<Rightarrow> x | None \<Rightarrow> []))))"

definition retrieve_by_fields :: "iter_orders \<Rightarrow> field list \<Rightarrow> retrieve \<Rightarrow> default_dispatcher \<Rightarrow> (context_key \<times> field) list exec" where
  "retrieve_by_fields I flds scope st = (case scope of
      RetrieveNVT x \<Rightarrow>
        (let complete = Ret (map (\<lambda>n. (CtxFileName (nvt_filename n), NVT (Nvt n)))
                          (filter (\<lambda>y. matches_any_field y flds) (all_vts I st)))
         in case x of
           None \<Rightarrow> complete
         | Some KeyNvt \<Rightarrow> complete
         | Some k \<Rightarrow>
             (let notus = map (\<lambda>a. (vd_filename a, nvt_from_data (it_refs I) a)) (it_advisories I (dd_advisories st));
                  vts = filter (\<lambda>(_, y). matches_any_field y flds) (it_vts I (dd_vts st) @ notus)
              in exec_flat_map (\<lambda>(f, y). exec_bind (key_as_field k y)
                   (\<lambda>fs. Ret (map (\<lambda>x. (CtxFileName f, NVT x)) fs))) vts))
    | RetrieveNotusAdvisory x \<Rightarrow> Ret []
    | RetrieveKB x \<Rightarrow> Ret []
    | RetrieveResult x \<Rightarrow> Ret [])"

definition retrieve_by_field :: "iter_orders \<Rightarrow> field \<Rightarrow> retrieve \<Rightarrow> default_dispatcher \<Rightarrow> (context_key \<times> field) list exec" where
  "retrieve_by_field I field scope st = retrieve_by_fields I [field] scope st"

text \<open>The default methods of \<^verbatim>\<open>Retriever\<close>.\<close>

definition retriever_vts :: "iter_orders \<Rightarrow> default_dispatcher \<Rightarrow> nvt list exec" where
  "retriever_vts I st = exec_bind (dd_retrieve I context_key_default (RetrieveNVT None) st)
     (\<lambda>fs. Ret (List.map_filter (\<lambda>f. case f of NVT (Nvt n) \<Rightarrow> Some n | _ \<Rightarrow> None) fs))"

definition retriever_results :: "iter_orders \<Rightarrow> context_key \<Rightarrow> default_dispatcher \<Rightarrow> scan_result list exec" where
  "retriever_results I key st = exec_bind (dd_retrieve I key (RetrieveResult None) st)
     (\<lambda>fs. Ret (List.map_filter (\<lambda>f. case f of ResultField r \<Rightarrow> Some r | _ \<Rightarrow> None) fs))"

definition retriever_result :: "iter_orders \<Rightarrow> context_key \<Rightarrow> nat \<Rightarrow> default_dispatcher \<Rightarrow> scan_result option exec" where
  "retriever_result I key i st = exec_bind (dd_retrieve I key (RetrieveResult (Some i)) st)
     (\<lambda>fs. Ret (case List.map_filter (\<lambda>f. case f of ResultField r \<Rightarrow> Some r | _ \<Rightarrow> None) fs of
        [] \<Rightarrow> None | r # _ \<Rightarrow> Some r))"

subsection \<open>The knowledge base\<close>

text \<open>
  The contract between the storage and its users: what a look-up returns after an item is added
  (a value that is already there is not added again), replaced or removed.
\<close>

definition add_value :: "kb \<Rightarrow> kb list \<Rightarrow> kb list" where
  "add_value k ks = (if \<exists>x\<in>set ks. kb_value x = kb_value k then ks else ks @ [k])"

datatype kb_op = AddKb context_key kb | ReplaceKb context_key kb | RemoveKb context_key "string option"

definition kb_step :: "kb_op \<Rightarrow> (context_key \<Rightarrow> string \<Rightarrow> kb list) \<Rightarrow> context_key \<Rightarrow> string \<Rightarrow> kb list" where
  "kb_step op m c n = (case op of
      AddKb c' k \<Rightarrow> if c = c' \<and> n = kb_key k then add_value k (m c n) else m c n
    | ReplaceKb c' k \<Rightarrow> if c = c' \<and> n = kb_key k then [k] else m c n
    | RemoveKb c' x \<Rightarrow> if c = c' \<and> (x = None \<or> x = Some n) then [] else m c n)"

definition sets_key :: "context_key \<Rightarrow> string \<Rightarrow> kb_op \<Rightarrow> bool" where
  "sets_key c n op = (case op of
      AddKb c' k \<Rightarrow> c = c' \<and> n = kb_key k | ReplaceKb c' k \<Rightarrow> c = c' \<and> n = kb_key k | RemoveKb _ _ \<Rightarrow> False)"

definition removes_key :: "context_key \<Rightarrow> string \<Rightarrow> kb_op \<Rightarrow> bool" where
  "removes_key c n op = (case op of RemoveKb c' x \<Rightarrow> c = c' \<and> (x = None \<or> x = Some n) | _ \<Rightarrow> False)"

definition kb_apply :: "(context_key \<Rightarrow> kb \<Rightarrow> 's \<Rightarrow> 's) \<Rightarrow> (context_key \<Rightarrow> kb \<Rightarrow> 's \<Rightarrow> 's) \<Rightarrow>
    (context_key \<Rightarrow> string option \<Rightarrow> 's \<Rightarrow> 's) \<Rightarrow> kb_op \<Rightarrow> 's \<Rightarrow> 's" where
  "kb_apply add replace remove op s = (case op of
      AddKb c k \<Rightarrow> add c k s | ReplaceKb c k \<Rightarrow> replace c k s | RemoveKb c x \<Rightarrow> remove c x s)"

lemma add_value_nonempty [simp]: "add_value k ks \<noteq> []"
  by (auto simp: add_value_def)

lemma add_value_distinct: "distinct (map kb_value ks) \<Longrightarrow> distinct (map kb_value (add_value k ks))"
  by (auto simp: add_value_def)

lemma kb_step_nonempty:
  "kb_step op m c n \<noteq> [] \<longleftrightarrow> sets_key c n op \<or> (m c n \<noteq> [] \<and> \<not> removes_key c n op)"
  by (cases op) (auto simp: kb_step_def sets_key_def removes_key_def)

lemma kb_fold_nonempty:
  "fold kb_step ops m c n \<noteq> [] \<longleftrightarrow>
     (\<exists>pre op post. ops = pre @ op # post \<and> sets_key c n op \<and> list_all (\<lambda>o'. \<not> removes_key c n o') post) \<or>
     (m c n \<noteq> [] \<and> list_all (\<lambda>o'. \<not> removes_key c n o') ops)"
proof (induction ops rule: rev_induct)
  case (snoc op ops)
  let ?keep = "list_all (\<lambda>o'. \<not> removes_key c n o')"
  have split: "(\<exists>pre o' post. ops @ [op] = pre @ o' # post \<and> sets_key c n o' \<and> ?keep post) \<longleftrightarrow>
      sets_key c n op \<or> ((\<exists>pre o' post. ops = pre @ o' # post \<and> sets_key c n o' \<and> ?keep post) \<and> \<not> removes_key c n op)"
  proof (intro iffI; elim exE conjE disjE)
    fix pre o' post
    assume eq: "ops @ [op] = pre @ o' # post" and s: "sets_key c n o'" and k: "?keep post"
    show "sets_key c n op \<or> ((\<exists>pre o' post. ops = pre @ o' # post \<and> sets_key c n o' \<and> ?keep post) \<and> \<not> removes_key c n op)"
    proof (cases post rule: rev_cases)
      case (snoc p l)
      then have "ops = pre @ o' # p" "op = l" using eq by auto
      with s k snoc show ?thesis by auto
    qed (use eq s in auto)
  next
    assume "sets_key c n op"
    then show "\<exists>pre o' post. ops @ [op] = pre @ o' # post \<and> sets_key c n o' \<and> ?keep post"
      by (intro exI [of _ ops] exI [of _ op] exI [of _ "[]"]) simp
  next
    fix pre o' post
    assume "\<not> removes_key c n op" "ops = pre @ o' # post" "sets_key c n o'" "?keep post"
    then show "\<exists>pre o' post. ops @ [op] = pre @ o' # post \<and> sets_key c n o' \<and> ?keep post"
      by (intro exI [of _ pre] exI [of _ o'] exI [of _ "post @ [op]"]) simp
  qed
  show ?case unfolding split using snoc by (auto simp: kb_step_nonempty)
qed simp

lemma kb_fold_distinct:
  "(\<And>c n. distinct (map kb_value (m c n))) \<Longrightarrow> distinct (map kb_value (fold kb_step ops m c n))"
proof (induction ops arbitrary: m)
  case (Cons op ops)
  have "distinct (map kb_value (kb_step op m c n))" for c n
    using Cons.prems add_value_distinct by (cases op) (auto simp: kb_step_def)
  then show ?case using Cons.IH by simp
qed simp

locale kb_store =
  fixes lookup :: "'s \<Rightarrow> context_key \<Rightarrow> string \<Rightarrow> kb list"
    and add replace :: "context_key \<Rightarrow> kb \<Rightarrow> 's \<Rightarrow> 's"
    and remove :: "context_key \<Rightarrow> string option \<Rightarrow> 's \<Rightarrow> 's"
  assumes lookup_add: "lookup (add c k s) = kb_step (AddKb c k) (lookup s)"
    and lookup_replace: "lookup (replace c k s) = kb_step (ReplaceKb c k) (lookup s)"
    and lookup_remove: "lookup (remove c x s) = kb_step (RemoveKb c x) (lookup s)"
begin

lemma lookup_apply: "lookup (kb_apply add replace remove op s) = kb_step op (lookup s)"
  by (cases op) (simp_all add: kb_apply_def lookup_add lookup_replace lookup_remove)

lemma lookup_history: "lookup (fold (kb_apply add replace remove) ops s) = fold kb_step ops (lookup s)"
  by (induction ops arbitrary: s) (simp_all add: lookup_apply)

lemma present_iff:
  "(\<And>c n. lookup s c n = []) \<Longrightarrow> lookup (fold (kb_apply add replace remove) ops s) c n \<noteq> [] \<longleftrightarrow>
     (\<exists>pre op post. ops = pre @ op # post \<and> sets_key c n op \<and> list_all (\<lambda>o'. \<not> removes_key c n o') post)"
  using kb_fold_nonempty [of ops "lookup s" c n] by (simp add: lookup_history)

lemma values_distinct:
  "(\<And>c n. lookup s c n = []) \<Longrightarrow> distinct (map kb_value (lookup (fold (kb_apply add replace remove) ops s) c n))"
  by (simp add: lookup_history kb_fold_distinct)

end

definition dd_kb :: "default_dispatcher \<Rightarrow> context_key \<Rightarrow> string \<Rightarrow> kb list" where
  "dd_kb st c n = (case hm_get (dd_kbs st) c of
      Some m \<Rightarrow> (case hm_get m n of Some ks \<Rightarrow> ks | None \<Rightarrow> [])
    | None \<Rightarrow> [])"

lemma dd_retrieve_KB: "dd_retrieve I c (RetrieveKB n) st = Ret (map KB (dd_kb st c n))"
  by (auto simp: dd_retrieve_def dd_kb_def split: option.splits)

lemma dd_kb_cache: "dd_kb (cache_kb c k st) = kb_step (AddKb c k) (dd_kb st)"
  by (auto simp: fun_eq_iff dd_kb_def cache_kb_def kb_step_def add_value_def list_ex_iff split: option.splits)

lemma dd_kb_replace: "dd_kb (replace_kb c k st) = kb_step (ReplaceKb c k) (dd_kb st)"
  by (auto simp: fun_eq_iff dd_kb_def replace_kb_def kb_step_def split: option.splits)

lemma dd_kb_remove: "dd_kb (fst (remove_kb I c x st)) = kb_step (RemoveKb c x) (dd_kb st)"
  by (auto simp: fun_eq_iff dd_kb_def remove_kb_def kb_step_def split: option.splits)

definition dd_add_kb :: "context_key \<Rightarrow> kb \<Rightarrow> default_dispatcher \<Rightarrow> default_dispatcher" where
  "dd_add_kb c k st = fst (dd_dispatch c (KB k) st)"

definition dd_replace_kb :: "context_key \<Rightarrow> kb \<Rightarrow> default_dispatcher \<Rightarrow> default_dispatcher" where
  "dd_replace_kb c k st = fst (dd_dispatch_replace c (KB k) st)"

definition dd_remove_kb :: "iter_orders \<Rightarrow> context_key \<Rightarrow> string option \<Rightarrow> default_dispatcher \<Rightarrow> default_dispatcher" where
  "dd_remove_kb I c x st = fst (remove_kb I c x st)"

interpretation dd: kb_store dd_kb dd_add_kb dd_replace_kb "dd_remove_kb I" for I
  by unfold_locales
    (simp_all add: dd_add_kb_def dd_replace_kb_def dd_remove_kb_def dd_dispatch_def dd_dispatch_replace_def
      dd_kb_cache dd_kb_replace dd_kb_remove)

abbreviation dd_kb_op :: "iter_orders \<Rightarrow> kb_op \<Rightarrow> default_dispatcher \<Rightarrow> default_dispatcher" where
  "dd_kb_op I \<equiv> kb_apply dd_add_kb dd_replace_kb (dd_remove_kb I)"


text \<open>
  From the empty storage, a key is present exactly when some step stored it and no later step
  removed it or its whole context; and \<^verbatim>\<open>retrieve\<close> never returns two items with one value.
\<close>

theorem dd_kb_present_iff:
  "\<exists>ks. dd_retrieve I c (RetrieveKB n) (fold (dd_kb_op I) ops dd_new) = Ret (map KB ks) \<and>
     distinct (map kb_value ks) \<and>
     (ks \<noteq> [] \<longleftrightarrow> (\<exists>pre op post. ops = pre @ op # post \<and> sets_key c n op \<and> list_all (\<lambda>o'. \<not> removes_key c n o') post))"
proof -
  have empty: "\<And>c n. dd_kb dd_new c n = []" by (simp add: dd_kb_def dd_new_def)
  show ?thesis
    using dd.present_iff [of dd_new I ops c n, OF empty] dd.values_distinct [of dd_new I ops c n, OF empty]
    by (intro exI [of _ "dd_kb (fold (dd_kb_op I) ops dd_new) c n"]) (simp add: dd_retrieve_KB)
qed

subsection \<open>Removing a scan\<close>

lemma context_key_as_ref_simps [simp]: "context_key_as_ref (Scan i t) = i" "context_key_as_ref (CtxFileName f) = f"
  by (simp_all add: context_key_as_ref_def)

lemma remove_scan_kb: "dd_kb (fst (remove_scan I key st)) = kb_step (RemoveKb key None) (dd_kb st)"
proof -
  have "dd_kb (fst (remove_result key None s)) = dd_kb s" for s
    by (simp add: remove_result_def Let_def dd_kb_def fun_eq_iff)
  then show ?thesis
    using dd_kb_remove [of I key None st] by (simp add: remove_scan_def Let_def case_prod_beta)
qed

lemma remove_scan_results:
  "hm_get (dd_results (fst (remove_scan I key st))) = (hm_get (dd_results st))(context_key_as_ref key := None)"
  by (simp add: remove_scan_def remove_result_def remove_kb_def Let_def)

text \<open>
  \<^verbatim>\<open>remove_scan\<close> returns the results of the scan and removes them, and removes the knowledge base
  of exactly the given context; everything else is kept.
\<close>

theorem remove_scan_removes:
  "dd_retrieve I key (RetrieveResult None) (fst (remove_scan I key st)) = Ret [] \<and>
   dd_retrieve I key (RetrieveResult None) st = Ret (map ResultField (snd (remove_scan I key st))) \<and>
   dd_retrieve I c (RetrieveKB n) (fst (remove_scan I key st)) =
     (if c = key then Ret [] else dd_retrieve I c (RetrieveKB n) st) \<and>
   (context_key_as_ref c \<noteq> context_key_as_ref key \<longrightarrow>
     dd_retrieve I c (RetrieveResult None) (fst (remove_scan I key st)) = dd_retrieve I c (RetrieveResult None) st)"
  unfolding dd_retrieve_KB
  by (auto simp: remove_scan_kb kb_step_def dd_retrieve_def remove_scan_results)
    (simp add: remove_scan_def remove_result_def remove_kb_def Let_def)

definition example_orders :: iter_orders where
  "example_orders = \<lparr>it_vts = rev, it_advisories = (\<lambda>x. x), it_kb_entries = (\<lambda>x. x), it_refs = (\<lambda>x. x)\<rparr>"

definition example_result :: scan_result where
  "example_result = \<lparr>result_id = 7, result_r_type = Alarm, result_ip_address = None, result_hostname = None,
     result_oid = Some ''1.3'', result_port = None, result_protocol = Some TCP, result_message = None, result_detail = None\<rparr>"

definition example_storage :: default_dispatcher where
  "example_storage = fst (dd_dispatch (Scan ''b'' None) (ResultField example_result) dd_new)"

theorem remove_scan_removes_witness:
  "dd_retrieve example_orders (Scan ''b'' None) (RetrieveResult None)
     (fst (remove_scan example_orders (Scan ''a'' None) example_storage)) = Ret [ResultField example_result]"
proof -
  have "dd_retrieve example_orders (Scan ''b'' None) (RetrieveResult None) example_storage = Ret [ResultField example_result]"
    by (simp add: example_storage_def dd_dispatch_def cache_result_def dd_new_def dd_retrieve_def)
  then show ?thesis
    using remove_scan_removes [of example_orders "Scan ''a'' None" example_storage "Scan ''b'' None" "''n''"] by simp
qed

text \<open>
  A knowledge base item of one target of a scan is still there after \<^verbatim>\<open>remove_scan\<close> is called with
  the context of the scan without a target, which is how \<^verbatim>\<open>Scanner::delete_scan\<close> calls it; the trait
  says that all items of the scan have to be removed.
\<close>

theorem remove_scan_keeps_target_kbs:
  "dd_retrieve I (Scan scan (Some target)) (RetrieveKB n) (fst (remove_scan I (Scan scan None) st)) =
   dd_retrieve I (Scan scan (Some target)) (RetrieveKB n) st"
  unfolding dd_retrieve_KB by (simp add: remove_scan_kb kb_step_def)

subsection \<open>Results\<close>

definition dd_scan_results :: "default_dispatcher \<Rightarrow> string \<Rightarrow> scan_result list" where
  "dd_scan_results st scan_id = (case hm_get (dd_results st) scan_id of Some x \<Rightarrow> x | None \<Rightarrow> [])"

lemma retriever_results_eq: "retriever_results I key st = Ret (dd_scan_results st (context_key_as_ref key))"
proof -
  have "List.map_filter (\<lambda>f. case f of ResultField r \<Rightarrow> Some r | _ \<Rightarrow> None) (map ResultField xs) = xs" for xs
    by (induction xs) simp_all
  then show ?thesis by (simp add: retriever_results_def dd_retrieve_def dd_scan_results_def)
qed

text \<open>
  The results of a scan. A dispatched result is appended to those of its scan and to no other;
  removing by an id takes out the first result with that id and returns it, and is \<^verbatim>\<open>None\<close> without a
  change when there is none.
\<close>

theorem results_dispatch_and_remove:
  "dd_scan_results (fst (dd_dispatch key (ResultField r) st)) scan =
     dd_scan_results st scan @ (if scan = context_key_as_ref key then [r] else []) \<and>
   (case remove_result key (Some i) st of
      (st', None) \<Rightarrow> st' = st \<and> list_all (\<lambda>x. result_id x \<noteq> i) (dd_scan_results st (context_key_as_ref key))
    | (st', Some rs) \<Rightarrow> \<exists>us x vs. rs = [x] \<and> result_id x = i \<and> list_all (\<lambda>y. result_id y \<noteq> i) us \<and>
        dd_scan_results st (context_key_as_ref key) = us @ x # vs \<and>
        dd_scan_results st' (context_key_as_ref key) = us @ vs)"
proof -
  let ?scan = "context_key_as_ref key"
  have dispatch: "dd_scan_results (fst (dd_dispatch key (ResultField r) st)) scan =
      dd_scan_results st scan @ (if scan = ?scan then [r] else [])"
    by (auto simp: dd_scan_results_def dd_dispatch_def cache_result_def split: option.splits)
  show ?thesis
  proof (cases "hm_get (dd_results st) ?scan")
    case None
    then show ?thesis using dispatch by (simp add: remove_result_def dd_scan_results_def)
  next
    case (Some results)
    show ?thesis
    proof (cases "position (\<lambda>x. result_id x = i) results")
      case None
      moreover from None have "list_all (\<lambda>y. result_id y \<noteq> i) results" by (simp add: position_None)
      ultimately show ?thesis using dispatch Some by (simp add: remove_result_def dd_scan_results_def)
    next
      case (Some k)
      from position_split [OF this] obtain us x vs where "results = us @ x # vs" "length us = k" "result_id x = i"
        "list_all (\<lambda>y. result_id y \<noteq> i) us" by blast
      then show ?thesis
        using dispatch Some \<open>hm_get (dd_results st) ?scan = Some results\<close>
        by (auto simp: remove_result_def dd_scan_results_def vec_remove_def nth_append)
    qed
  qed
qed

subsection \<open>Retrying a dispatch\<close>

definition is_retry :: "storage_error + unit \<Rightarrow> bool" where
  "is_retry r = (case r of Inl (Retry _) \<Rightarrow> True | _ \<Rightarrow> False)"

definition attempt :: "('s \<Rightarrow> 's \<times> (storage_error + unit)) \<Rightarrow> 's \<Rightarrow> nat \<Rightarrow> 's \<times> (storage_error + unit)" where
  "attempt dispatch s i = dispatch (((\<lambda>s. fst (dispatch s)) ^^ i) s)"

text \<open>
  \<^verbatim>\<open>retry_dispatch\<close> with \<open>n\<close> retries makes at most \<open>n + 1\<close> attempts, repeats only after a retryable
  error, and returns the outcome of the first attempt that is not one, or of the last.
\<close>

theorem retry_dispatch_attempts:
  "\<exists>k \<le> n. retry_dispatch n dispatch s = attempt dispatch s k \<and>
     list_all (\<lambda>i. is_retry (snd (attempt dispatch s i))) [0..<k] \<and>
     (k = n \<or> is_retry (snd (attempt dispatch s k)) = False)"
proof (induction n arbitrary: s)
  case 0
  then show ?case
    by (auto simp: retry_dispatch.simps [of 0] attempt_def split: prod.splits sum.splits)
next
  case (Suc n)
  obtain s' r where d: "dispatch s = (s', r)" by (cases "dispatch s")
  show ?case
  proof (cases "is_retry r")
    case False
    then have "retry_dispatch (Suc n) dispatch s = attempt dispatch s 0"
      using d by (auto simp: retry_dispatch.simps [of "Suc n"] attempt_def is_retry_def
          split: sum.splits storage_error.splits)
    then show ?thesis using False d by (intro exI [of _ 0]) (simp add: attempt_def)
  next
    case True
    obtain k where k: "k \<le> n" "retry_dispatch n dispatch s' = attempt dispatch s' k"
      "list_all (\<lambda>i. is_retry (snd (attempt dispatch s' i))) [0..<k]"
      "k = n \<or> is_retry (snd (attempt dispatch s' k)) = False" using Suc.IH [of s'] by blast
    have shift: "attempt dispatch s (Suc i) = attempt dispatch s' i" for i
      using d by (simp add: attempt_def funpow_Suc_right del: funpow.simps)
    have "retry_dispatch (Suc n) dispatch s = retry_dispatch n dispatch s'"
      using True d by (auto simp: retry_dispatch.simps [of "Suc n"] is_retry_def split: sum.splits storage_error.splits)
    moreover have "list_all (\<lambda>i. is_retry (snd (attempt dispatch s i))) [0..<Suc k]"
    proof -
      have "is_retry (snd (attempt dispatch s i))" if "i < Suc k" for i
        using that True d k(3) by (cases i) (auto simp: list_all_iff shift attempt_def [of _ s 0])
      then show ?thesis by (simp add: list_all_iff del: upt_Suc)
    qed
    ultimately show ?thesis using k shift by (intro exI [of _ "Suc k"]) auto
  qed
qed

subsection \<open>Invariant\<close>

definition kb_entry_ok :: "string \<Rightarrow> kb list \<Rightarrow> bool" where
  "kb_entry_ok n ks = (ks \<noteq> [] \<and> distinct (map kb_value ks) \<and> list_all (\<lambda>k. kb_key k = n) ks)"

definition dd_inv :: "default_dispatcher \<Rightarrow> bool" where
  "dd_inv st = (hm_wf (dd_vts st) \<and> distinct (dd_advisories st) \<and> hm_wf (dd_kbs st) \<and> hm_wf (dd_results st) \<and>
     (\<forall>c m. hm_get (dd_kbs st) c = Some m \<longrightarrow> hm_wf m \<and> (\<forall>n ks. hm_get m n = Some ks \<longrightarrow> kb_entry_ok n ks)))"

text \<open>The steps of the storage: every call that changes its state.\<close>

inductive dd_step :: "iter_orders \<Rightarrow> default_dispatcher \<Rightarrow> default_dispatcher \<Rightarrow> bool" for I where
  step_dispatch: "dd_step I st (fst (dd_dispatch key scope st))"
| step_replace: "dd_step I st (fst (dd_dispatch_replace key scope st))"
| step_on_exit: "dd_step I st (fst (dd_on_exit key st))"
| step_remove_kb: "dd_step I st (fst (remove_kb I key x st))"
| step_remove_result: "dd_step I st (fst (remove_result key i st))"
| step_remove_scan: "dd_step I st (fst (remove_scan I key st))"
| step_clean_vts: "dd_step I st (clean_vts st)"
| step_clean_advisories: "dd_step I st (clean_advisories st)"
| step_set_vts: "hm_wf vts \<Longrightarrow> dd_step I st (set_vts vts st)"

lemma dd_inv_cache_nvt_field: "dd_inv st \<Longrightarrow> dd_inv (cache_nvt_field f x st)"
  by (auto simp: cache_nvt_field_def dd_inv_def Let_def hm_wf_insert split: option.splits prod.splits sum.splits)

lemma dd_inv_cache_kb: "dd_inv st \<Longrightarrow> dd_inv (cache_kb c k st)"
  by (auto simp: cache_kb_def dd_inv_def hm_wf_insert kb_entry_ok_def list_ex_iff
      simp del: map_of_eq_Some_iff split: option.splits if_splits)

lemma dd_inv_replace_kb: "dd_inv st \<Longrightarrow> dd_inv (replace_kb c k st)"
  by (auto simp: replace_kb_def dd_inv_def hm_wf_insert kb_entry_ok_def
      simp del: map_of_eq_Some_iff split: option.splits if_splits)

lemma dd_inv_remove_kb: "dd_inv st \<Longrightarrow> dd_inv (fst (remove_kb I c x st))"
  by (auto simp: remove_kb_def dd_inv_def hm_wf_insert hm_wf_remove
      simp del: map_of_eq_Some_iff split: option.splits if_splits)

lemma dd_inv_remove_result: "dd_inv st \<Longrightarrow> dd_inv (fst (remove_result c i st))"
  by (auto simp: remove_result_def dd_inv_def Let_def hm_wf_insert hm_wf_remove split: option.splits)

lemma dd_inv_cache_result: "dd_inv st \<Longrightarrow> dd_inv (cache_result c r st)"
  by (auto simp: cache_result_def dd_inv_def hm_wf_insert split: option.splits)

lemma dd_inv_cache_advisory: "dd_inv st \<Longrightarrow> dd_inv (cache_notus_advisory a st)"
  by (auto simp: cache_notus_advisory_def dd_inv_def)

lemmas dd_inv_ops =
  dd_inv_cache_nvt_field dd_inv_cache_kb dd_inv_replace_kb dd_inv_remove_kb dd_inv_remove_result
  dd_inv_cache_result dd_inv_cache_advisory

lemma dd_inv_remove_scan: "dd_inv st \<Longrightarrow> dd_inv (fst (remove_scan I key st))"
  using dd_inv_remove_result [OF dd_inv_remove_kb, of st key None I key None]
  by (simp add: remove_scan_def Let_def case_prod_beta)

lemma dd_inv_step: "dd_step I st st' \<Longrightarrow> dd_inv st \<Longrightarrow> dd_inv st'"
  by (cases rule: dd_step.cases)
    (auto simp: dd_dispatch_def dd_dispatch_replace_def dd_on_exit_def dd_inv_ops dd_inv_remove_scan
      split: field.splits option.splits, auto simp: dd_inv_def clean_vts_def clean_advisories_def set_vts_def)

text \<open>
  C30: in every state the storage can reach from the empty one, the maps have one entry per key, the
  advisories are a set, and every stored list of knowledge base items is non-empty, has the key it is
  stored under, and holds no value twice.
\<close>

theorem dd_reachable_inv:
  assumes "(dd_step I)\<^sup>*\<^sup>* dd_new st"
  shows "dd_inv st"
  using assms
proof (induction rule: rtranclp_induct)
  case base
  show ?case by (simp add: dd_inv_def dd_new_def)
next
  case (step st st')
  then show ?case by (blast intro: dd_inv_step)
qed

theorem dd_reachable_inv_witness:
  "dd_inv (fst (dd_dispatch (Scan ''a'' None) (KB \<lparr>kb_key = ''k'', kb_value = PNull, kb_expire = None\<rparr>) dd_new))"
  by (rule dd_reachable_inv [of example_orders]) (blast intro: step_dispatch)

subsection \<open>The stored NVTs\<close>

definition field_of_file :: "string \<Rightarrow> nvt_field \<Rightarrow> bool" where
  "field_of_file f x = (case x of FileName s \<Rightarrow> s = f | Nvt _ \<Rightarrow> False | _ \<Rightarrow> True)"

definition dispatch_fields :: "(string \<times> nvt_field) list \<Rightarrow> default_dispatcher \<Rightarrow> default_dispatcher" where
  "dispatch_fields ds st = fold (\<lambda>(f, x) s. fst (dd_dispatch (CtxFileName f) (NVT x) s)) ds st"

definition fields_of :: "string \<Rightarrow> (string \<times> nvt_field) list \<Rightarrow> nvt_field list" where
  "fields_of f ds = filter (\<lambda>x. \<not> is_Version x) (group_of f ds)"

lemma set_from_field_Inl: "(\<exists>v. snd (set_from_field x n) = Inl v) \<longleftrightarrow> is_Version x"
  by (cases x) (simp_all add: set_from_field_def)

lemma set_from_field_Version: "is_Version x \<Longrightarrow> fst (set_from_field x n) = n"
  by (cases x) (simp_all add: set_from_field_def)

lemma set_from_field_filename:
  "field_of_file f x \<Longrightarrow> fst (set_from_field x (n\<lparr>nvt_filename := f\<rparr>)) = (fst (set_from_field x n))\<lparr>nvt_filename := f\<rparr>"
  by (cases x) (simp_all add: set_from_field_def field_of_file_def)

lemma cache_nvt_field_lookup:
  assumes "field_of_file f x" and "\<And>vt. hm_get (dd_vts st) f = Some vt \<Longrightarrow> nvt_filename vt = f"
  shows "hm_get (dd_vts (cache_nvt_field f x st)) =
     (if is_Version x then hm_get (dd_vts st)
      else (hm_get (dd_vts st))(f \<mapsto> (fst (set_from_field x
        (case hm_get (dd_vts st) f of Some vt \<Rightarrow> vt | None \<Rightarrow> nvt_default)))\<lparr>nvt_filename := f\<rparr>))"
proof (cases "hm_get (dd_vts st) f")
  case (Some vt)
  have "vt\<lparr>nvt_filename := f\<rparr> = vt" using assms(2) [OF Some] by simp
  with set_from_field_filename [OF assms(1), of vt]
  have "fst (set_from_field x vt) = (fst (set_from_field x vt))\<lparr>nvt_filename := f\<rparr>" by simp
  moreover obtain vt' r where s: "set_from_field x vt = (vt', r)" by (cases "set_from_field x vt")
  ultimately show ?thesis
  proof (cases r)
    case (Inl v)
    then have "is_Version x" "vt' = vt"
      using s set_from_field_Inl [of x vt] set_from_field_Version [of x vt] by auto
    then show ?thesis using Some s Inl by (simp add: cache_nvt_field_def fun_upd_idem)
  next
    case (Inr u)
    then have "\<not> is_Version x" using s set_from_field_Inl [of x vt] by auto
    then show ?thesis
      using Some s Inr \<open>fst (set_from_field x vt) = _\<close> by (simp add: cache_nvt_field_def)
  qed
next
  case None
  have "nvt_filename (fst (set_from_field x nvt_default)) = [] \<or> nvt_filename (fst (set_from_field x nvt_default)) = f"
    using assms(1) by (cases x) (simp_all add: set_from_field_def nvt_default_def field_of_file_def)
  moreover obtain n r where s: "set_from_field x nvt_default = (n, r)" by (cases "set_from_field x nvt_default")
  ultimately have name: "nvt_filename n = [] \<or> nvt_filename n = f" by simp
  show ?thesis
  proof (cases r)
    case (Inl v)
    then have "is_Version x" using s set_from_field_Inl [of x nvt_default] by auto
    then show ?thesis using None s Inl by (simp add: cache_nvt_field_def)
  next
    case (Inr u)
    then have "\<not> is_Version x" using s set_from_field_Inl [of x nvt_default] by auto
    then show ?thesis using None s Inr name by (auto simp: cache_nvt_field_def Let_def)
  qed
qed

lemma fields_of_append: "fields_of f (ds @ es) = fields_of f ds @ fields_of f es"
  by (simp add: fields_of_def)

lemma apply_fields_snoc: "apply_fields (fs @ [x]) n = fst (set_from_field x (apply_fields fs n))"
  by (simp add: apply_fields_def)

text \<open>
  After a feed update that dispatches fields under the file names of the scripts (each
  \<^verbatim>\<open>FileName\<close> field naming the script it is dispatched for), the NVT of a file is exactly the default
  NVT with the fields of that file applied in order and its file name set; fields of other files and
  feed versions do not touch it, and a file without fields has no entry.
\<close>

theorem dispatch_fields_lookup:
  assumes "list_all (\<lambda>(f, x). field_of_file f x) ds"
  shows "hm_get (dd_vts (dispatch_fields ds dd_new)) f =
     (if fields_of f ds = [] then None else Some ((apply_fields (fields_of f ds) nvt_default)\<lparr>nvt_filename := f\<rparr>))"
  using assms
proof (induction ds arbitrary: f rule: rev_induct)
  case (snoc d ds)
  obtain g x where d: "d = (g, x)" by (cases d)
  let ?st = "dispatch_fields ds dd_new"
  have IH: "hm_get (dd_vts ?st) h = (if fields_of h ds = [] then None
      else Some ((apply_fields (fields_of h ds) nvt_default)\<lparr>nvt_filename := h\<rparr>))" for h
    using snoc by simp
  have ok: "field_of_file g x" using snoc.prems d by simp
  have st: "dispatch_fields (ds @ [d]) dd_new = cache_nvt_field g x ?st"
    by (simp add: dispatch_fields_def d dd_dispatch_def)
  have look: "hm_get (dd_vts (cache_nvt_field g x ?st)) =
     (if is_Version x then hm_get (dd_vts ?st)
      else (hm_get (dd_vts ?st))(g \<mapsto> (fst (set_from_field x
        (case hm_get (dd_vts ?st) g of Some vt \<Rightarrow> vt | None \<Rightarrow> nvt_default)))\<lparr>nvt_filename := g\<rparr>))"
    by (rule cache_nvt_field_lookup [OF ok]) (auto simp: IH split: if_splits)
  have new: "fields_of h [d] = (if h = g \<and> \<not> is_Version x then [x] else [])" for h
    by (simp add: fields_of_def d)
  show ?case
    using set_from_field_filename [OF ok]
    by (auto simp: st look IH fields_of_append new apply_fields_snoc)
qed (simp add: dispatch_fields_def dd_new_def fields_of_def)

theorem dispatch_fields_lookup_witness:
  "hm_get (dd_vts (dispatch_fields [(''a.nasl'', FileName ''a.nasl''), (''b.nasl'', Oid ''2''), (''a.nasl'', Oid ''1'')] dd_new))
     ''a.nasl'' = Some (nvt_default\<lparr>nvt_oid := ''1'', nvt_filename := ''a.nasl''\<rparr>)"
  using dispatch_fields_lookup [of "[(''a.nasl'', FileName ''a.nasl''), (''b.nasl'', Oid ''2''), (''a.nasl'', Oid ''1'')]" "''a.nasl''"]
  by (simp add: field_of_file_def fields_of_def set_from_field_def nvt_default_def)

definition all_nvts :: "iter_orders \<Rightarrow> default_dispatcher \<Rightarrow> nvt set" where
  "all_nvts I st = snd ` set (dd_vts st) \<union> nvt_from_data (it_refs I) ` set (dd_advisories st)"

lemma set_all_vts: "iter_orders_ok I \<Longrightarrow> set (all_vts I st) = all_nvts I st"
  by (auto simp: all_vts_def all_nvts_def iter_orders_ok_def iteration_set)

text \<open>
  Looking NVTs up by fields finds exactly the stored NVTs and advisories that match one of the
  fields, each under the context of its file name, whatever order the hash maps iterate in.
\<close>

theorem retrieve_by_fields_complete:
  assumes "iter_orders_ok I"
  shows "\<exists>rs. retrieve_by_fields I flds (RetrieveNVT None) st = Ret rs \<and>
     set rs = {(CtxFileName (nvt_filename n), NVT (Nvt n)) | n. n \<in> all_nvts I st \<and> matches_any_field n flds}"
  using set_all_vts [OF assms] by (auto simp: retrieve_by_fields_def)

theorem retrieve_by_fields_complete_witness:
  "\<exists>rs. retrieve_by_fields example_orders [NVT (Oid ''1'')] (RetrieveNVT None)
       (dispatch_fields [(''a.nasl'', Oid ''1''), (''b.nasl'', Oid ''2'')] dd_new) = Ret rs \<and>
     set rs = {(CtxFileName ''a.nasl'', NVT (Nvt (nvt_default\<lparr>nvt_oid := ''1'', nvt_filename := ''a.nasl''\<rparr>)))}"
proof -
  have ok: "iter_orders_ok example_orders"
    by (simp add: iter_orders_ok_def example_orders_def iteration_id iteration_rev)
  let ?st = "dispatch_fields [(''a.nasl'', Oid ''1''), (''b.nasl'', Oid ''2'')] dd_new"
  have st: "dd_vts ?st = [(''a.nasl'', nvt_default\<lparr>nvt_oid := ''1'', nvt_filename := ''a.nasl''\<rparr>),
      (''b.nasl'', nvt_default\<lparr>nvt_oid := ''2'', nvt_filename := ''b.nasl''\<rparr>)]" "dd_advisories ?st = []"
    by (simp_all add: dispatch_fields_def dd_dispatch_def cache_nvt_field_def dd_new_def set_from_field_def nvt_default_def)
  have "{(CtxFileName (nvt_filename n), NVT (Nvt n)) | n. n \<in> all_nvts example_orders ?st \<and> matches_any_field n [NVT (Oid ''1'')]} =
      {(CtxFileName ''a.nasl'', NVT (Nvt (nvt_default\<lparr>nvt_oid := ''1'', nvt_filename := ''a.nasl''\<rparr>)))}"
    by (auto simp: all_nvts_def st matches_any_field_def matches_field_def)
  then show ?thesis using retrieve_by_fields_complete [OF ok, of "[NVT (Oid ''1'')]" ?st] by simp
qed

end
