(* ===== verification/Wave_Plan.thy ===== *)
theory Wave_Plan
  imports Nvt
begin

section \<open>Waves of scripts\<close>

text \<open>
  \<^verbatim>\<open>rust/src/scheduling/wave.rs\<close>: the scripts of one stage are laid out in waves. A script without
  dependencies goes into the first wave, any other into the wave after the last of its dependencies.
  The theory also holds the data of \<^verbatim>\<open>rust/src/scheduling/mod.rs\<close> the plan uses. The order in which a
  hash map of scripts is iterated is an argument.
\<close>

subsection \<open>Data\<close>

record parameter =
  param_id :: "16 word"
  param_value :: string

record scan_vt =
  svt_oid :: string
  svt_parameters :: "parameter list"

type_synonym runtime_vt = "nvt \<times> parameter list option"

datatype vt_error =
    DB storage_error
  | MissingDependencies nvt "string list"
  | InvalidStageIndex nat
  | VtNotFound string

type_synonym wave = "(string, runtime_vt) hashmap"

record wave_plan =
  wp_data :: "wave list"
  wp_dependencies_added :: bool

definition wave_plan_default :: wave_plan where
  "wave_plan_default = \<lparr>wp_data = [], wp_dependencies_added = False\<rparr>"

subsection \<open>Operations\<close>

definition insert_into :: "nat \<Rightarrow> string \<Rightarrow> runtime_vt \<Rightarrow> wave list \<Rightarrow> wave list" where
  "insert_into index key element data =
     (if length data \<le> index then data @ [hm_insert key element []]
      else data[index := hm_insert key element (data ! index)])"

definition wave_of :: "wave list \<Rightarrow> string \<Rightarrow> nat option" where
  "wave_of data n = position (\<lambda>x. hm_contains x n) data"

fun find_index_loop :: "wave list \<Rightarrow> string list \<Rightarrow> nat option \<Rightarrow> nat option" where
  "find_index_loop data [] result = result"
| "find_index_loop data (n # ns) result = (case wave_of data n of
      Some w \<Rightarrow>
        (let i = w + 1
         in find_index_loop data ns (case result of Some ci \<Rightarrow> if i > ci then Some i else Some ci | None \<Rightarrow> Some i))
    | None \<Rightarrow> None)"

definition find_index :: "wave list \<Rightarrow> nvt \<Rightarrow> nat option" where
  "find_index data vt =
     (if nvt_dependencies vt = [] then Some 0 else find_index_loop data (nvt_dependencies vt) None)"

text \<open>One pass over the dependencies: those whose own dependencies are placed are inserted, the rest is kept.\<close>

fun add_dependencies :: "nvt list \<Rightarrow> wave list \<Rightarrow> wave list \<times> nvt list" where
  "add_dependencies [] data = (data, [])"
| "add_dependencies (x # xs) data = (case find_index data x of
      Some i \<Rightarrow> add_dependencies xs (insert_into i (nvt_filename x) (x, None) data)
    | None \<Rightarrow> (case add_dependencies xs data of (data', rest) \<Rightarrow> (data', x # rest)))"

lemma add_dependencies_length: "length (snd (add_dependencies xs data)) \<le> length xs"
proof (induction xs arbitrary: data)
  case (Cons x xs)
  show ?case
    using Cons.IH [of data] Cons.IH [of "insert_into (the (find_index data x)) (nvt_filename x) (x, None) data"]
    by (cases "find_index data x") (simp_all add: case_prod_beta)
qed simp

lemma add_dependencies_unchanged:
  "length (snd (add_dependencies xs data)) = length xs \<Longrightarrow> add_dependencies xs data = (data, xs)"
proof (induction xs arbitrary: data)
  case (Cons x xs)
  show ?case
  proof (cases "find_index data x")
    case None
    with Cons.prems Cons.IH [of data] show ?thesis by (simp add: case_prod_beta)
  next
    case (Some i)
    with Cons.prems have "length (snd (add_dependencies xs (insert_into i (nvt_filename x) (x, None) data))) = Suc (length xs)"
      by simp
    then show ?thesis using add_dependencies_length [of xs "insert_into i (nvt_filename x) (x, None) data"] by simp
  qed
qed simp

function process_dependencies :: "nvt list \<Rightarrow> wave list \<Rightarrow> wave list" where
  "process_dependencies unprocessed data =
     (if unprocessed = [] then data
      else case add_dependencies unprocessed data of
        (data', rest) \<Rightarrow> if rest = unprocessed then data' else process_dependencies rest data')"
  by pat_completeness auto
termination
proof (relation "measure (\<lambda>(u, _). length u)", goal_cases)
  case (2 u data data' rest)
  then have r: "add_dependencies u data = (data', rest)" "rest \<noteq> u" by auto
  then have "length rest \<noteq> length u" using add_dependencies_unchanged [of u data] by auto
  moreover have "length rest \<le> length u" using add_dependencies_length [of u data] r by simp
  ultimately show ?case by simp
qed simp

declare process_dependencies.simps [simp del]

definition append_vt :: "((string \<times> nvt) list \<Rightarrow> (string \<times> nvt) list) \<Rightarrow> runtime_vt \<Rightarrow> (string, nvt) hashmap \<Rightarrow> wave_plan \<Rightarrow>
    wave_plan \<times> (vt_error + unit)" where
  "append_vt it vt dependencies plan =
     (let data = (if wp_dependencies_added plan then wp_data plan
                  else case add_dependencies (map snd (it dependencies)) (wp_data plan) of
                    (data', rest) \<Rightarrow> process_dependencies rest data');
          key = nvt_filename (fst vt)
      in case find_index data (fst vt) of
        Some i \<Rightarrow> (\<lparr>wp_data = insert_into i key vt data, wp_dependencies_added = True\<rparr>, Inr ())
      | None \<Rightarrow>
          (\<lparr>wp_data = data, wp_dependencies_added = True\<rparr>,
           Inl (MissingDependencies (fst vt)
             (filter (\<lambda>x. \<not> list_ex (\<lambda>y. hm_contains y x) data) (nvt_dependencies (fst vt))))))"

definition wave_next :: "(wave \<Rightarrow> wave) \<Rightarrow> wave_plan \<Rightarrow> wave_plan \<times> (vt_error + runtime_vt list) option" where
  "wave_next it plan = (case wp_data plan of
      [] \<Rightarrow> (plan, None)
    | x # rest \<Rightarrow> (plan\<lparr>wp_data := rest\<rparr>, Some (Inr (map snd (it x)))))"

subsection \<open>The index of a script\<close>

lemma wave_of_Some: "wave_of data n = Some i \<Longrightarrow> i < length data \<and> hm_contains (data ! i) n"
proof -
  assume "wave_of data n = Some i"
  from position_split [OF this [unfolded wave_of_def]] obtain us x vs where
    "data = us @ x # vs" "length us = i" "hm_contains x n" by blast
  then show ?thesis by auto
qed

lemma wave_of_None: "wave_of data n = None \<longleftrightarrow> list_all (\<lambda>x. \<not> hm_contains x n) data"
  by (simp add: wave_of_def position_None)

lemma wave_of_le: "i < length data \<Longrightarrow> hm_contains (data ! i) n \<Longrightarrow> \<exists>j \<le> i. wave_of data n = Some j"
proof (induction data arbitrary: i)
  case (Cons x data)
  show ?case
  proof (cases "hm_contains x n")
    case False
    with Cons.prems obtain k where k: "i = Suc k" "k < length data" "hm_contains (data ! k) n" by (cases i) auto
    with Cons.IH [of k] obtain j where "j \<le> k" "wave_of data n = Some j" by blast
    with False k show ?thesis by (auto simp: wave_of_def)
  qed (auto simp: wave_of_def)
qed simp

lemma find_index_loop_None:
  "find_index_loop data ns result = None \<longleftrightarrow> (ns = [] \<and> result = None) \<or> (\<exists>n\<in>set ns. wave_of data n = None)"
proof (induction ns arbitrary: result)
  case (Cons n ns)
  show ?case by (cases "wave_of data n"; cases result) (auto simp: Let_def Cons.IH)
qed simp

lemma find_index_loop_Some:
  "find_index_loop data ns result = Some i \<Longrightarrow>
     (\<forall>n\<in>set ns. \<exists>w. wave_of data n = Some w \<and> w < i) \<and> (\<forall>r. result = Some r \<longrightarrow> r \<le> i) \<and>
     ((\<exists>n\<in>set ns. wave_of data n = Some (i - 1) \<and> 0 < i) \<or> result = Some i)"
proof (induction ns arbitrary: result)
  case (Cons n ns)
  then obtain w where w: "wave_of data n = Some w" by (auto split: option.splits)
  let ?r = "case result of Some ci \<Rightarrow> if w + 1 > ci then Some (w + 1) else Some ci | None \<Rightarrow> Some (w + 1)"
  have "find_index_loop data ns ?r = Some i" using Cons.prems w by (simp only: find_index_loop.simps option.case Let_def)
  from Cons.IH [OF this] w show ?case by (cases result) (auto split: if_splits)
qed auto

text \<open>The index is one above the highest wave of a dependency, and there is none while a dependency is not placed.\<close>

lemma find_index_Some:
  "find_index data vt = Some i \<Longrightarrow>
     (\<forall>d\<in>set (nvt_dependencies vt). \<exists>w. wave_of data d = Some w \<and> w < i) \<and>
     (i = 0 \<longrightarrow> nvt_dependencies vt = []) \<and>
     (0 < i \<longrightarrow> (\<exists>d\<in>set (nvt_dependencies vt). wave_of data d = Some (i - 1)))"
  using find_index_loop_Some [of data "nvt_dependencies vt" None i]
  by (auto simp: find_index_def split: if_splits)

lemma find_index_None: "find_index data vt = None \<longleftrightarrow> (\<exists>d\<in>set (nvt_dependencies vt). wave_of data d = None)"
  by (auto simp: find_index_def find_index_loop_None)

lemma find_index_cong:
  assumes "\<And>d. d \<in> set (nvt_dependencies vt) \<Longrightarrow> wave_of data d = wave_of data' d"
    and "nvt_dependencies vt' = nvt_dependencies vt"
  shows "find_index data' vt' = find_index data vt"
proof -
  have "(\<forall>d\<in>set ns. wave_of data d = wave_of data' d) \<Longrightarrow> find_index_loop data' ns r = find_index_loop data ns r" for ns r
    by (induction ns arbitrary: r) (simp_all add: Let_def split: option.splits)
  with assms show ?thesis by (simp add: find_index_def)
qed

lemma find_index_le_length: "find_index data vt = Some i \<Longrightarrow> i \<le> length data"
  using find_index_Some [of data vt i] wave_of_Some by (cases i) (auto, fastforce)

subsection \<open>Inserting a script\<close>

lemma length_insert_into: "i \<le> length data \<Longrightarrow> length (insert_into i k e data) = max (length data) (Suc i)"
  by (auto simp: insert_into_def)

lemma insert_into_get:
  "i \<le> length data \<Longrightarrow> j < length (insert_into i k e data) \<Longrightarrow>
   hm_get (insert_into i k e data ! j) =
     (if j = i then (if i < length data then hm_get (data ! i) else Map.empty)(k \<mapsto> e) else hm_get (data ! j))"
  by (auto simp: insert_into_def nth_append nth_list_update)

lemma insert_into_wf: "list_all hm_wf data \<Longrightarrow> list_all hm_wf (insert_into i k e data)"
  by (auto simp: insert_into_def list_all_length nth_append nth_list_update hm_wf_insert)

lemma wave_of_insert:
  assumes "i \<le> length data" and "wave_of data k = None \<or> wave_of data k = Some i"
  shows "wave_of (insert_into i k e data) n = (if n = k then Some i else wave_of data n)"
proof (cases "wave_of (insert_into i k e data) n")
  case None
  have k: "n \<noteq> k"
  proof
    assume "n = k"
    have "hm_contains (insert_into i k e data ! i) k" "i < length (insert_into i k e data)"
      using assms(1) by (simp_all add: insert_into_get length_insert_into)
    then show False using wave_of_le [of i "insert_into i k e data" k] None \<open>n = k\<close> by auto
  qed
  have "\<not> hm_contains (data ! j) n" if "j < length data" for j
  proof -
    have "j < length (insert_into i k e data)" using that assms(1) by (simp add: length_insert_into)
    then have "\<not> hm_contains (insert_into i k e data ! j) n"
      using wave_of_le [of j "insert_into i k e data" n] None by auto
    then show ?thesis using k that assms(1) \<open>j < length (insert_into i k e data)\<close>
      by (auto simp: insert_into_get split: if_splits)
  qed
  then have "wave_of data n = None" by (auto simp: wave_of_None list_all_length)
  with None k show ?thesis by simp
next
  case (Some w)
  have w: "w < length (insert_into i k e data)" "hm_contains (insert_into i k e data ! w) n"
    using wave_of_Some [OF Some] by auto
  have least: "\<not> hm_contains (insert_into i k e data ! j) n" if "j < w" for j
    using wave_of_le [of j "insert_into i k e data" n] that w(1) Some by fastforce
  have old: "w < length data \<and> hm_contains (data ! w) n" if "w \<noteq> i \<or> n \<noteq> k"
    using w that assms(1) by (auto simp: insert_into_get length_insert_into split: if_splits)
  show ?thesis
  proof (cases "n = k")
    case True
    have "w = i"
    proof (rule ccontr)
      assume "w \<noteq> i"
      then obtain j where "j \<le> w" "wave_of data k = Some j" using old wave_of_le [of w data k] True by auto
      then have "j = i" using assms(2) by simp
      moreover have "\<not> i < w" using least [of i] assms(1) True by (auto simp: insert_into_get length_insert_into)
      ultimately show False using \<open>j \<le> w\<close> \<open>w \<noteq> i\<close> by simp
    qed
    then show ?thesis using Some True by simp
  next
    case False
    then have d: "w < length data" "hm_contains (data ! w) n" using old by auto
    obtain j where j: "j \<le> w" "wave_of data n = Some j" using wave_of_le [OF d] by blast
    have "hm_contains (data ! j) n" "j < length data" using wave_of_Some [OF j(2)] by auto
    then have "hm_contains (insert_into i k e data ! j) n"
      using False assms(1) by (auto simp: insert_into_get length_insert_into)
    then have "j = w" using least [of j] j(1) by (metis le_neq_implies_less)
    then show ?thesis using False j Some by simp
  qed
qed

subsection \<open>The invariant of a plan\<close>

text \<open>
  The dependencies of a script are a function \<open>D\<close> of its file name (the feed). In a plan every script
  is stored under its file name, in one wave only, and that wave is the index of the script.
\<close>

definition consistent :: "(string \<Rightarrow> string list) \<Rightarrow> nvt \<Rightarrow> bool" where
  "consistent D x = (nvt_dependencies x = D (nvt_filename x))"

definition waves_inv :: "(string \<Rightarrow> string list) \<Rightarrow> wave list \<Rightarrow> bool" where
  "waves_inv D data = (list_all hm_wf data \<and>
     (\<forall>i < length data. \<forall>k vt p. hm_get (data ! i) k = Some (vt, p) \<longrightarrow>
        k = nvt_filename vt \<and> consistent D vt \<and> find_index data vt = Some i \<and> wave_of data k = Some i))"

lemma waves_inv_Nil [simp]: "waves_inv D []"
  by (simp add: waves_inv_def)

lemma waves_invD:
  "waves_inv D data \<Longrightarrow> i < length data \<Longrightarrow> hm_get (data ! i) k = Some (vt, p) \<Longrightarrow>
   k = nvt_filename vt \<and> consistent D vt \<and> find_index data vt = Some i \<and> wave_of data k = Some i"
  unfolding waves_inv_def by blast

lemma waves_inv_insert:
  assumes inv: "waves_inv D data" and cons: "consistent D x" and idx: "find_index data x = Some i"
  shows "waves_inv D (insert_into i (nvt_filename x) (x, p) data)" (is "waves_inv D ?new")
proof -
  let ?k = "nvt_filename x"
  have le: "i \<le> length data" using find_index_le_length [OF idx] .
  have same: "wave_of data ?k = None \<or> wave_of data ?k = Some i"
  proof (cases "wave_of data ?k")
    case (Some j)
    from wave_of_Some [OF this] have j: "j < length data" "hm_contains (data ! j) ?k" by auto
    from j(2) obtain vt q where e: "hm_get (data ! j) ?k = Some (vt, q)" by (cases "hm_get (data ! j) ?k") auto
    have vt: "?k = nvt_filename vt" "consistent D vt" "find_index data vt = Some j"
      using waves_invD [OF inv j(1) e] by auto
    then have "find_index data x = find_index data vt"
      using cons by (intro find_index_cong) (simp_all add: consistent_def)
    with vt idx Some show ?thesis by simp
  qed simp
  note wave = wave_of_insert [OF le same, of "(x, p)"]
  have keep: "find_index ?new vt = find_index data vt" if f: "find_index data vt = Some j" for vt j
  proof (rule find_index_cong)
    fix d
    assume "d \<in> set (nvt_dependencies vt)"
    then obtain w where "wave_of data d = Some w" using find_index_Some [OF f] by blast
    then show "wave_of data d = wave_of ?new d" using wave [of d] same by auto
  qed simp
  have "k = nvt_filename vt \<and> consistent D vt \<and> find_index ?new vt = Some j \<and> wave_of ?new k = Some j"
    if j: "j < length ?new" and get: "hm_get (?new ! j) k = Some (vt, q)" for j k vt q
  proof (cases "j = i \<and> k = ?k")
    case True
    then have "vt = x" using get insert_into_get [OF le j] by simp
    then show ?thesis using True cons wave [of ?k] keep [OF idx] idx by simp
  next
    case False
    have get': "(if j = i then (if i < length data then hm_get (data ! i) else Map.empty)(?k \<mapsto> (x, p))
        else hm_get (data ! j)) k = Some (vt, q)"
      using get insert_into_get [OF le j] by simp
    have old: "j < length data \<and> hm_get (data ! j) k = Some (vt, q)"
    proof (cases "j = i")
      case True
      then have "k \<noteq> ?k" using False by simp
      then show ?thesis using get' True by (cases "i < length data") simp_all
    next
      case other: False
      then show ?thesis using get' j le length_insert_into [OF le] by simp
    qed
    have "k = nvt_filename vt" "consistent D vt" "find_index data vt = Some j" "wave_of data k = Some j"
      using waves_invD [OF inv, of j k vt q] old by auto
    moreover have "k \<noteq> ?k" using False same \<open>wave_of data k = Some j\<close> by auto
    ultimately show ?thesis using keep [of vt j] wave [of k] by simp
  qed
  moreover have "list_all hm_wf ?new"
    using inv insert_into_wf [of data i ?k "(x, p)"] by (simp add: waves_inv_def)
  ultimately show ?thesis unfolding waves_inv_def by blast
qed

lemma add_dependencies_inv:
  "waves_inv D data \<Longrightarrow> list_all (consistent D) xs \<Longrightarrow> waves_inv D (fst (add_dependencies xs data))"
proof (induction xs arbitrary: data)
  case (Cons x xs)
  then show ?case
    by (cases "find_index data x") (simp_all add: case_prod_beta waves_inv_insert)
qed simp

lemma add_dependencies_rest: "set (snd (add_dependencies xs data)) \<subseteq> set xs"
  by (induction xs arbitrary: data) (auto simp: case_prod_beta split: option.splits)

lemma process_dependencies_inv:
  "waves_inv D data \<Longrightarrow> list_all (consistent D) xs \<Longrightarrow> waves_inv D (process_dependencies xs data)"
proof (induction xs data rule: process_dependencies.induct)
  case (1 xs data)
  obtain data' rest where r: "add_dependencies xs data = (data', rest)" by (cases "add_dependencies xs data")
  have inv: "waves_inv D data'" using add_dependencies_inv [OF "1.prems"] r by simp
  have "list_all (consistent D) rest" using add_dependencies_rest [of xs data] "1.prems"(2) r by (auto simp: list_all_iff)
  then show ?case
    using 1 r inv by (auto simp: process_dependencies.simps [of xs])
qed

definition dependencies_consistent :: "(string \<Rightarrow> string list) \<Rightarrow> (string, nvt) hashmap \<Rightarrow> bool" where
  "dependencies_consistent D deps = list_all (\<lambda>x. consistent D (snd x)) deps"

lemma append_vt_data_inv:
  assumes "iteration it" "waves_inv D (wp_data plan)" "dependencies_consistent D deps"
  shows "waves_inv D (case add_dependencies (map snd (it deps)) (wp_data plan) of
      (data', rest) \<Rightarrow> process_dependencies rest data')"
proof -
  have cons: "list_all (consistent D) (map snd (it deps))"
    using assms(3) iteration_set [OF assms(1), of deps] by (simp add: dependencies_consistent_def list_all_iff)
  have "list_all (consistent D) (snd (add_dependencies (map snd (it deps)) (wp_data plan)))"
    using add_dependencies_rest [of "map snd (it deps)" "wp_data plan"] cons unfolding list_all_iff by blast
  then show ?thesis
    using process_dependencies_inv [OF add_dependencies_inv [OF assms(2) cons]] by (simp add: case_prod_beta)
qed

lemma append_vt_inv:
  assumes "iteration it" "waves_inv D (wp_data plan)" "dependencies_consistent D deps" "consistent D (fst vt)"
  shows "waves_inv D (wp_data (fst (append_vt it vt deps plan)))"
proof -
  let ?data = "if wp_dependencies_added plan then wp_data plan
    else case add_dependencies (map snd (it deps)) (wp_data plan) of (data', rest) \<Rightarrow> process_dependencies rest data'"
  have inv: "waves_inv D ?data" using assms append_vt_data_inv [OF assms(1-3)] by simp
  show ?thesis
  proof (cases "find_index ?data (fst vt)")
    case None
    then show ?thesis using inv by (simp add: append_vt_def Let_def)
  next
    case (Some i)
    from waves_inv_insert [OF inv assms(4) Some, of "snd vt"] Some
    show ?thesis by (simp add: append_vt_def Let_def)
  qed
qed

fun append_all :: "((string \<times> nvt) list \<Rightarrow> (string \<times> nvt) list) \<Rightarrow> runtime_vt list \<Rightarrow> (string, nvt) hashmap \<Rightarrow> wave_plan \<Rightarrow> wave_plan" where
  "append_all it [] deps plan = plan"
| "append_all it (vt # vts) deps plan = append_all it vts deps (fst (append_vt it vt deps plan))"

lemma append_all_inv:
  "iteration it \<Longrightarrow> waves_inv D (wp_data plan) \<Longrightarrow> dependencies_consistent D deps \<Longrightarrow>
   list_all (\<lambda>vt. consistent D (fst vt)) vts \<Longrightarrow> waves_inv D (wp_data (append_all it vts deps plan))"
  by (induction vts arbitrary: plan) (simp_all add: append_vt_inv)

lemma waves_inv_layout:
  assumes "waves_inv D data" "i < length data" "hm_get (data ! i) k = Some (vt, p)"
  shows "nvt_filename vt = k \<and> (\<forall>j < length data. hm_contains (data ! j) k \<longrightarrow> i \<le> j) \<and>
     (\<forall>d\<in>set (nvt_dependencies vt). \<exists>w < i. hm_contains (data ! w) d) \<and>
     (0 < i \<longrightarrow> (\<exists>d\<in>set (nvt_dependencies vt). hm_contains (data ! (i - 1)) d))"
proof -
  have facts: "k = nvt_filename vt" "find_index data vt = Some i" "wave_of data k = Some i"
    using waves_invD [OF assms] by auto
  note idx = find_index_Some [OF facts(2)]
  have "i \<le> j" if "j < length data" "hm_contains (data ! j) k" for j
    using wave_of_le [OF that] facts(3) by auto
  moreover have "\<exists>w < i. hm_contains (data ! w) d" if "d \<in> set (nvt_dependencies vt)" for d
    using idx that wave_of_Some by blast
  ultimately show ?thesis using facts(1) idx wave_of_Some by blast
qed

text \<open>
  C29: after any sequence of \<^verbatim>\<open>append_vt\<close> calls on a new plan, with the dependencies of a script a
  function of its file name, every script of the plan is in exactly one wave, each of its
  dependencies is in an earlier wave, and one of them in the wave just before: its wave is the
  smallest possible.
\<close>

theorem wave_plan_layout:
  assumes "iteration it" and "dependencies_consistent D deps" and "list_all (\<lambda>vt. consistent D (fst vt)) vts"
    and "data = wp_data (append_all it vts deps wave_plan_default)"
    and "i < length data" and "hm_get (data ! i) k = Some (vt, p)"
  shows "nvt_filename vt = k \<and> (\<forall>j < length data. hm_contains (data ! j) k \<longrightarrow> j = i) \<and>
     (\<forall>d\<in>set (nvt_dependencies vt). \<exists>w < i. hm_contains (data ! w) d) \<and>
     (0 < i \<longrightarrow> (\<exists>d\<in>set (nvt_dependencies vt). hm_contains (data ! (i - 1)) d))"
proof -
  have inv: "waves_inv D data"
    using append_all_inv [OF assms(1) _ assms(2,3), of wave_plan_default] assms(4) by (simp add: wave_plan_default_def)
  have "j = i" if j: "j < length data" "hm_contains (data ! j) k" for j
  proof -
    obtain vt' p' where "hm_get (data ! j) k = Some (vt', p')" using j(2) by fastforce
    then have "j \<le> i" using waves_inv_layout [OF inv j(1)] assms(5,6) by blast
    then show ?thesis using waves_inv_layout [OF inv assms(5,6)] j by force
  qed
  then show ?thesis using waves_inv_layout [OF inv assms(5,6)] by blast
qed

definition example_script :: "string \<Rightarrow> string list \<Rightarrow> nvt" where
  "example_script f ds = nvt_default\<lparr>nvt_filename := f, nvt_dependencies := ds\<rparr>"

definition example_deps :: "string \<Rightarrow> string list" where
  "example_deps f = (if f = ''b'' then [''a''] else if f = ''c'' then [''a'', ''b''] else [])"

lemma example_script_simps [simp]:
  "nvt_filename (example_script f ds) = f" "nvt_dependencies (example_script f ds) = ds"
  by (simp_all add: example_script_def)

lemma example_plan:
  "wp_data (append_all rev [(example_script ''c'' [''a'', ''b''], Some [])]
     [(''b'', example_script ''b'' [''a'']), (''a'', example_script ''a'' [])] wave_plan_default) =
   [[(''a'', (example_script ''a'' [], None))], [(''b'', (example_script ''b'' [''a''], None))],
    [(''c'', (example_script ''c'' [''a'', ''b''], Some []))]]"
  by (simp add: append_vt_def wave_plan_default_def find_index_def wave_of_def insert_into_def process_dependencies.simps)

theorem wave_plan_layout_witness:
  "\<exists>w < 2. hm_contains ([[(''a'', (example_script ''a'' [], None))], [(''b'', (example_script ''b'' [''a''], None))],
    [(''c'', (example_script ''c'' [''a'', ''b''], Some [] :: parameter list option))]] ! w) ''b''"
proof -
  let ?deps = "[(''b'', example_script ''b'' [''a'']), (''a'', example_script ''a'' [])]"
  let ?vts = "[(example_script ''c'' [''a'', ''b''], Some [])]"
  have deps: "dependencies_consistent example_deps ?deps" and vts: "list_all (\<lambda>vt. consistent example_deps (fst vt)) ?vts"
    by (simp_all add: dependencies_consistent_def consistent_def example_deps_def)
  show ?thesis
    using wave_plan_layout [OF iteration_rev deps vts example_plan [symmetric], of 2 "''c''"] by simp
qed

subsection \<open>What is placed\<close>

lemma wave_of_insert_mono:
  "wave_of data n \<noteq> None \<or> n = k \<Longrightarrow> wave_of (insert_into i k e data) n \<noteq> None"
  by (cases "i < length data")
    (auto simp: wave_of_None insert_into_def list_all_length nth_append nth_list_update split: if_splits)

lemma add_dependencies_mono: "wave_of data n \<noteq> None \<Longrightarrow> wave_of (fst (add_dependencies xs data)) n \<noteq> None"
proof (induction xs arbitrary: data)
  case (Cons x xs)
  show ?case
  proof (cases "find_index data x")
    case None
    then show ?thesis using Cons.IH [OF Cons.prems] by (simp add: case_prod_beta)
  next
    case (Some i)
    have "wave_of (insert_into i (nvt_filename x) (x, None) data) n \<noteq> None"
      using Cons.prems by (intro wave_of_insert_mono) simp
    from Cons.IH [OF this] Some show ?thesis by simp
  qed
qed simp

lemma add_dependencies_placed:
  "x \<in> set xs \<Longrightarrow> x \<in> set (snd (add_dependencies xs data)) \<or> wave_of (fst (add_dependencies xs data)) (nvt_filename x) \<noteq> None"
proof (induction xs arbitrary: data)
  case (Cons y xs)
  show ?case
  proof (cases "find_index data y")
    case None
    then show ?thesis using Cons.prems Cons.IH [of data] by (auto simp: case_prod_beta)
  next
    case (Some i)
    have "wave_of (insert_into i (nvt_filename y) (y, None) data) (nvt_filename y) \<noteq> None"
      by (rule wave_of_insert_mono) simp
    from add_dependencies_mono [OF this] Some Cons.prems Cons.IH show ?thesis by auto
  qed
qed simp

lemma add_dependencies_stuck: "add_dependencies xs data = (data', xs) \<Longrightarrow> list_all (\<lambda>x. find_index data x = None) xs"
proof (induction xs arbitrary: data')
  case (Cons x xs)
  have same: "add_dependencies (x # xs) data = (data, x # xs)"
    using add_dependencies_unchanged [of "x # xs" data] Cons.prems by simp
  have none: "find_index data x = None"
  proof (rule ccontr)
    assume "find_index data x \<noteq> None"
    then obtain i where "find_index data x = Some i" by auto
    then have "length (snd (add_dependencies (x # xs) data)) \<le> length xs"
      using add_dependencies_length [of xs "insert_into i (nvt_filename x) (x, None) data"] by simp
    then show False using same by simp
  qed
  then have "add_dependencies xs data = (data, xs)" using same by (simp add: case_prod_beta prod_eq_iff)
  from Cons.IH [OF this] none show ?case by simp
qed simp

lemma process_dependencies_mono: "wave_of data n \<noteq> None \<Longrightarrow> wave_of (process_dependencies xs data) n \<noteq> None"
proof (induction xs data rule: process_dependencies.induct)
  case (1 xs data)
  obtain data' rest where r: "add_dependencies xs data = (data', rest)" by (cases "add_dependencies xs data")
  have "wave_of data' n \<noteq> None" using add_dependencies_mono [OF "1.prems", of xs] r by simp
  then show ?case using 1 r by (simp add: process_dependencies.simps [of xs])
qed

text \<open>
  The loop that places the dependencies ends, and it places all that can be placed: a dependency
  it leaves out has itself a dependency that is not in the plan (because it is unknown or part of a
  cycle).
\<close>

theorem process_dependencies_maximal:
  assumes "x \<in> set xs"
  shows "wave_of (process_dependencies xs data) (nvt_filename x) = None \<longrightarrow>
     (\<exists>d\<in>set (nvt_dependencies x). wave_of (process_dependencies xs data) d = None)"
  using assms
proof (induction xs data rule: process_dependencies.induct)
  case (1 xs data)
  obtain data' rest where r: "add_dependencies xs data = (data', rest)" by (cases "add_dependencies xs data")
  have ne: "xs \<noteq> []" using "1.prems" by auto
  show ?case
  proof (cases "rest = xs")
    case True
    then have "data' = data" using add_dependencies_unchanged [of xs data] r by simp
    moreover have "find_index data x = None" using add_dependencies_stuck [of xs data data'] r True "1.prems" by (simp add: list_all_iff)
    ultimately show ?thesis using True r ne by (simp add: process_dependencies.simps [of xs] find_index_None)
  next
    case False
    have p: "process_dependencies xs data = process_dependencies rest data'"
      using False r ne by (simp add: process_dependencies.simps [of xs])
    show ?thesis
    proof (cases "x \<in> set rest")
      case True
      then show ?thesis using "1.IH" [OF ne r [symmetric] False] p by simp
    next
      case other: False
      then have "wave_of data' (nvt_filename x) \<noteq> None" using add_dependencies_placed [OF "1.prems", of data] r by simp
      then show ?thesis using process_dependencies_mono [of data' "nvt_filename x" rest] p by auto
    qed
  qed
qed

theorem process_dependencies_maximal_witness:
  "\<exists>d\<in>{''z''}. wave_of (process_dependencies [example_script ''y'' [''z''], example_script ''b'' [''a''], example_script ''a'' []] []) d = None"
proof -
  let ?xs = "[example_script ''y'' [''z''], example_script ''b'' [''a''], example_script ''a'' []]"
  have "wave_of (process_dependencies ?xs []) ''y'' = None"
    by (simp add: process_dependencies.simps find_index_def wave_of_def insert_into_def example_script_def)
  then show ?thesis
    using process_dependencies_maximal [of "example_script ''y'' [''z'']" ?xs "[]"] by simp
qed

text \<open>
  \<^verbatim>\<open>append_vt\<close> fails exactly when a dependency of the script is not in the plan; the error names the
  script and exactly its missing dependencies, in order, and the plan is left without the script.
  Otherwise the script is in the plan afterwards, with its parameters.
\<close>

theorem append_vt_outcome:
  "case append_vt it vt deps plan of
     (plan', Inl e) \<Rightarrow>
       e = MissingDependencies (fst vt) (filter (\<lambda>d. wave_of (wp_data plan') d = None) (nvt_dependencies (fst vt))) \<and>
       (\<exists>d. d \<in> set (nvt_dependencies (fst vt)) \<and> wave_of (wp_data plan') d = None)
   | (plan', Inr _) \<Rightarrow> \<exists>i < length (wp_data plan'). hm_get (wp_data plan' ! i) (nvt_filename (fst vt)) = Some vt"
proof -
  let ?data = "if wp_dependencies_added plan then wp_data plan
    else case add_dependencies (map snd (it deps)) (wp_data plan) of (data', rest) \<Rightarrow> process_dependencies rest data'"
  have missing: "(\<not> list_ex (\<lambda>y. hm_contains y d) data) = (wave_of data d = None)" for d and data :: "wave list"
    by (induction data) (auto simp: wave_of_None)
  show ?thesis
  proof (cases "find_index ?data (fst vt)")
    case None
    moreover from None have "\<exists>d\<in>set (nvt_dependencies (fst vt)). wave_of ?data d = None" by (simp only: find_index_None)
    ultimately show ?thesis unfolding append_vt_def Let_def missing by auto
  next
    case (Some i)
    from find_index_le_length [OF Some] have "i < length (insert_into i (nvt_filename (fst vt)) vt ?data)"
      and "hm_get (insert_into i (nvt_filename (fst vt)) vt ?data ! i) (nvt_filename (fst vt)) = Some vt"
      by (simp_all add: length_insert_into insert_into_get)
    with Some show ?thesis unfolding append_vt_def Let_def by auto
  qed
qed

subsection \<open>Waves are not empty\<close>

lemma insert_into_nonempty: "[] \<notin> set data \<Longrightarrow> [] \<notin> set (insert_into i k e data)"
proof -
  have ne: "[] \<noteq> hm_insert k e m" for m :: wave by (cases m) auto
  show "[] \<notin> set data \<Longrightarrow> [] \<notin> set (insert_into i k e data)"
    by (auto simp: insert_into_def ne dest!: set_update_subset_insert [THEN subsetD])
qed

lemma add_dependencies_nonempty: "[] \<notin> set data \<Longrightarrow> [] \<notin> set (fst (add_dependencies xs data))"
proof (induction xs arbitrary: data)
  case (Cons x xs)
  then show ?case by (cases "find_index data x") (simp_all add: case_prod_beta insert_into_nonempty)
qed simp

lemma process_dependencies_nonempty: "[] \<notin> set data \<Longrightarrow> [] \<notin> set (process_dependencies xs data)"
proof (induction xs data rule: process_dependencies.induct)
  case (1 xs data)
  obtain data' rest where r: "add_dependencies xs data = (data', rest)" by (cases "add_dependencies xs data")
  have "[] \<notin> set data'" using add_dependencies_nonempty [OF "1.prems", of xs] r by simp
  then show ?case using 1 r by (auto simp: process_dependencies.simps [of xs])
qed

lemma append_vt_nonempty:
  "[] \<notin> set (wp_data plan) \<Longrightarrow> [] \<notin> set (wp_data (fst (append_vt it vt deps plan)))"
  by (simp add: append_vt_def Let_def case_prod_beta insert_into_nonempty process_dependencies_nonempty
    add_dependencies_nonempty split: option.split)

end
