(* ===== verification/Scheduling.thy ===== *)
theory Scheduling
  imports Storage Wave_Plan
begin

section \<open>Planning a scan\<close>

text \<open>
  \<^verbatim>\<open>rust/src/scheduling/mod.rs\<close>: from the VTs of a scan to the sequence of lists of scripts that may run
  concurrently. The planner looks the VTs up, collects their dependencies transitively, and lays the
  VTs of each of the four stages out with a \<^verbatim>\<open>WaveExecutionPlan\<close>. It works on any \<^verbatim>\<open>Retriever\<close>; the
  retriever is an argument, and the locale \<open>nvt_retriever\<close> is what the planner relies on.
\<close>

subsection \<open>Stages\<close>

datatype stage = Discovery | NonEvasive | Exhausting | EndStage

definition stage_display :: "stage \<Rightarrow> string" where
  "stage_display s = (case s of
      Discovery \<Rightarrow> ''discovery'' | NonEvasive \<Rightarrow> ''non_evasive'' | Exhausting \<Rightarrow> ''exhausting'' | EndStage \<Rightarrow> ''end'')"

definition stage_from :: "nvt \<Rightarrow> stage" where
  "stage_from n = (case nvt_category n of
      Init \<Rightarrow> Discovery | Scanner \<Rightarrow> Discovery | Settings \<Rightarrow> Discovery | GatherInfo \<Rightarrow> Discovery
    | Attack \<Rightarrow> NonEvasive | MixedAttack \<Rightarrow> NonEvasive
    | DestructiveAttack \<Rightarrow> Exhausting | Denial \<Rightarrow> Exhausting | KillHost \<Rightarrow> Exhausting | Flood \<Rightarrow> Exhausting
    | End \<Rightarrow> EndStage)"

definition stage_to_usize :: "stage \<Rightarrow> nat" where
  "stage_to_usize s = (case s of Discovery \<Rightarrow> 0 | NonEvasive \<Rightarrow> 1 | Exhausting \<Rightarrow> 2 | EndStage \<Rightarrow> 3)"

definition stage_try_from :: "nat \<Rightarrow> vt_error + stage" where
  "stage_try_from i =
     (if i = 0 then Inr Discovery else if i = 1 then Inr NonEvasive else if i = 2 then Inr Exhausting
      else if i = 3 then Inr EndStage else Inl (InvalidStageIndex i))"

subsection \<open>The iterator over the stages\<close>

record plan_data =
  pd_data :: "wave_plan list"
  pd_idx :: nat

definition plan_data_new :: "wave_plan list \<Rightarrow> plan_data" where
  "plan_data_new data = \<lparr>pd_data = data, pd_idx = 0\<rparr>"

function plan_next :: "(wave \<Rightarrow> wave) \<Rightarrow> plan_data \<Rightarrow> plan_data \<times> (vt_error + (stage \<times> runtime_vt list)) option" where
  "plan_next it pd = (case stage_try_from (pd_idx pd) of
      Inl _ \<Rightarrow> (pd, None)
    | Inr stage \<Rightarrow>
        (case wave_next it (pd_data pd ! pd_idx pd) of
           (plan, None) \<Rightarrow> plan_next it (pd\<lparr>pd_data := (pd_data pd)[pd_idx pd := plan], pd_idx := pd_idx pd + 1\<rparr>)
         | (plan, Some (Inr r)) \<Rightarrow> (pd\<lparr>pd_data := (pd_data pd)[pd_idx pd := plan]\<rparr>, Some (Inr (stage, r)))
         | (plan, Some (Inl e)) \<Rightarrow>
             (pd\<lparr>pd_data := (pd_data pd)[pd_idx pd := plan], pd_idx := pd_idx pd + 1\<rparr>, Some (Inl e))))"
  by pat_completeness auto
termination
  by (relation "measure (\<lambda>(_, pd). 4 - pd_idx pd)") (auto simp: stage_try_from_def split: if_splits)

declare plan_next.simps [simp del]

subsection \<open>Collecting the dependencies\<close>

type_synonym retriever = "field list \<Rightarrow> storage_error + (context_key \<times> field) list"

definition nvts_of :: "(context_key \<times> field) list \<Rightarrow> nvt list" where
  "nvts_of rs = List.map_filter (\<lambda>(_, f). case f of NVT (Nvt x) \<Rightarrow> Some x | _ \<Rightarrow> None) rs"

definition file_fields :: "string list \<Rightarrow> field list" where
  "file_fields fs = map (\<lambda>x. NVT (FileName x)) fs"

text \<open>One round: every found script is known afterwards; its dependencies that are not known yet are returned.\<close>

fun resolve_round :: "nvt list \<Rightarrow> (string, nvt) hashmap \<Rightarrow> string list \<times> (string, nvt) hashmap" where
  "resolve_round [] known = ([], known)"
| "resolve_round (x # xs) known =
     (let new = filter (\<lambda>d. \<not> hm_contains known d) (nvt_dependencies x)
      in case resolve_round xs (hm_insert (nvt_filename x) x known) of (ret, known') \<Rightarrow> (new @ ret, known'))"

partial_function (option) resolve_dependencies ::
  "retriever \<Rightarrow> string list \<Rightarrow> (string, nvt) hashmap \<Rightarrow> (vt_error + (string, nvt) hashmap) option" where
  "resolve_dependencies retrieve unknown known =
     (if unknown = [] then Some (Inr known)
      else case retrieve (file_fields unknown) of
        Inl e \<Rightarrow> Some (Inl (DB e))
      | Inr rs \<Rightarrow>
          (case resolve_round (nvts_of rs) known of
             (ret, known') \<Rightarrow> resolve_dependencies retrieve ret known'))"

subsection \<open>The plan\<close>

text \<open>The found VTs in the order of the retrieval, each with the parameters at its position in the scan.\<close>

definition planned_vts :: "scan_vt list \<Rightarrow> nvt list \<Rightarrow> runtime_vt list" where
  "planned_vts vts found = map (\<lambda>(i, x). (x, if i < length vts then Some (svt_parameters (vts ! i)) else None)) (enumerate 0 found)"

fun append_planned :: "((string \<times> nvt) list \<Rightarrow> (string \<times> nvt) list) \<Rightarrow> runtime_vt list \<Rightarrow> (string, nvt) hashmap \<Rightarrow> wave_plan list \<Rightarrow>
    vt_error + wave_plan list" where
  "append_planned it [] known results = Inr results"
| "append_planned it ((x, p) # vts) known results =
     (let s = stage_to_usize (stage_from x)
      in case append_vt it (x, p) known (results ! s) of
        (_, Inl e) \<Rightarrow> Inl e
      | (plan, Inr _) \<Rightarrow> append_planned it vts known (results[s := plan]))"

definition execution_plan :: "((string \<times> nvt) list \<Rightarrow> (string \<times> nvt) list) \<Rightarrow> retriever \<Rightarrow> scan_vt list \<Rightarrow>
    (vt_error + plan_data) option" where
  "execution_plan it retrieve vts =
     (case retrieve (map (\<lambda>x. NVT (Oid (svt_oid x))) vts) of
        Inl e \<Rightarrow> Some (Inl (DB e))
      | Inr rs \<Rightarrow>
          (let found = nvts_of rs;
               planned = planned_vts vts found;
               unknown = concat (map nvt_dependencies found)
           in case resolve_dependencies retrieve unknown [] of
             None \<Rightarrow> None
           | Some (Inl e) \<Rightarrow> Some (Inl e)
           | Some (Inr known) \<Rightarrow> Some (map_sum id plan_data_new (append_planned it planned known (replicate 4 wave_plan_default)))))"

subsection \<open>The closure of the dependencies\<close>

abbreviation known_files :: "(string, nvt) hashmap \<Rightarrow> string set" where
  "known_files known \<equiv> dom (hm_get known)"

lemma resolve_round_known:
  "resolve_round xs known = (ret, known') \<Longrightarrow> known_files known' = known_files known \<union> nvt_filename ` set xs"
  by (induction xs arbitrary: known ret) (auto simp: Let_def split: prod.splits)

lemma resolve_round_values:
  "resolve_round xs known = (ret, known') \<Longrightarrow> hm_get known' f = Some n \<Longrightarrow>
   hm_get known f = Some n \<or> (n \<in> set xs \<and> nvt_filename n = f)"
  by (induction xs arbitrary: known ret) (fastforce simp: Let_def split: prod.splits if_splits)+

lemma resolve_round_new:
  "resolve_round xs known = (ret, known') \<Longrightarrow> set ret \<inter> known_files known = {} \<and> set ret \<subseteq> (\<Union>x\<in>set xs. set (nvt_dependencies x))"
proof (induction xs arbitrary: known ret)
  case (Cons x xs)
  obtain r where r: "resolve_round xs (hm_insert (nvt_filename x) x known) = (r, known')"
    and ret: "ret = filter (\<lambda>d. \<not> hm_contains known d) (nvt_dependencies x) @ r"
    using Cons.prems by (auto simp: Let_def split: prod.splits)
  from Cons.IH [OF r] ret show ?case by auto
qed simp

lemma resolve_round_deps:
  "resolve_round xs known = (ret, known') \<Longrightarrow> x \<in> set xs \<Longrightarrow> d \<in> set (nvt_dependencies x) \<Longrightarrow>
   d \<in> set ret \<or> d \<in> known_files known'"
proof (induction xs arbitrary: known ret)
  case (Cons y xs)
  obtain r where r: "resolve_round xs (hm_insert (nvt_filename y) y known) = (r, known')"
    and ret: "ret = filter (\<lambda>d. \<not> hm_contains known d) (nvt_dependencies y) @ r"
    using Cons.prems(1) by (auto simp: Let_def split: prod.splits)
  have "known_files known \<subseteq> known_files known'" using resolve_round_known [OF r] by auto
  then show ?case using Cons.prems(2,3) Cons.IH [OF r] ret by auto
qed simp

lemma resolve_round_wf: "resolve_round xs known = (ret, known') \<Longrightarrow> hm_wf known \<Longrightarrow> hm_wf known'"
  by (induction xs arbitrary: known ret) (auto simp: Let_def hm_wf_insert split: prod.splits)

text \<open>The stored scripts that a list of file names needs, directly or through dependencies.\<close>

inductive needed :: "nvt list \<Rightarrow> string list \<Rightarrow> string \<Rightarrow> bool" for nvts roots where
  needed_root: "f \<in> set roots \<Longrightarrow> f \<in> nvt_filename ` set nvts \<Longrightarrow> needed nvts roots f"
| needed_dep: "needed nvts roots (nvt_filename n) \<Longrightarrow> n \<in> set nvts \<Longrightarrow> d \<in> set (nvt_dependencies n) \<Longrightarrow>
    d \<in> nvt_filename ` set nvts \<Longrightarrow> needed nvts roots d"

definition closure_inv :: "nvt list \<Rightarrow> string list \<Rightarrow> string list \<Rightarrow> (string, nvt) hashmap \<Rightarrow> bool" where
  "closure_inv nvts roots unknown known =
     (hm_wf known \<and> (\<forall>f n. hm_get known f = Some n \<longrightarrow> n \<in> set nvts \<and> nvt_filename n = f \<and> needed nvts roots f) \<and>
      (\<forall>f\<in>set unknown. f \<in> nvt_filename ` set nvts \<longrightarrow> needed nvts roots f) \<and>
      (\<forall>f\<in>set roots. f \<in> nvt_filename ` set nvts \<longrightarrow> f \<in> known_files known \<or> f \<in> set unknown) \<and>
      (\<forall>n\<in>set nvts. nvt_filename n \<in> known_files known \<longrightarrow> (\<forall>d\<in>set (nvt_dependencies n).
         d \<in> nvt_filename ` set nvts \<longrightarrow> d \<in> known_files known \<or> d \<in> set unknown)))"

lemma closure_invD:
  assumes "closure_inv nvts roots unknown known"
  shows "hm_wf known"
    and "hm_get known f = Some n \<Longrightarrow> n \<in> set nvts \<and> nvt_filename n = f \<and> needed nvts roots f"
    and "f \<in> set unknown \<Longrightarrow> f \<in> nvt_filename ` set nvts \<Longrightarrow> needed nvts roots f"
    and "f \<in> set roots \<Longrightarrow> f \<in> nvt_filename ` set nvts \<Longrightarrow> f \<in> known_files known \<or> f \<in> set unknown"
    and "n \<in> set nvts \<Longrightarrow> nvt_filename n \<in> known_files known \<Longrightarrow> d \<in> set (nvt_dependencies n) \<Longrightarrow>
      d \<in> nvt_filename ` set nvts \<Longrightarrow> d \<in> known_files known \<or> d \<in> set unknown"
proof -
  note inv = assms [unfolded closure_inv_def]
  show "hm_wf known" using inv by (rule conjunct1)
  show "n \<in> set nvts \<and> nvt_filename n = f \<and> needed nvts roots f" if "hm_get known f = Some n"
    using inv [THEN conjunct2, THEN conjunct1] that by (elim allE impE)
  show "needed nvts roots f" if "f \<in> set unknown" "f \<in> nvt_filename ` set nvts"
    using inv [THEN conjunct2, THEN conjunct2, THEN conjunct1, THEN bspec, OF that(1)] that(2) by (rule mp)
  show "f \<in> known_files known \<or> f \<in> set unknown" if "f \<in> set roots" "f \<in> nvt_filename ` set nvts"
    using inv [THEN conjunct2, THEN conjunct2, THEN conjunct2, THEN conjunct1, THEN bspec, OF that(1)] that(2) by (rule mp)
  show "d \<in> known_files known \<or> d \<in> set unknown"
    if "n \<in> set nvts" "nvt_filename n \<in> known_files known" "d \<in> set (nvt_dependencies n)" "d \<in> nvt_filename ` set nvts"
    using inv [THEN conjunct2, THEN conjunct2, THEN conjunct2, THEN conjunct2, THEN bspec, OF that(1), THEN mp, OF that(2),
      THEN bspec, OF that(3)] that(4) by (rule mp)
qed

lemma closure_inv_round:
  assumes inv: "closure_inv nvts roots unknown known"
    and round: "resolve_round (filter (\<lambda>n. nvt_filename n \<in> set unknown) nvts) known = (ret, known')"
  shows "closure_inv nvts roots ret known'"
proof -
  let ?found = "filter (\<lambda>n. nvt_filename n \<in> set unknown) nvts"
  note invD = closure_invD [OF inv]
  have known': "known_files known' = known_files known \<union> nvt_filename ` set ?found" using resolve_round_known [OF round] .
  have now: "f \<in> known_files known'" if "f \<in> set unknown" "f \<in> nvt_filename ` set nvts" for f
    using that unfolding known' by auto
  have old: "f \<in> known_files known'" if "f \<in> known_files known" for f
    using that unfolding known' by (rule UnI1)
  have vals: "n \<in> set nvts \<and> nvt_filename n = f \<and> needed nvts roots f" if "hm_get known' f = Some n" for f n
    using resolve_round_values [OF round that]
  proof
    assume "n \<in> set ?found \<and> nvt_filename n = f"
    then show ?thesis using invD(3) [of f] by auto
  qed (rule invD(2))
  have new: "needed nvts roots f" if f: "f \<in> set ret" "f \<in> nvt_filename ` set nvts" for f
  proof -
    obtain x where x: "x \<in> set ?found" "f \<in> set (nvt_dependencies x)" using resolve_round_new [OF round] f by blast
    then have "needed nvts roots (nvt_filename x)" using invD(3) [of "nvt_filename x"] by simp
    then show ?thesis using x f(2) needed_dep [of nvts roots x f] by simp
  qed
  have deps: "d \<in> known_files known' \<or> d \<in> set ret"
    if n: "n \<in> set nvts" "nvt_filename n \<in> known_files known'" "d \<in> set (nvt_dependencies n)" "d \<in> nvt_filename ` set nvts" for n d
  proof (cases "nvt_filename n \<in> set unknown")
    case True
    then show ?thesis using resolve_round_deps [OF round, of n d] n(1,3) by auto
  next
    case False
    then have "nvt_filename n \<in> known_files known" using n(2) unfolding known' by auto
    from invD(5) [OF n(1) this n(3,4)] show ?thesis using old now [OF _ n(4)] by (elim disjE) simp_all
  qed
  have roots: "f \<in> known_files known'" if "f \<in> set roots" "f \<in> nvt_filename ` set nvts" for f
    using invD(4) [OF that] old now [OF _ that(2)] by (elim disjE) simp_all
  have "hm_wf known'" using resolve_round_wf [OF round invD(1)] .
  then show ?thesis unfolding closure_inv_def
    using vals new roots deps by (intro conjI allI ballI impI) simp_all
qed

lemma closure_inv_done:
  assumes "closure_inv nvts roots [] known"
  shows "f \<in> known_files known \<longleftrightarrow> needed nvts roots f"
proof
  note invD = closure_invD [OF assms]
  show "f \<in> known_files known" if "needed nvts roots f" using that
  proof induction
    case (needed_root f)
    then show ?case using invD(4) by simp
  next
    case (needed_dep n d)
    then show ?case using invD(5) [of n d] by simp
  qed
  show "needed nvts roots f" if "f \<in> known_files known" using that invD(2) by (auto simp: dom_def)
qed

definition closure_measure :: "nvt list \<Rightarrow> string list \<Rightarrow> (string, nvt) hashmap \<Rightarrow> nat" where
  "closure_measure nvts unknown known = 2 * card (nvt_filename ` set nvts - known_files known) +
     (if unknown = [] then 0 else if set unknown \<inter> known_files known \<noteq> {} then 2 else 1)"

lemma closure_measure_round:
  assumes "unknown \<noteq> []"
    and round: "resolve_round (filter (\<lambda>n. nvt_filename n \<in> set unknown) nvts) known = (ret, known')"
  shows "closure_measure nvts ret known' < closure_measure nvts unknown known"
proof -
  let ?found = "filter (\<lambda>n. nvt_filename n \<in> set unknown) nvts"
  let ?F = "nvt_filename ` set nvts"
  have known': "known_files known' = known_files known \<union> nvt_filename ` set ?found" using resolve_round_known [OF round] .
  show ?thesis
  proof (cases "nvt_filename ` set ?found \<subseteq> known_files known")
    case True
    then have same: "known_files known' = known_files known" using known' by auto
    have none: "set ret \<inter> known_files known = {}" using resolve_round_new [OF round] by simp
    show ?thesis
    proof (cases "set unknown \<inter> known_files known = {}")
      case empty: True
      then have "?found = []" using True by (auto simp: filter_empty_conv image_subset_iff disjoint_iff)
      then have "ret = []" using round by simp
      then show ?thesis using assms(1) same by (simp add: closure_measure_def)
    next
      case False
      then show ?thesis using assms(1) same none by (simp add: closure_measure_def)
    qed
  next
    case False
    have "?F - known_files known' \<subset> ?F - known_files known" using False known' by auto
    then have "card (?F - known_files known') < card (?F - known_files known)" by (intro psubset_card_mono) auto
    then show ?thesis using assms(1) by (auto simp: closure_measure_def)
  qed
qed

text \<open>What the planner relies on: a look-up by fields returns the stored NVTs that match one of them.\<close>

locale nvt_retriever =
  fixes retrieve :: retriever and nvts :: "nvt list"
  assumes retrieve_found: "\<exists>rs. retrieve flds = Inr rs \<and> nvts_of rs = filter (\<lambda>n. matches_any_field n flds) nvts"
begin

lemma retrieve_files:
  "\<exists>rs. retrieve (file_fields fs) = Inr rs \<and> nvts_of rs = filter (\<lambda>n. nvt_filename n \<in> set fs) nvts"
proof -
  have "matches_any_field n (file_fields fs) \<longleftrightarrow> nvt_filename n \<in> set fs" for n
    by (auto simp: matches_any_field_def file_fields_def list_ex_iff matches_field_def)
  then show ?thesis using retrieve_found [of "file_fields fs"] by simp
qed

lemma resolve_dependencies_returns:
  "closure_inv nvts roots unknown known \<Longrightarrow>
   \<exists>known'. resolve_dependencies retrieve unknown known = Some (Inr known') \<and> closure_inv nvts roots [] known'"
proof (induction "closure_measure nvts unknown known" arbitrary: unknown known rule: less_induct)
  case less
  show ?case
  proof (cases "unknown = []")
    case True
    then show ?thesis using less.prems by (simp add: resolve_dependencies.simps [of retrieve "[]"])
  next
    case False
    obtain rs where rs: "retrieve (file_fields unknown) = Inr rs"
      "nvts_of rs = filter (\<lambda>n. nvt_filename n \<in> set unknown) nvts" using retrieve_files by blast
    obtain ret known' where round: "resolve_round (nvts_of rs) known = (ret, known')" by (cases "resolve_round (nvts_of rs) known")
    note round' = round [unfolded rs(2)]
    from less.hyps [OF closure_measure_round [OF False round'] closure_inv_round [OF less.prems round']]
    obtain k where "resolve_dependencies retrieve ret known' = Some (Inr k)" "closure_inv nvts roots [] k" by (elim exE conjE)
    then show ?thesis using False rs(1) round by (simp add: resolve_dependencies.simps [of retrieve unknown])
  qed
qed

lemma resolve_dependencies_closure:
  "\<exists>known. resolve_dependencies retrieve roots [] = Some (Inr known) \<and> hm_wf known \<and>
     (\<forall>f. hm_contains known f \<longleftrightarrow> needed nvts roots f) \<and>
     (\<forall>f n. hm_get known f = Some n \<longrightarrow> n \<in> set nvts \<and> nvt_filename n = f)"
proof -
  have "closure_inv nvts roots roots []" by (auto simp: closure_inv_def intro: needed_root)
  then obtain known where k: "resolve_dependencies retrieve roots [] = Some (Inr known)" "closure_inv nvts roots [] known"
    using resolve_dependencies_returns by blast
  note invD = closure_invD [OF k(2)]
  show ?thesis
    using k(1) invD(1) closure_inv_done [OF k(2), unfolded domIff] invD(2)
    by (intro exI [of _ known] conjI allI impI) blast+
qed

end

subsection \<open>Plans of the in-memory storage\<close>

text \<open>
  \<^verbatim>\<open>retrieve_by_fields(_, Retrieve::NVT(None))\<close> of the \<^verbatim>\<open>DefaultDispatcher\<close>, the retriever of the
  planner. It neither panics nor fails.
\<close>

definition dd_nvts :: "iter_orders \<Rightarrow> default_dispatcher \<Rightarrow> retriever" where
  "dd_nvts I st flds = (case retrieve_by_fields I flds (RetrieveNVT None) st of
      Ret rs \<Rightarrow> Inr rs | Panic \<Rightarrow> Inl (UnexpectedData []))"

lemma nvts_of_complete: "nvts_of (map (\<lambda>n. (CtxFileName (nvt_filename n), NVT (Nvt n))) ns) = ns"
  by (induction ns) (simp_all add: nvts_of_def)

interpretation dd_planner: nvt_retriever "dd_nvts I st" "all_vts I st" for I st
  by unfold_locales (simp add: dd_nvts_def retrieve_by_fields_def nvts_of_complete)

definition scan_nvts :: "scan_vt list \<Rightarrow> nvt list \<Rightarrow> nvt list" where
  "scan_nvts vts nvts = filter (\<lambda>n. nvt_oid n \<in> svt_oid ` set vts) nvts"

context nvt_retriever
begin

lemma retrieve_oids:
  "\<exists>rs. retrieve (map (\<lambda>x. NVT (Oid (svt_oid x))) vts) = Inr rs \<and> nvts_of rs = scan_nvts vts nvts"
proof -
  have "matches_any_field n (map (\<lambda>x. NVT (Oid (svt_oid x))) vts) \<longleftrightarrow> nvt_oid n \<in> svt_oid ` set vts" for n
    by (auto simp: matches_any_field_def list_ex_iff matches_field_def)
  then show ?thesis using retrieve_found [of "map (\<lambda>x. NVT (Oid (svt_oid x))) vts"] by (simp add: scan_nvts_def)
qed

lemma execution_plan_known:
  "\<exists>known. execution_plan it retrieve vts = Some (map_sum id plan_data_new
       (append_planned it (planned_vts vts (scan_nvts vts nvts)) known (replicate 4 wave_plan_default))) \<and>
     hm_wf known \<and> (\<forall>f. hm_contains known f \<longleftrightarrow> needed nvts (concat (map nvt_dependencies (scan_nvts vts nvts))) f) \<and>
     (\<forall>f n. hm_get known f = Some n \<longrightarrow> n \<in> set nvts \<and> nvt_filename n = f)"
proof -
  let ?roots = "concat (map nvt_dependencies (scan_nvts vts nvts))"
  obtain rs where rs: "retrieve (map (\<lambda>x. NVT (Oid (svt_oid x))) vts) = Inr rs" "nvts_of rs = scan_nvts vts nvts"
    using retrieve_oids by blast
  obtain known where known: "resolve_dependencies retrieve ?roots [] = Some (Inr known)"
    and rest: "hm_wf known \<and> (\<forall>f. hm_contains known f \<longleftrightarrow> needed nvts ?roots f) \<and>
     (\<forall>f n. hm_get known f = Some n \<longrightarrow> n \<in> set nvts \<and> nvt_filename n = f)"
    using resolve_dependencies_closure by blast
  have "execution_plan it retrieve vts = Some (map_sum id plan_data_new
       (append_planned it (planned_vts vts (scan_nvts vts nvts)) known (replicate 4 wave_plan_default)))"
    by (simp only: execution_plan_def rs known Let_def sum.case option.case)
  from conjI [OF this rest] show ?thesis by (rule exI [of _ known])
qed

end

text \<open>
  C26: planning a scan on the in-memory storage always returns, whatever the dependencies of the
  stored scripts (cycles and missing files included). The plan is built from the stored VTs that the
  scan names and from exactly the stored scripts these need, directly or transitively.
\<close>

theorem execution_plan_closure:
  "\<exists>known. execution_plan it (dd_nvts I st) vts = Some (map_sum id plan_data_new
       (append_planned it (planned_vts vts (scan_nvts vts (all_vts I st))) known (replicate 4 wave_plan_default))) \<and>
     {f. hm_contains known f} = {f. needed (all_vts I st) (concat (map nvt_dependencies (scan_nvts vts (all_vts I st)))) f} \<and>
     set known \<subseteq> (\<lambda>n. (nvt_filename n, n)) ` set (all_vts I st)"
proof -
  obtain known where plan: "execution_plan it (dd_nvts I st) vts = Some (map_sum id plan_data_new
       (append_planned it (planned_vts vts (scan_nvts vts (all_vts I st))) known (replicate 4 wave_plan_default)))"
    and k: "hm_wf known" "\<forall>f. hm_contains known f \<longleftrightarrow>
      needed (all_vts I st) (concat (map nvt_dependencies (scan_nvts vts (all_vts I st)))) f"
      "\<forall>f n. hm_get known f = Some n \<longrightarrow> n \<in> set (all_vts I st) \<and> nvt_filename n = f"
    using dd_planner.execution_plan_known [of it I st vts] by blast
  have "set known \<subseteq> (\<lambda>n. (nvt_filename n, n)) ` set (all_vts I st)"
  proof
    fix x assume "x \<in> set known"
    then have "hm_get known (fst x) = Some (snd x)" using k(1) by simp
    with k(3) have "snd x \<in> set (all_vts I st)" "nvt_filename (snd x) = fst x" by blast+
    then show "x \<in> (\<lambda>n. (nvt_filename n, n)) ` set (all_vts I st)" by (intro image_eqI [of _ _ "snd x"]) simp_all
  qed
  then show ?thesis using plan k(2) by (intro exI [of _ known] conjI Collect_cong) blast+
qed

subsection \<open>The stages of a plan\<close>

lemma stage_usize_round_trip: "stage_try_from (stage_to_usize s) = Inr s"
  by (cases s) (simp_all add: stage_try_from_def stage_to_usize_def)

lemma stage_to_usize_less: "stage_to_usize s < 4"
  by (cases s) (simp_all add: stage_to_usize_def)

text \<open>The items the iterator gives when \<^verbatim>\<open>next\<close> is called up to \<open>n\<close> times, up to the first \<^verbatim>\<open>None\<close>.\<close>

fun plan_run :: "nat \<Rightarrow> (wave \<Rightarrow> wave) \<Rightarrow> plan_data \<Rightarrow> (vt_error + (stage \<times> runtime_vt list)) list" where
  "plan_run 0 it pd = []"
| "plan_run (Suc n) it pd = (case plan_next it pd of
      (_, None) \<Rightarrow> []
    | (pd', Some r) \<Rightarrow> r # plan_run n it pd')"

definition stage_waves :: "(wave \<Rightarrow> wave) \<Rightarrow> stage \<Rightarrow> wave_plan \<Rightarrow> (stage \<times> runtime_vt list) list" where
  "stage_waves it s plan = map (\<lambda>w. (s, map snd (it w))) (wp_data plan)"

definition waves_from :: "(wave \<Rightarrow> wave) \<Rightarrow> plan_data \<Rightarrow> (stage \<times> runtime_vt list) list" where
  "waves_from it pd = concat (map (\<lambda>s. if pd_idx pd \<le> stage_to_usize s then stage_waves it s (pd_data pd ! stage_to_usize s) else [])
     [Discovery, NonEvasive, Exhausting, EndStage])"

definition stage_items :: "(wave \<Rightarrow> wave) \<Rightarrow> stage \<Rightarrow> wave_plan \<Rightarrow> (vt_error + (stage \<times> runtime_vt list)) list" where
  "stage_items it s plan = map Inr (stage_waves it s plan)"

definition items_from :: "(wave \<Rightarrow> wave) \<Rightarrow> plan_data \<Rightarrow> (vt_error + (stage \<times> runtime_vt list)) list" where
  "items_from it pd = map Inr (waves_from it pd)"

lemma nat_less_4: "(i::nat) < 4 \<longleftrightarrow> i = 0 \<or> i = 1 \<or> i = 2 \<or> i = 3"
  by auto

lemma plan_next_items:
  "length (pd_data pd) = 4 \<Longrightarrow>
   (case plan_next it pd of
      (pd', None) \<Rightarrow> items_from it pd = []
    | (pd', Some r) \<Rightarrow> items_from it pd = r # items_from it pd' \<and> length (pd_data pd') = 4)"
proof (induction it pd rule: plan_next.induct)
  case (1 it pd)
  let ?i = "pd_idx pd"
  show ?case
  proof (cases "?i < 4")
    case False
    then have "stage_try_from ?i = Inl (InvalidStageIndex ?i)" by (simp add: stage_try_from_def)
    then show ?thesis using False
      by (simp add: plan_next.simps [of it pd] items_from_def waves_from_def stage_to_usize_def)
  next
    case i: True
    obtain s where s: "stage_try_from ?i = Inr s" "?i = stage_to_usize s"
      using i by (auto simp: nat_less_4 stage_try_from_def stage_to_usize_def)
    show ?thesis
    proof (cases "wp_data (pd_data pd ! ?i)")
      case Nil
      let ?pd = "pd\<lparr>pd_data := (pd_data pd)[?i := pd_data pd ! ?i], pd_idx := ?i + 1\<rparr>"
      have nxt: "wave_next it (pd_data pd ! ?i) = (pd_data pd ! ?i, None)" using Nil by (simp add: wave_next_def)
      have "plan_next it pd = plan_next it ?pd" using s(1) nxt by (simp add: plan_next.simps [of it pd])
      moreover have "items_from it ?pd = items_from it pd"
        using i Nil by (auto simp: nat_less_4 items_from_def waves_from_def stage_waves_def stage_to_usize_def)
      ultimately show ?thesis using "1.IH" [OF s(1) nxt [symmetric] refl] "1.prems" by simp
    next
      case (Cons w ws)
      let ?plan = "(pd_data pd ! ?i)\<lparr>wp_data := ws\<rparr>"
      have "plan_next it pd = (pd\<lparr>pd_data := (pd_data pd)[?i := ?plan]\<rparr>, Some (Inr (s, map snd (it w))))"
        using s(1) Cons by (simp add: plan_next.simps [of it pd] wave_next_def)
      moreover have "items_from it pd = Inr (s, map snd (it w)) # items_from it (pd\<lparr>pd_data := (pd_data pd)[?i := ?plan]\<rparr>)"
        using i s(2) Cons "1.prems"
        by (cases s) (simp_all add: items_from_def waves_from_def stage_waves_def stage_to_usize_def)
      ultimately show ?thesis using "1.prems" by simp
    qed
  qed
qed

lemma plan_run_items:
  "length (pd_data pd) = 4 \<Longrightarrow> plan_run n it pd = take n (items_from it pd)"
proof (induction n arbitrary: pd)
  case (Suc n)
  show ?case
    using plan_next_items [OF Suc.prems, of it] Suc.IH
    by (auto split: prod.splits option.splits)
qed simp

text \<open>
  Iterating a plan gives the waves of the discovery plan in order, then those of the non-evasive,
  the exhausting and the end plan, each with its stage, and then ends: with one call more than there
  are waves the iterator has returned \<^verbatim>\<open>None\<close>, and it never returns an error.
\<close>

theorem plan_iteration:
  "plan_run (length (wp_data p0) + length (wp_data p1) + length (wp_data p2) + length (wp_data p3) + 1 + k) it
     (plan_data_new [p0, p1, p2, p3]) =
   stage_items it Discovery p0 @ stage_items it NonEvasive p1 @ stage_items it Exhausting p2 @ stage_items it EndStage p3"
proof -
  have "items_from it (plan_data_new [p0, p1, p2, p3]) =
      stage_items it Discovery p0 @ stage_items it NonEvasive p1 @ stage_items it Exhausting p2 @ stage_items it EndStage p3"
    by (simp add: items_from_def waves_from_def stage_items_def plan_data_new_def stage_to_usize_def numeral_2_eq_2 numeral_3_eq_3)
  moreover have "length (stage_items it s p) = length (wp_data p)" for s p by (simp add: stage_items_def stage_waves_def)
  ultimately show ?thesis by (subst plan_run_items) (simp_all add: plan_data_new_def)
qed

subsection \<open>The order within a plan\<close>

lemma append_vt_mono: "wave_of (wp_data plan) n \<noteq> None \<Longrightarrow> wave_of (wp_data (fst (append_vt it vt deps plan))) n \<noteq> None"
proof -
  let ?data = "if wp_dependencies_added plan then wp_data plan
    else case add_dependencies (map snd (it deps)) (wp_data plan) of (data', rest) \<Rightarrow> process_dependencies rest data'"
  assume "wave_of (wp_data plan) n \<noteq> None"
  then have data: "wave_of ?data n \<noteq> None"
    using add_dependencies_mono process_dependencies_mono by (simp add: case_prod_beta)
  show ?thesis
  proof (cases "find_index ?data (fst vt)")
    case None
    then show ?thesis using data by (simp add: append_vt_def Let_def)
  next
    case (Some i)
    then show ?thesis using wave_of_insert_mono [of ?data n] data by (simp add: append_vt_def Let_def)
  qed
qed

lemma append_vt_placed:
  assumes "append_vt it vt deps plan = (plan', Inr u)"
  shows "wave_of (wp_data plan') (nvt_filename (fst vt)) \<noteq> None"
proof -
  obtain i data where "wp_data plan' = insert_into i (nvt_filename (fst vt)) vt data"
    using assms by (auto simp: append_vt_def Let_def split: option.splits)
  then show ?thesis using wave_of_insert_mono [OF disjI2 [OF refl]] by simp
qed

lemma append_planned_plans:
  assumes "iteration it" "dependencies_consistent D known"
  shows "append_planned it vts known results = Inr results' \<Longrightarrow> length results = 4 \<Longrightarrow>
     list_all (\<lambda>vt. consistent D (fst vt)) vts \<Longrightarrow> list_all (\<lambda>p. waves_inv D (wp_data p)) results \<Longrightarrow>
     length results' = 4 \<and> list_all (\<lambda>p. waves_inv D (wp_data p)) results' \<and>
     (\<forall>s n. s < 4 \<longrightarrow> wave_of (wp_data (results ! s)) n \<noteq> None \<longrightarrow> wave_of (wp_data (results' ! s)) n \<noteq> None) \<and>
     (\<forall>vt \<in> set vts. wave_of (wp_data (results' ! stage_to_usize (stage_from (fst vt)))) (nvt_filename (fst vt)) \<noteq> None)"
proof (induction vts arbitrary: results)
  case (Cons vt vts)
  obtain x p where vt: "vt = (x, p)" by (cases vt)
  let ?s = "stage_to_usize (stage_from x)"
  have s: "?s < 4" by (rule stage_to_usize_less)
  obtain plan r where a: "append_vt it (x, p) known (results ! ?s) = (plan, r)" by (cases "append_vt it (x, p) known (results ! ?s)")
  from Cons.prems(1) a vt obtain u where r: "r = Inr u" and rest: "append_planned it vts known (results[?s := plan]) = Inr results'"
    by (cases r) (simp_all add: Let_def)
  have old: "waves_inv D (wp_data (results ! ?s))" using Cons.prems(2,4) s by (simp add: list_all_length)
  have inv: "waves_inv D (wp_data plan)"
    using append_vt_inv [OF assms(1) old assms(2), of "(x, p)"] Cons.prems(3) a vt by simp
  have invs: "list_all (\<lambda>p. waves_inv D (wp_data p)) (results[?s := plan])"
    using Cons.prems(4) inv set_update_subset_insert [of results ?s plan] unfolding list_all_iff by blast
  have IH: "length results' = 4" "list_all (\<lambda>p. waves_inv D (wp_data p)) results'"
    "\<And>s n. s < 4 \<Longrightarrow> wave_of (wp_data (results[?s := plan] ! s)) n \<noteq> None \<Longrightarrow> wave_of (wp_data (results' ! s)) n \<noteq> None"
    "\<And>vt. vt \<in> set vts \<Longrightarrow> wave_of (wp_data (results' ! stage_to_usize (stage_from (fst vt)))) (nvt_filename (fst vt)) \<noteq> None"
    using Cons.IH [OF rest _ _ invs] Cons.prems(2,3) by simp_all
  have keep: "wave_of (wp_data (results' ! s)) n \<noteq> None" if "s < 4" "wave_of (wp_data (results ! s)) n \<noteq> None" for s n
  proof (rule IH(3) [OF that(1)])
    show "wave_of (wp_data (results[?s := plan] ! s)) n \<noteq> None"
      using that append_vt_mono [of "results ! ?s" n it "(x, p)" known] a Cons.prems(2)
      by (cases "s = ?s") simp_all
  qed
  have "wave_of (wp_data (results' ! ?s)) (nvt_filename x) \<noteq> None"
    using IH(3) [OF s] append_vt_placed [OF a [unfolded r]] Cons.prems(2) s by simp
  then show ?case using IH(1,2,4) keep vt by (intro conjI allI impI ballI) auto
qed simp

lemma append_planned_nonempty:
  "append_planned it vts known results = Inr results' \<Longrightarrow> list_all (\<lambda>p. [] \<notin> set (wp_data p)) results \<Longrightarrow>
   length results = 4 \<Longrightarrow> list_all (\<lambda>p. [] \<notin> set (wp_data p)) results'"
proof (induction vts arbitrary: results)
  case (Cons vt vts)
  obtain x p where vt: "vt = (x, p)" by (cases vt)
  let ?s = "stage_to_usize (stage_from x)"
  obtain plan r where a: "append_vt it (x, p) known (results ! ?s) = (plan, r)" by (cases "append_vt it (x, p) known (results ! ?s)")
  from Cons.prems(1) a vt obtain u where rest: "append_planned it vts known (results[?s := plan]) = Inr results'"
    by (cases r) (simp_all add: Let_def)
  have "[] \<notin> set (wp_data (results ! ?s))" using Cons.prems(2,3) stage_to_usize_less by (simp add: list_all_length)
  then have "[] \<notin> set (wp_data plan)" using append_vt_nonempty [of "results ! ?s" it "(x, p)" known] a by simp
  then have "list_all (\<lambda>p. [] \<notin> set (wp_data p)) (results[?s := plan])"
    using Cons.prems(2) set_update_subset_insert [of results ?s plan] unfolding list_all_iff by blast
  then show ?case using Cons.IH [OF rest] Cons.prems(3) by simp
qed simp

lemma planned_vts_fst: "map fst (planned_vts vts found) = found"
  by (rule nth_equalityI) (simp_all add: planned_vts_def nth_enumerate_eq split_beta)

lemma execution_plan_inv:
  assumes "iteration it" and "list_all (consistent D) (all_vts I st)"
    and "execution_plan it (dd_nvts I st) vts = Some (Inr pd)"
  shows "length (pd_data pd) = 4" and "pd_idx pd = 0" and "list_all (\<lambda>p. waves_inv D (wp_data p)) (pd_data pd)"
    and "n \<in> set (all_vts I st) \<Longrightarrow> nvt_oid n \<in> svt_oid ` set vts \<Longrightarrow>
       wave_of (wp_data (pd_data pd ! stage_to_usize (stage_from n))) (nvt_filename n) \<noteq> None"
    and "list_all (\<lambda>p. [] \<notin> set (wp_data p)) (pd_data pd)"
proof -
  let ?vts = "planned_vts vts (scan_nvts vts (all_vts I st))"
  obtain known where plan: "execution_plan it (dd_nvts I st) vts = Some (map_sum id plan_data_new
       (append_planned it ?vts known (replicate 4 wave_plan_default)))"
    and k: "hm_wf known" "\<And>f n. hm_get known f = Some n \<Longrightarrow> n \<in> set (all_vts I st) \<and> nvt_filename n = f"
    using dd_planner.execution_plan_known [of it I st vts] by blast
  from plan assms(3) obtain results where results: "append_planned it ?vts known (replicate 4 wave_plan_default) = Inr results"
    and pd: "pd = plan_data_new results"
    by (cases "append_planned it ?vts known (replicate 4 wave_plan_default)") auto
  have deps: "dependencies_consistent D known"
    using k assms(2) by (fastforce simp: dependencies_consistent_def list_all_iff)
  have found: "fst ` set ?vts = set (scan_nvts vts (all_vts I st))"
    using arg_cong [OF planned_vts_fst, of set] by simp
  then have cons: "list_all (\<lambda>vt. consistent D (fst vt)) ?vts"
    using assms(2) by (fastforce simp: list_all_iff scan_nvts_def)
  have "list_all (\<lambda>p. waves_inv D (wp_data p)) (replicate 4 wave_plan_default)"
    by (simp add: list_all_iff wave_plan_default_def)
  from append_planned_plans [OF assms(1) deps results _ cons this]
  have plans: "length results = 4" "list_all (\<lambda>p. waves_inv D (wp_data p)) results"
    "\<And>vt. vt \<in> set ?vts \<Longrightarrow> wave_of (wp_data (results ! stage_to_usize (stage_from (fst vt)))) (nvt_filename (fst vt)) \<noteq> None"
    by simp_all
  show "length (pd_data pd) = 4" "pd_idx pd = 0" "list_all (\<lambda>p. waves_inv D (wp_data p)) (pd_data pd)"
    using plans(1,2) pd by (simp_all add: plan_data_new_def)
  show "list_all (\<lambda>p. [] \<notin> set (wp_data p)) (pd_data pd)"
    using append_planned_nonempty [OF results] pd by (simp add: plan_data_new_def wave_plan_default_def list_all_iff)
  show "wave_of (wp_data (pd_data pd ! stage_to_usize (stage_from n))) (nvt_filename n) \<noteq> None"
    if "n \<in> set (all_vts I st)" "nvt_oid n \<in> svt_oid ` set vts"
  proof -
    have "n \<in> fst ` set ?vts" using that unfolding found by (simp add: scan_nvts_def)
    then obtain vt where "vt \<in> set ?vts" "n = fst vt" by blast
    then show ?thesis using plans(3) pd by (simp add: plan_data_new_def)
  qed
qed

text \<open>
  C5: when a plan is made for a scan on the in-memory storage, and the stored scripts of one file name
  agree on their dependencies, then every stored VT the scan names is in the plan of its own stage,
  and in the plan of each stage every script comes in a later wave than all its dependencies.
\<close>

theorem execution_plan_order:
  assumes "iteration it" and "list_all (consistent D) (all_vts I st)"
    and "execution_plan it (dd_nvts I st) vts = Some (Inr pd)"
  shows "(\<forall>n \<in> set (all_vts I st). nvt_oid n \<in> svt_oid ` set vts \<longrightarrow>
       wave_of (wp_data (pd_data pd ! stage_to_usize (stage_from n))) (nvt_filename n) \<noteq> None) \<and>
     (\<forall>s < 4. \<forall>i < length (wp_data (pd_data pd ! s)). \<forall>k vt p. hm_get (wp_data (pd_data pd ! s) ! i) k = Some (vt, p) \<longrightarrow>
       (\<forall>d \<in> set (nvt_dependencies vt). \<exists>w < i. hm_contains (wp_data (pd_data pd ! s) ! w) d))"
proof -
  note plan = execution_plan_inv [OF assms]
  have "\<exists>w < i. hm_contains (wp_data (pd_data pd ! s) ! w) d"
    if "s < 4" "i < length (wp_data (pd_data pd ! s))" "hm_get (wp_data (pd_data pd ! s) ! i) k = Some (vt, p)"
      "d \<in> set (nvt_dependencies vt)" for s i k vt p d
  proof -
    have "waves_inv D (wp_data (pd_data pd ! s))" using plan(1,3) that(1) by (simp add: list_all_length)
    from waves_inv_layout [OF this that(2,3)] that(4) show ?thesis by blast
  qed
  then show ?thesis using plan(4) by blast
qed

definition example_feed :: default_dispatcher where
  "example_feed = set_vts [(''b'', (example_script ''b'' [''a''])\<lparr>nvt_oid := ''2'', nvt_category := Attack\<rparr>),
     (''a'', (example_script ''a'' [])\<lparr>nvt_oid := ''1'', nvt_category := Attack\<rparr>)] dd_new"

definition example_scan :: "scan_vt list" where
  "example_scan = [\<lparr>svt_oid = ''2'', svt_parameters = []\<rparr>]"

lemma all_vts_example_feed:
  "all_vts example_orders example_feed = [(example_script ''a'' [])\<lparr>nvt_oid := ''1'', nvt_category := Attack\<rparr>,
     (example_script ''b'' [''a''])\<lparr>nvt_oid := ''2'', nvt_category := Attack\<rparr>]"
  by (simp add: all_vts_def example_orders_def example_feed_def set_vts_def dd_new_def)

lemma example_feed_plan:
  "execution_plan rev (dd_nvts example_orders example_feed) example_scan = Some (Inr (plan_data_new
     [wave_plan_default,
      \<lparr>wp_data = [[(''a'', ((example_script ''a'' [])\<lparr>nvt_oid := ''1'', nvt_category := Attack\<rparr>, None))],
         [(''b'', ((example_script ''b'' [''a''])\<lparr>nvt_oid := ''2'', nvt_category := Attack\<rparr>, Some []))]],
       wp_dependencies_added = True\<rparr>,
      wave_plan_default, wave_plan_default]))"
proof -
  let ?r = "dd_nvts example_orders example_feed"
  have r: "?r flds = Inr (map (\<lambda>n. (CtxFileName (nvt_filename n), NVT (Nvt n)))
      (filter (\<lambda>n. matches_any_field n flds) (all_vts example_orders example_feed)))" for flds
    by (simp add: dd_nvts_def retrieve_by_fields_def)
  have "resolve_dependencies ?r [''a''] [] = Some (Inr [(''a'', (example_script ''a'' [])\<lparr>nvt_oid := ''1'', nvt_category := Attack\<rparr>)])"
    by (simp add: resolve_dependencies.simps [of ?r "[''a'']"] resolve_dependencies.simps [of ?r "[]"] r nvts_of_def
      file_fields_def matches_any_field_def matches_field_def all_vts_example_feed)
  then show ?thesis
    by (simp add: execution_plan_def r nvts_of_def example_scan_def matches_any_field_def matches_field_def
      all_vts_example_feed planned_vts_def stage_from_def stage_to_usize_def append_vt_def numeral_eq_Suc
      find_index_def wave_of_def insert_into_def process_dependencies.simps wave_plan_default_def)
qed

theorem execution_plan_order_witness:
  "let data = wp_data (pd_data (plan_data_new
     [wave_plan_default,
      \<lparr>wp_data = [[(''a'', ((example_script ''a'' [])\<lparr>nvt_oid := ''1'', nvt_category := Attack\<rparr>, None))],
         [(''b'', ((example_script ''b'' [''a''])\<lparr>nvt_oid := ''2'', nvt_category := Attack\<rparr>, Some []))]],
       wp_dependencies_added = True\<rparr>,
      wave_plan_default, wave_plan_default]) ! 1) in wave_of data ''b'' \<noteq> None \<and> hm_contains (data ! 0) ''a''"
proof -
  have "list_all (consistent example_deps) (all_vts example_orders example_feed)"
    by (simp add: all_vts_example_feed consistent_def example_deps_def)
  from execution_plan_order [OF iteration_rev this example_feed_plan]
  show ?thesis
    by (simp add: plan_data_new_def all_vts_example_feed example_scan_def stage_from_def stage_to_usize_def wave_of_def)
qed

text \<open>
  The parameters are taken from the scan by the position of the VT in the retrieval, not by its
  OID: when the storage returns the VTs in another order than the scan lists them, each VT is run
  with the parameters of another.
\<close>

lemma parameters_by_position:
  "i < length found \<Longrightarrow> i < length vts \<Longrightarrow> planned_vts vts found ! i = (found ! i, Some (svt_parameters (vts ! i)))"
  by (simp add: planned_vts_def nth_enumerate_eq)

lemma parameters_swapped:
  "let vts = [\<lparr>svt_oid = ''2'', svt_parameters = [\<lparr>param_id = 2, param_value = ''for 2''\<rparr>]\<rparr>,
              \<lparr>svt_oid = ''1'', svt_parameters = [\<lparr>param_id = 1, param_value = ''for 1''\<rparr>]\<rparr>]
   in map (\<lambda>(n, p). (nvt_oid n, p)) (planned_vts vts (scan_nvts vts (all_vts example_orders example_feed))) =
     [(''1'', Some [\<lparr>param_id = 2, param_value = ''for 2''\<rparr>]), (''2'', Some [\<lparr>param_id = 1, param_value = ''for 1''\<rparr>])]"
  by (simp add: all_vts_example_feed planned_vts_def scan_nvts_def Let_def)

end
