(* ===== verification/Crypt.thy ===== *)
theory Crypt
  imports Prelude
begin

unbundle bit_operations_syntax

section \<open>Encrypted credentials\<close>

text \<open>
  \<^verbatim>\<open>rust/src/openvasd/crypt.rs\<close> and \<^verbatim>\<open>rust/src/models/credential.rs\<close>: the passwords of a scan are kept
  encrypted, as the text of a nonce and of the encrypted bytes. The key stream of the cipher and the
  base64 coding are third-party code and arguments; \<open>base64_coding\<close> states what is used of the coding
  (RFC 4648). The random generator is an argument, a function from its state to the next nonce and
  state.
\<close>

subsection \<open>Encryption\<close>

type_synonym byte = "8 word"

type_synonym key_stream = "byte list \<Rightarrow> byte list \<Rightarrow> nat \<Rightarrow> byte"

record encrypted =
  enc_nonce :: "byte list"
  enc_data :: "byte list"

definition apply_keystream :: "(nat \<Rightarrow> byte) \<Rightarrow> byte list \<Rightarrow> byte list" where
  "apply_keystream ks data = map (\<lambda>(i, b). b XOR ks i) (enumerate 0 data)"

definition encrypt_sync :: "key_stream \<Rightarrow> byte list \<Rightarrow> byte list \<Rightarrow> byte list \<Rightarrow> encrypted" where
  "encrypt_sync chacha key nonce data = \<lparr>enc_nonce = nonce, enc_data = apply_keystream (chacha key nonce) data\<rparr>"

definition decrypt_sync :: "key_stream \<Rightarrow> byte list \<Rightarrow> encrypted \<Rightarrow> byte list" where
  "decrypt_sync chacha key e = apply_keystream (chacha key (enc_nonce e)) (enc_data e)"

definition encrypted_display :: "(byte list \<Rightarrow> string) \<Rightarrow> encrypted \<Rightarrow> string" where
  "encrypted_display encode e = encode (enc_nonce e) @ '' '' @ encode (enc_data e)"

datatype parse_error = MissingNonce | MissingData | InvalidNonce | InvalidData

definition parse_error_display :: "parse_error \<Rightarrow> string" where
  "parse_error_display e = (case e of MissingNonce \<Rightarrow> ''missing nonce'' | MissingData \<Rightarrow> ''missing data''
     | InvalidNonce \<Rightarrow> ''invalid nonce'' | InvalidData \<Rightarrow> ''invalid data'')"

text \<open>\<^verbatim>\<open>split_whitespace\<close>: the words of a text.\<close>

function split_whitespace :: "string \<Rightarrow> string list" where
  "split_whitespace s =
     (let s' = dropWhile is_whitespace s
      in if s' = [] then [] else takeWhile (\<lambda>c. \<not> is_whitespace c) s' # split_whitespace (dropWhile (\<lambda>c. \<not> is_whitespace c) s'))"
  by pat_completeness auto
termination
proof (relation "measure length", goal_cases)
  case (2 s s')
  obtain c t where "s' = c # t" using 2(2) by (meson neq_Nil_conv)
  moreover have "\<not> is_whitespace c" using 2(1) \<open>s' = c # t\<close> by (metis dropWhile_eq_Cons_conv)
  ultimately have "length (dropWhile (\<lambda>c. \<not> is_whitespace c) s') < length s'" by (simp add: length_dropWhile_le le_imp_less_Suc)
  moreover have "length s' \<le> length s" using 2(1) by (simp add: length_dropWhile_le)
  ultimately show ?case by simp
qed simp

declare split_whitespace.simps [simp del]

definition encrypted_try_from :: "(string \<Rightarrow> byte list option) \<Rightarrow> string \<Rightarrow> parse_error + encrypted" where
  "encrypted_try_from decode s = (case split_whitespace s of
      [] \<Rightarrow> Inl MissingNonce
    | n # ps \<Rightarrow> (case decode n of
        None \<Rightarrow> Inl InvalidNonce
      | Some nonce \<Rightarrow> (case ps of
          [] \<Rightarrow> Inl MissingData
        | d # _ \<Rightarrow> (case decode d of
            None \<Rightarrow> Inl InvalidData
          | Some data \<Rightarrow> if length nonce = 12 then Inr \<lparr>enc_nonce = nonce, enc_data = data\<rparr> else Inl InvalidNonce))))"

subsection \<open>Credentials\<close>

datatype service = SSH | SMB | ESXi | SNMP

definition service_as_ref :: "service \<Rightarrow> string" where
  "service_as_ref s = (case s of SSH \<Rightarrow> ''ssh'' | SMB \<Rightarrow> ''smb'' | ESXi \<Rightarrow> ''esxi'' | SNMP \<Rightarrow> ''snmp'')"

record privilege_information =
  priv_username :: string
  priv_password :: string

datatype credential_type =
    CredUP string string "privilege_information option"
  | CredUSK string string string "privilege_information option"
  | CredSNMP string string string string string string

definition credential_type_as_ref :: "credential_type \<Rightarrow> string" where
  "credential_type_as_ref c = (case c of CredUP _ _ _ \<Rightarrow> ''up'' | CredUSK _ _ _ _ \<Rightarrow> ''usk'' | CredSNMP _ _ _ _ _ _ \<Rightarrow> ''snmp'')"

record credential =
  cred_service :: service
  cred_port :: "16 word option"
  cred_type :: credential_type

definition credential_default :: credential where
  "credential_default = \<lparr>cred_service = SSH, cred_port = None, cred_type = CredUP ''root'' [] None\<rparr>"

definition credential_password :: "credential \<Rightarrow> string" where
  "credential_password c = (case cred_type c of CredUP _ p _ \<Rightarrow> p | CredUSK _ p _ _ \<Rightarrow> p | CredSNMP _ p _ _ _ _ \<Rightarrow> p)"

text \<open>A fallible computation on a state, here of the random generator, and the operator \<^verbatim>\<open>?\<close>.\<close>

type_synonym ('r, 'e, 'a) rng_result = "'r \<Rightarrow> ('e + 'a) \<times> 'r"

definition rng_return :: "'a \<Rightarrow> ('r, 'e, 'a) rng_result" where
  "rng_return a r = (Inr a, r)"

definition rng_bind :: "('r, 'e, 'a) rng_result \<Rightarrow> ('a \<Rightarrow> ('r, 'e, 'b) rng_result) \<Rightarrow> ('r, 'e, 'b) rng_result" where
  "rng_bind m f r = (case m r of (Inl e, r') \<Rightarrow> (Inl e, r') | (Inr a, r') \<Rightarrow> f a r')"

definition map_privilege :: "(string \<Rightarrow> ('r, 'e, string) rng_result) \<Rightarrow> privilege_information option \<Rightarrow>
    ('r, 'e, privilege_information option) rng_result" where
  "map_privilege f privilege = (case privilege of
      None \<Rightarrow> rng_return None
    | Some p \<Rightarrow> rng_bind (f (priv_password p)) (\<lambda>pw. rng_return (Some (p\<lparr>priv_password := pw\<rparr>))))"

definition credential_type_map_password :: "(string \<Rightarrow> ('r, 'e, string) rng_result) \<Rightarrow> credential_type \<Rightarrow>
    ('r, 'e, credential_type) rng_result" where
  "credential_type_map_password f c = (case c of
      CredUP username password privilege \<Rightarrow>
        rng_bind (f password) (\<lambda>password. rng_bind (map_privilege f privilege) (\<lambda>privilege.
          rng_return (CredUP username password privilege)))
    | CredUSK username password private_key privilege \<Rightarrow>
        rng_bind (f password) (\<lambda>password. rng_bind (f private_key) (\<lambda>private_key.
          rng_bind (map_privilege f privilege) (\<lambda>privilege. rng_return (CredUSK username password private_key privilege))))
    | CredSNMP username password community auth_algorithm privacy_password privacy_algorithm \<Rightarrow>
        rng_bind (f password) (\<lambda>password. rng_bind (f privacy_password) (\<lambda>privacy_password.
          rng_return (CredSNMP username password community auth_algorithm privacy_password privacy_algorithm))))"

definition credential_map_password :: "(string \<Rightarrow> ('r, 'e, string) rng_result) \<Rightarrow> credential \<Rightarrow> ('r, 'e, credential) rng_result" where
  "credential_map_password f c = rng_bind (credential_type_map_password f (cred_type c)) (\<lambda>t. rng_return (c\<lparr>cred_type := t\<rparr>))"

fun map_passwords :: "(string \<Rightarrow> ('r, 'e, string) rng_result) \<Rightarrow> credential list \<Rightarrow> ('r, 'e, credential list) rng_result" where
  "map_passwords f [] = rng_return []"
| "map_passwords f (c # cs) = rng_bind (credential_map_password f c) (\<lambda>c'. rng_bind (map_passwords f cs) (\<lambda>cs'. rng_return (c' # cs')))"

subsection \<open>Texts and bytes\<close>

text \<open>A text is the list of its UTF-8 bytes; \<^verbatim>\<open>String::from_utf8\<close> accepts the well-formed ones.\<close>

definition string_bytes :: "string \<Rightarrow> byte list" where
  "string_bytes s = map (\<lambda>c. of_nat (of_char c)) s"

abbreviation utf8_cont :: "byte \<Rightarrow> bool" where
  "utf8_cont b \<equiv> 0x80 \<le> b \<and> b \<le> 0xBF"

fun utf8_valid :: "byte list \<Rightarrow> bool" where
  "utf8_valid [] = True"
| "utf8_valid (a # bs) =
     (if a < 0x80 then utf8_valid bs
      else case bs of
        [] \<Rightarrow> False
      | b # cs \<Rightarrow>
          if 0xC2 \<le> a \<and> a \<le> 0xDF then utf8_cont b \<and> utf8_valid cs
          else case cs of
            [] \<Rightarrow> False
          | c # ds \<Rightarrow>
              if 0xE0 \<le> a \<and> a \<le> 0xEF
              then (if a = 0xE0 then 0xA0 \<le> b \<and> b \<le> 0xBF else if a = 0xED then 0x80 \<le> b \<and> b \<le> 0x9F else utf8_cont b) \<and>
                   utf8_cont c \<and> utf8_valid ds
              else case ds of
                [] \<Rightarrow> False
              | d # es \<Rightarrow>
                  0xF0 \<le> a \<and> a \<le> 0xF4 \<and>
                  (if a = 0xF0 then 0x90 \<le> b \<and> b \<le> 0xBF else if a = 0xF4 then 0x80 \<le> b \<and> b \<le> 0x8F else utf8_cont b) \<and>
                  utf8_cont c \<and> utf8_cont d \<and> utf8_valid es)"

definition from_utf8 :: "byte list \<Rightarrow> string option" where
  "from_utf8 bs = (if utf8_valid bs then Some (map (\<lambda>b. char_of (unat b)) bs) else None)"

lemma from_utf8_bytes: "utf8_valid (string_bytes s) \<Longrightarrow> from_utf8 (string_bytes s) = Some s"
proof -
  have "char_of (unat (of_nat (of_char c) :: byte)) = c" for c
  proof -
    have "of_char c < (256 :: nat)" by (metis of_char_mod_256 mod_less_divisor zero_less_numeral)
    then show ?thesis by (simp add: unsigned_of_nat take_bit_nat_eq_self)
  qed
  then show "utf8_valid (string_bytes s) \<Longrightarrow> from_utf8 (string_bytes s) = Some s"
    by (simp add: from_utf8_def string_bytes_def comp_def)
qed

lemma string_bytes_Nil [simp]: "string_bytes s = [] \<longleftrightarrow> s = []"
  by (simp add: string_bytes_def)

subsection \<open>Round trips\<close>

lemma apply_keystream_twice: "apply_keystream ks (apply_keystream ks data) = data"
  by (rule nth_equalityI) (simp_all add: apply_keystream_def nth_enumerate_eq xor.assoc)

lemma length_apply_keystream [simp]: "length (apply_keystream ks data) = length data"
  by (simp add: apply_keystream_def)

lemma decrypt_encrypt: "decrypt_sync chacha key (encrypt_sync chacha key nonce data) = data"
  by (simp add: decrypt_sync_def encrypt_sync_def apply_keystream_twice)

definition base64_coding :: "(byte list \<Rightarrow> string) \<Rightarrow> (string \<Rightarrow> byte list option) \<Rightarrow> bool" where
  "base64_coding encode decode = ((\<forall>bs. decode (encode bs) = Some bs) \<and>
     (\<forall>bs. list_all (\<lambda>c. \<not> is_whitespace c) (encode bs)) \<and> (\<forall>bs. encode bs = [] \<longleftrightarrow> bs = []))"

abbreviation no_space :: "string \<Rightarrow> bool" where
  "no_space s \<equiv> list_all (\<lambda>c. \<not> is_whitespace c) s"

lemma is_whitespace_space [simp]: "is_whitespace CHR '' ''"
  by (simp add: is_whitespace_def)

lemma dropWhile_space: "no_space s \<Longrightarrow> dropWhile is_whitespace s = s"
  by (cases s) auto

lemma split_whitespace_Nil [simp]: "split_whitespace [] = []"
  by (simp add: split_whitespace.simps)

lemma split_whitespace_space: "split_whitespace (CHR '' '' # s) = split_whitespace s"
  by (simp add: split_whitespace.simps [of "CHR '' '' # s"] split_whitespace.simps [of s])

lemma split_whitespace_word:
  assumes "no_space w" "w \<noteq> []" "s = [] \<or> (\<exists>t. s = CHR '' '' # t)"
  shows "split_whitespace (w @ s) = w # split_whitespace s"
proof -
  obtain c w' where w: "w = c # w'" using assms(2) by (cases w) auto
  have c: "\<not> is_whitespace c" using assms(1) w by simp
  have all: "\<And>x. x \<in> set w \<Longrightarrow> \<not> is_whitespace x" using assms(1) by (simp add: list_all_iff)
  have "takeWhile (\<lambda>c. \<not> is_whitespace c) (w @ s) = w" "dropWhile (\<lambda>c. \<not> is_whitespace c) (w @ s) = s"
    using assms(3) all by (auto simp: takeWhile_append2 dropWhile_append2)
  moreover have "dropWhile is_whitespace (w @ s) = w @ s" using c w by simp
  ultimately show ?thesis using assms(2) by (simp add: split_whitespace.simps [of "w @ s"] Let_def)
qed

lemma encrypted_text_data:
  assumes "base64_coding encode decode" and "length nonce = 12"
  shows "encrypted_try_from decode (encrypted_display encode (encrypt_sync chacha key nonce data)) =
     (if data = [] then Inl MissingData else Inr (encrypt_sync chacha key nonce data))"
proof -
  let ?d = "apply_keystream (chacha key nonce) data"
  have code: "decode (encode bs) = Some bs" "no_space (encode bs)" "encode bs = [] \<longleftrightarrow> bs = []" for bs
    using assms(1) by (auto simp: base64_coding_def)
  have "nonce \<noteq> []" using assms(2) by auto
  then have n: "split_whitespace (encode nonce @ CHR '' '' # encode ?d) = encode nonce # split_whitespace (encode ?d)"
    using code split_whitespace_word [of "encode nonce" "CHR '' '' # encode ?d"] by (simp add: split_whitespace_space)
  show ?thesis
  proof (cases "data = []")
    case True
    then have "?d = []" by (simp add: apply_keystream_def)
    moreover have "encode [] = []" unfolding code(3) ..
    ultimately have "split_whitespace (encode nonce @ CHR '' '' # encode ?d) = [encode nonce]" using n by simp
    then show ?thesis using True code(1) by (simp add: encrypted_try_from_def encrypted_display_def encrypt_sync_def)
  next
    case False
    then have "?d \<noteq> []" by (metis length_0_conv length_apply_keystream)
    then have "split_whitespace (encode ?d) = [encode ?d]" using split_whitespace_word [of "encode ?d" "[]"] code by simp
    then show ?thesis using False n code assms(2) by (simp add: encrypted_try_from_def encrypted_display_def encrypt_sync_def)
  qed
qed

text \<open>
  The text of encrypted bytes is read back as them, unless there are no bytes: the text of an
  empty secret is refused with \<^verbatim>\<open>MissingData\<close>.
\<close>

theorem encrypted_text_round_trip:
  assumes "base64_coding encode decode" and "length nonce = 12"
  shows "encrypted_try_from decode (encrypted_display encode (encrypt_sync chacha key nonce data)) =
     (if data = [] then Inl MissingData else Inr (encrypt_sync chacha key nonce data))"
  using assms by (rule encrypted_text_data)

text \<open>A coding that satisfies the laws: two letters for each byte.\<close>

definition example_encode :: "byte list \<Rightarrow> string" where
  "example_encode bs = concat (map (\<lambda>b. [char_of (97 + unat b div 16), char_of (97 + unat b mod 16)]) bs)"

definition example_byte :: "char \<Rightarrow> char \<Rightarrow> byte" where
  "example_byte c d = of_nat (16 * (of_char c - 97) + (of_char d - 97))"

fun example_decode :: "string \<Rightarrow> byte list option" where
  "example_decode [] = Some []"
| "example_decode [c] = None"
| "example_decode (c # d # s) = map_option (\<lambda>bs. example_byte c d # bs) (example_decode s)"

lemma example_coding: "base64_coding example_encode example_decode"
proof -
  have byte: "unat b div 16 < 16" "unat b mod 16 < 16" for b :: byte using unsigned_less [of b, where 'a = nat] by auto
  have code: "of_char (char_of (97 + n) :: char) = 97 + n" if "n < 16" for n :: nat using that by (simp add: of_char_of)
  have "example_byte (char_of (97 + unat b div 16)) (char_of (97 + unat b mod 16)) = b" for b
  proof -
    have "16 * (unat b div 16) + unat b mod 16 = unat b" by simp
    then show ?thesis unfolding example_byte_def code [OF byte(1)] code [OF byte(2)] add_diff_cancel_left' by (metis of_nat_unat ucast_id)
  qed
  then have "example_decode (example_encode bs) = Some bs" for bs
    by (induction bs) (simp_all add: example_encode_def)
  moreover have "no_space (example_encode bs)" for bs
  proof -
    have "\<not> is_whitespace (char_of (97 + n))" if "n < 16" for n :: nat
      unfolding is_whitespace_def code [OF that] by simp
    then show ?thesis by (induction bs) (simp_all add: example_encode_def byte)
  qed
  moreover have "example_encode bs = [] \<longleftrightarrow> bs = []" for bs by (cases bs) (simp_all add: example_encode_def)
  ultimately show ?thesis by (simp add: base64_coding_def)
qed

theorem encrypted_text_round_trip_witness:
  "encrypted_try_from example_decode (encrypted_display example_encode (encrypt_sync (\<lambda>_ _ i. of_nat i) [] (replicate 12 7) [])) = Inl MissingData \<and>
   encrypted_try_from example_decode (encrypted_display example_encode (encrypt_sync (\<lambda>_ _ i. of_nat i) [] (replicate 12 7) [1, 2])) =
     Inr (encrypt_sync (\<lambda>_ _ i. of_nat i) [] (replicate 12 7) [1, 2])"
proof -
  have "length (replicate 12 (7 :: byte)) = 12" by simp
  note rt = encrypted_text_round_trip [OF example_coding this, of "\<lambda>_ _ i. of_nat i" "[]"]
  show ?thesis using rt [of "[]"] rt [of "[1, 2]"] by simp
qed

subsection \<open>Mapping the secrets of a credential\<close>

definition privilege_secrets :: "privilege_information option \<Rightarrow> string list" where
  "privilege_secrets p = (case p of None \<Rightarrow> [] | Some q \<Rightarrow> [priv_password q])"

definition credential_secrets :: "credential \<Rightarrow> string list" where
  "credential_secrets c = (case cred_type c of
      CredUP _ p q \<Rightarrow> p # privilege_secrets q
    | CredUSK _ p k q \<Rightarrow> p # k # privilege_secrets q
    | CredSNMP _ p _ _ q _ \<Rightarrow> [p, q])"

text \<open>
  Mapping and mapping back: \<open>f\<close> succeeds on a secret, and \<open>g\<close> returns it from the result when the secret
  is \<open>ok\<close> and fails with the error \<open>E\<close> otherwise.
\<close>

definition returned :: "'d \<Rightarrow> (string \<Rightarrow> bool) \<Rightarrow> string list \<Rightarrow> 'a \<Rightarrow> 'd + 'a" where
  "returned E ok ps a = (if list_all ok ps then Inr a else Inl E)"

definition undone_by :: "string set \<Rightarrow> 'd \<Rightarrow> (string \<Rightarrow> bool) \<Rightarrow> (string \<Rightarrow> ('r, 'e, string) rng_result) \<Rightarrow> (string \<Rightarrow> ('q, 'd, string) rng_result) \<Rightarrow> bool" where
  "undone_by P E ok f g = (\<forall>p\<in>P. \<forall>r. \<exists>q r'. f p r = (Inr q, r') \<and> (\<forall>x. g q x = (returned E ok [p] p, x)))"

lemma undone_byE:
  assumes "undone_by P E ok f g" "p \<in> P"
  obtains q r' where "f p r = (Inr q, r')" "\<And>x. g q x = (returned E ok [p] p, x)"
  using assms unfolding undone_by_def by blast

lemma returned_bind:
  assumes "\<And>x. m x = (returned E ok ps a, x)" and "\<And>x. f a x = (returned E ok qs b, x)"
  shows "rng_bind m f x = (returned E ok (ps @ qs) b, x)"
  using assms by (simp add: rng_bind_def returned_def)

lemma returned_return: "rng_return a x = (returned E ok [] a, x)"
  by (simp add: rng_return_def returned_def)

lemma map_privilege_undone:
  assumes "undone_by P E ok f g" "set (privilege_secrets p) \<subseteq> P"
  shows "\<exists>q r'. map_privilege f p r = (Inr q, r') \<and> (\<forall>x. map_privilege g q x = (returned E ok (privilege_secrets p) p, x))"
proof (cases p)
  case None
  then show ?thesis by (simp add: map_privilege_def rng_return_def privilege_secrets_def returned_def)
next
  case (Some v)
  then have "priv_password v \<in> P" using assms(2) by (simp add: privilege_secrets_def)
  then obtain q r' where "f (priv_password v) r = (Inr q, r')" "\<And>x. g q x = (returned E ok [priv_password v] (priv_password v), x)"
    using undone_byE [OF assms(1)] by metis
  then show ?thesis using Some by (simp add: map_privilege_def rng_bind_def rng_return_def privilege_secrets_def returned_def)
qed

lemma credential_type_map_undone:
  assumes "undone_by P E ok f g" and "cred_type c = t" and "set (credential_secrets c) \<subseteq> P"
  shows "\<exists>u r'. credential_type_map_password f t r = (Inr u, r') \<and>
      (\<forall>x. credential_type_map_password g u x = (returned E ok (credential_secrets c) t, x))"
proof (cases t)
  case (CredUP u p v)
  then have secrets: "p \<in> P" "set (privilege_secrets v) \<subseteq> P" using assms(2,3) by (simp_all add: credential_secrets_def)
  obtain q r1 where q: "f p r = (Inr q, r1)" "\<And>x. g q x = (returned E ok [p] p, x)" using undone_byE [OF assms(1)] secrets by metis
  obtain w r2 where w: "map_privilege f v r1 = (Inr w, r2)" "\<And>x. map_privilege g w x = (returned E ok (privilege_secrets v) v, x)"
    using map_privilege_undone [OF assms(1)] secrets by metis
  have "credential_type_map_password f t r = (Inr (CredUP u q w), r2)"
    using CredUP q w by (simp add: credential_type_map_password_def rng_bind_def rng_return_def)
  moreover have "credential_type_map_password g (CredUP u q w) x = (returned E ok ([p] @ privilege_secrets v @ []) t, x)" for x
    unfolding credential_type_map_password_def credential_type.case
    by (rule returned_bind [OF q(2)], rule returned_bind [OF w(2)]) (simp add: CredUP rng_return_def returned_def)
  ultimately show ?thesis using assms(2) CredUP by (auto simp: credential_secrets_def)
next
  case (CredUSK u p k v)
  then have secrets: "p \<in> P" "k \<in> P" "set (privilege_secrets v) \<subseteq> P" using assms(2,3) by (simp_all add: credential_secrets_def)
  obtain q r1 where q: "f p r = (Inr q, r1)" "\<And>x. g q x = (returned E ok [p] p, x)" using undone_byE [OF assms(1)] secrets by metis
  obtain l r2 where l: "f k r1 = (Inr l, r2)" "\<And>x. g l x = (returned E ok [k] k, x)" using undone_byE [OF assms(1)] secrets by metis
  obtain w r3 where w: "map_privilege f v r2 = (Inr w, r3)" "\<And>x. map_privilege g w x = (returned E ok (privilege_secrets v) v, x)"
    using map_privilege_undone [OF assms(1)] secrets by metis
  have "credential_type_map_password f t r = (Inr (CredUSK u q l w), r3)"
    using CredUSK q l w by (simp add: credential_type_map_password_def rng_bind_def rng_return_def)
  moreover have "credential_type_map_password g (CredUSK u q l w) x = (returned E ok ([p] @ [k] @ privilege_secrets v @ []) t, x)" for x
    unfolding credential_type_map_password_def credential_type.case
    by (rule returned_bind [OF q(2)], rule returned_bind [OF l(2)], rule returned_bind [OF w(2)]) (simp add: CredUSK rng_return_def returned_def)
  ultimately show ?thesis using assms(2) CredUSK by (auto simp: credential_secrets_def)
next
  case (CredSNMP u p c' a k b)
  then have secrets: "p \<in> P" "k \<in> P" using assms(2,3) by (simp_all add: credential_secrets_def)
  obtain q r1 where q: "f p r = (Inr q, r1)" "\<And>x. g q x = (returned E ok [p] p, x)" using undone_byE [OF assms(1)] secrets by metis
  obtain l r2 where l: "f k r1 = (Inr l, r2)" "\<And>x. g l x = (returned E ok [k] k, x)" using undone_byE [OF assms(1)] secrets by metis
  have "credential_type_map_password f t r = (Inr (CredSNMP u q c' a l b), r2)"
    using CredSNMP q l by (simp add: credential_type_map_password_def rng_bind_def rng_return_def)
  moreover have "credential_type_map_password g (CredSNMP u q c' a l b) x = (returned E ok ([p] @ [k] @ []) t, x)" for x
    unfolding credential_type_map_password_def credential_type.case
    by (rule returned_bind [OF q(2)], rule returned_bind [OF l(2)]) (simp add: CredSNMP rng_return_def returned_def)
  ultimately show ?thesis using assms(2) CredSNMP by (auto simp: credential_secrets_def)
qed

lemma credential_map_undone:
  assumes "undone_by P E ok f g" "set (credential_secrets c) \<subseteq> P"
  shows "\<exists>d r'. credential_map_password f c r = (Inr d, r') \<and> (\<forall>x. credential_map_password g d x = (returned E ok (credential_secrets c) c, x))"
proof -
  obtain u r' where u: "credential_type_map_password f (cred_type c) r = (Inr u, r')"
    "\<And>x. credential_type_map_password g u x = (returned E ok (credential_secrets c) (cred_type c), x)"
    using credential_type_map_undone [OF assms(1) refl assms(2)] by metis
  then have "credential_map_password f c r = (Inr (c\<lparr>cred_type := u\<rparr>), r')"
    by (simp add: credential_map_password_def rng_bind_def rng_return_def)
  moreover have "credential_map_password g (c\<lparr>cred_type := u\<rparr>) x = (returned E ok (credential_secrets c) c, x)" for x
    using u(2) by (simp add: credential_map_password_def rng_bind_def rng_return_def returned_def)
  ultimately show ?thesis by blast
qed

lemma map_passwords_undone:
  assumes "undone_by P E ok f g" "set (concat (map credential_secrets cs)) \<subseteq> P"
  shows "\<exists>ds r'. map_passwords f cs r = (Inr ds, r') \<and>
     (\<forall>x. map_passwords g ds x = (returned E ok (concat (map credential_secrets cs)) cs, x))"
  using assms(2)
proof (induction cs arbitrary: r)
  case Nil
  then show ?case by (simp add: rng_return_def returned_def)
next
  case (Cons c cs)
  obtain d r1 where d: "credential_map_password f c r = (Inr d, r1)"
    "\<And>x. credential_map_password g d x = (returned E ok (credential_secrets c) c, x)"
    using credential_map_undone [OF assms(1)] Cons.prems by (metis concat.simps(2) le_sup_iff list.simps(9) set_append)
  obtain ds r2 where ds: "map_passwords f cs r1 = (Inr ds, r2)"
    "\<And>x. map_passwords g ds x = (returned E ok (concat (map credential_secrets cs)) cs, x)"
    using Cons.IH Cons.prems by (metis concat.simps(2) le_sup_iff list.simps(9) set_append)
  have "map_passwords f (c # cs) r = (Inr (d # ds), r2)" using d(1) ds(1) by (simp add: rng_bind_def rng_return_def)
  moreover have "map_passwords g (d # ds) x = (returned E ok (concat (map credential_secrets (c # cs))) (c # cs), x)" for x
    using d(2) ds(2) by (simp add: rng_bind_def rng_return_def returned_def)
  ultimately show ?case by blast
qed

end
