(* ===== verification/Scan_Models.thy ===== *)
theory Scan_Models
  imports Crypt Wave_Plan
begin

section \<open>Scans\<close>

text \<open>
  The data of a scan: \<^verbatim>\<open>rust/src/models/scan.rs\<close>, \<^verbatim>\<open>target.rs\<close>, \<^verbatim>\<open>port.rs\<close> and \<^verbatim>\<open>scanner_preference.rs\<close>,
  with the port list that is handed to \<^verbatim>\<open>openvas\<close>.
\<close>

subsection \<open>Ports\<close>

record port_range =
  range_start :: nat
  range_end :: "nat option"

record port =
  port_protocol :: "protocol option"
  port_range :: "port_range list"

definition port_range_display :: "port_range \<Rightarrow> string" where
  "port_range_display r = (case range_end r of
      Some e \<Rightarrow> show_nat (range_start r) @ ''-'' @ show_nat e
    | None \<Rightarrow> show_nat (range_start r))"

definition protocol_try_from :: "string \<Rightarrow> string + protocol" where
  "protocol_try_from value =
     (if to_lowercase value = ''udp'' then Inr UDP else if to_lowercase value = ''tcp'' then Inr TCP
      else Inl (''Invalid protocol: '' @ value))"

definition protocol_display :: "protocol \<Rightarrow> string" where
  "protocol_display p = (case p of UDP \<Rightarrow> ''udp'' | TCP \<Rightarrow> ''tcp'')"

definition add_range_to_list :: "string \<Rightarrow> nat \<Rightarrow> nat option \<Rightarrow> string" where
  "add_range_to_list l s e = (case e of
      Some e \<Rightarrow> fold (\<lambda>p l. l @ show_nat p @ '','') [s..<Suc e] l
    | None \<Rightarrow> l @ show_nat s @ '','')"

definition add_ranges :: "port_range list \<Rightarrow> string \<Rightarrow> string" where
  "add_ranges rs l = fold (\<lambda>r l. add_range_to_list l (range_start r) (range_end r)) rs l"

definition add_port :: "port \<Rightarrow> string \<times> string \<Rightarrow> string \<times> string" where
  "add_port p ls = (case ls of (tcp, udp) \<Rightarrow>
     (case port_protocol p of
        Some TCP \<Rightarrow> (add_ranges (port_range p) tcp, udp)
      | Some UDP \<Rightarrow> (tcp, add_ranges (port_range p) udp)
      | None \<Rightarrow> (add_ranges (port_range p) tcp, add_ranges (port_range p) udp)))"

definition ports_to_openvas_port_list :: "port list \<Rightarrow> string option" where
  "ports_to_openvas_port_list ports =
     (if ports = [] then None
      else case fold add_port ports (''T:'', ''U:'') of (tcp, udp) \<Rightarrow>
        Some (if tcp \<noteq> ''T:'' \<and> udp \<noteq> ''U:'' then tcp @ udp
              else if tcp = ''T:'' \<and> udp \<noteq> ''U:'' then udp
              else if tcp \<noteq> ''T:'' \<and> udp = ''U:'' then tcp
              else []))"

subsection \<open>Targets and scans\<close>

type_synonym host = string

datatype alive_test_methods = TcpAck | Icmp | Arp | ConsiderAlive | TcpSyn

record target =
  target_hosts :: "host list"
  target_ports :: "port list"
  target_excluded_hosts :: "host list"
  target_credentials :: "credential list"
  target_alive_test_ports :: "port list"
  target_alive_test_methods :: "alive_test_methods list"
  target_reverse_lookup_unify :: "bool option"
  target_reverse_lookup_only :: "bool option"

definition target_default :: target where
  "target_default = \<lparr>target_hosts = [], target_ports = [], target_excluded_hosts = [], target_credentials = [],
     target_alive_test_ports = [], target_alive_test_methods = [], target_reverse_lookup_unify = None,
     target_reverse_lookup_only = None\<rparr>"

record scan_preference =
  pref_id :: string
  pref_value :: string

record scan =
  scan_scan_id :: string
  scan_target :: target
  scan_preferences :: "scan_preference list"
  scan_vts :: "scan_vt list"

abbreviation scan_hosts :: "scan \<Rightarrow> host list" where
  "scan_hosts s \<equiv> target_hosts (scan_target s)"

subsection \<open>The port list\<close>

definition range_ports :: "port_range \<Rightarrow> nat list" where
  "range_ports r = (case range_end r of Some e \<Rightarrow> [range_start r..<Suc e] | None \<Rightarrow> [range_start r])"

definition ports_for :: "protocol \<Rightarrow> port list \<Rightarrow> nat list" where
  "ports_for pt ports = concat (map (\<lambda>p. if port_protocol p = None \<or> port_protocol p = Some pt
     then concat (map range_ports (port_range p)) else []) ports)"

definition port_text :: "nat list \<Rightarrow> string" where
  "port_text ns = concat (map (\<lambda>n. show_nat n @ '','') ns)"

lemma port_text_simps [simp]: "port_text [] = []" "port_text (ms @ ns) = port_text ms @ port_text ns"
  by (simp_all add: port_text_def)

lemma fold_port_text: "fold (\<lambda>p l. l @ show_nat p @ '','') ns l = l @ port_text ns"
  by (induction ns arbitrary: l) (simp_all add: port_text_def)

lemma add_range_text: "add_range_to_list l (range_start r) (range_end r) = l @ port_text (range_ports r)"
  by (auto simp: add_range_to_list_def range_ports_def fold_port_text port_text_def simp del: upt_Suc split: option.splits)

lemma add_ranges_text: "add_ranges rs l = l @ port_text (concat (map range_ports rs))"
  by (induction rs arbitrary: l) (simp_all add: add_ranges_def add_range_text)

lemma ports_for_Cons: "ports_for pt (p # ports) = ports_for pt [p] @ ports_for pt ports"
  by (simp add: ports_for_def)

lemma add_port_text:
  "add_port p (tcp, udp) = (tcp @ port_text (ports_for TCP [p]), udp @ port_text (ports_for UDP [p]))"
proof -
  consider "port_protocol p = None" | "port_protocol p = Some TCP" | "port_protocol p = Some UDP"
    using protocol.exhaust by (metis not_None_eq)
  then show ?thesis by cases (simp_all add: add_port_def ports_for_def add_ranges_text)
qed

lemma add_ports_text:
  "fold add_port ports (tcp, udp) = (tcp @ port_text (ports_for TCP ports), udp @ port_text (ports_for UDP ports))"
proof (induction ports arbitrary: tcp udp)
  case (Cons p ports)
  then show ?case
    by (simp add: Cons.IH add_port_text ports_for_Cons [of TCP p ports] ports_for_Cons [of UDP p ports])
qed (simp add: ports_for_def)

lemma port_text_Nil: "port_text ns = [] \<longleftrightarrow> ns = []"
  by (cases ns) (simp_all add: port_text_def)

text \<open>
  The port list for \<^verbatim>\<open>openvas\<close> names, in order, every port of every range that is given for TCP or
  for no protocol after \<open>T:\<close>, then those for UDP or for no protocol after \<open>U:\<close>; a part without ports is
  left out.
\<close>

theorem port_list_contents:
  "ports_to_openvas_port_list ports =
     (if ports = [] then None
      else Some ((if ports_for TCP ports = [] then [] else ''T:'' @ port_text (ports_for TCP ports)) @
                 (if ports_for UDP ports = [] then [] else ''U:'' @ port_text (ports_for UDP ports))))"
  by (simp add: ports_to_openvas_port_list_def add_ports_text port_text_Nil)

end
