(* ===== verification/Scan_Status.thy ===== *)
theory Scan_Status
  imports Scan_Models
begin

section \<open>The status of a scan\<close>

text \<open>
  \<^verbatim>\<open>rust/src/models/status.rs\<close> and \<^verbatim>\<open>rust/src/models/host_info.rs\<close>: the phase and the times of a scan
  and the progress of its hosts. Counters are unsigned 64 bit words that wrap around, as in a release
  build.
\<close>

subsection \<open>Hosts\<close>

record host_info =
  hi_all :: "64 word"
  hi_excluded :: "64 word"
  hi_dead :: "64 word"
  hi_alive :: "64 word"
  hi_queued :: "64 word"
  hi_finished :: "64 word"
  hi_scanning :: "(string, 32 word) hashmap option"
  hi_remaining :: "(string, 64 word) hashmap"

definition host_info_default :: host_info where
  "host_info_default = \<lparr>hi_all = 0, hi_excluded = 0, hi_dead = 0, hi_alive = 0, hi_queued = 0, hi_finished = 0,
     hi_scanning = None, hi_remaining = []\<rparr>"

record host_info_builder =
  hib_all :: "64 word"
  hib_excluded :: "64 word"
  hib_dead :: "64 word"
  hib_alive :: "64 word"
  hib_queued :: "64 word"
  hib_finished :: "64 word"
  hib_scanning :: "(string, 32 word) hashmap option"

definition host_info_build :: "host_info_builder \<Rightarrow> host_info" where
  "host_info_build b = \<lparr>hi_all = hib_all b, hi_excluded = hib_excluded b, hi_dead = hib_dead b,
     hi_alive = hib_alive b, hi_queued = hib_queued b, hi_finished = hib_finished b,
     hi_scanning = hib_scanning b, hi_remaining = []\<rparr>"

definition from_hosts_and_num_vts :: "host list \<Rightarrow> 64 word \<Rightarrow> host_info" where
  "from_hosts_and_num_vts hosts num_vts = host_info_default\<lparr>hi_all := of_nat (length hosts),
     hi_queued := of_nat (length hosts), hi_remaining := fold (\<lambda>h. hm_insert h num_vts) hosts []\<rparr>"

definition register_finished_script :: "host \<Rightarrow> host_info \<Rightarrow> host_info" where
  "register_finished_script target hi = (case hm_get (hi_remaining hi) target of
      None \<Rightarrow> hi
    | Some n \<Rightarrow>
        (let num_vts = n - 1
         in if num_vts = 0
            then hi\<lparr>hi_finished := hi_finished hi + 1, hi_queued := hi_queued hi - 1,
                    hi_remaining := hm_remove target (hi_remaining hi)\<rparr>
            else hi\<lparr>hi_remaining := hm_insert target num_vts (hi_remaining hi)\<rparr>))"

definition hi_finish :: "host_info \<Rightarrow> host_info exec" where
  "hi_finish hi = (let hi' = hi\<lparr>hi_remaining := []\<rparr> in if hi_queued hi' = 0 then Ret hi' else Panic)"

text \<open>The loop of \<^verbatim>\<open>update_with\<close> over the hosts of the new status.\<close>

definition update_scanning :: "(string \<times> 32 word) list \<Rightarrow> (string, 32 word) hashmap \<Rightarrow> (string, 32 word) hashmap" where
  "update_scanning entries hs = fold (\<lambda>(host, progress) hs.
     if progress = 100 \<or> progress = -1 then hm_remove host hs else hm_insert host progress hs) entries hs"

definition hi_update_with :: "((string \<times> 32 word) list \<Rightarrow> (string \<times> 32 word) list) \<Rightarrow> host_info \<Rightarrow> host_info \<Rightarrow> host_info" where
  "hi_update_with it hi other = hi\<lparr>
     hi_all := (if hi_all other \<noteq> 0 then hi_all other else hi_all hi),
     hi_excluded := (if hi_excluded hi = 0 then hi_excluded other else hi_excluded hi),
     hi_dead := hi_dead hi + hi_dead other,
     hi_alive := hi_alive hi + hi_alive other,
     hi_finished := hi_finished hi + hi_finished other,
     hi_scanning := Some (update_scanning (it (case hi_scanning hi of None \<Rightarrow> [] | Some m \<Rightarrow> m))
       (case hi_scanning other of None \<Rightarrow> [] | Some m \<Rightarrow> m))\<rparr>"

subsection \<open>Phases\<close>

datatype phase = Stored | Requested | Running | Stopped | Failed | Succeeded

definition phase_is_running :: "phase \<Rightarrow> bool" where
  "phase_is_running p = (case p of Running \<Rightarrow> True | Requested \<Rightarrow> True | _ \<Rightarrow> False)"

definition phase_from_str :: "string \<Rightarrow> phase option" where
  "phase_from_str s =
     (if s = ''requested'' then Some Requested else if s = ''running'' then Some Running
      else if s = ''stopped'' then Some Stopped else if s = ''failed'' then Some Failed
      else if s = ''succeeded'' then Some Succeeded else if s = ''stored'' then Some Stored else None)"

definition phase_display :: "phase \<Rightarrow> string" where
  "phase_display p = (case p of Requested \<Rightarrow> ''requested'' | Running \<Rightarrow> ''running'' | Stopped \<Rightarrow> ''stopped''
     | Failed \<Rightarrow> ''failed'' | Succeeded \<Rightarrow> ''succeeded'' | Stored \<Rightarrow> ''stored'')"

record status =
  st_start_time :: "64 word option"
  st_end_time :: "64 word option"
  st_status :: phase
  st_host_info :: "host_info option"

definition status_default :: status where
  "status_default = \<lparr>st_start_time = None, st_end_time = None, st_status = Stored, st_host_info = None\<rparr>"

definition status_is_running :: "status \<Rightarrow> bool" where
  "status_is_running st = phase_is_running (st_status st)"

definition status_is_done :: "status \<Rightarrow> bool" where
  "status_is_done st = (\<not> status_is_running st \<and> st_status st \<noteq> Stored)"

definition status_update_with :: "((string \<times> 32 word) list \<Rightarrow> (string \<times> 32 word) list) \<Rightarrow> status \<Rightarrow> status \<Rightarrow> status" where
  "status_update_with it st other = st\<lparr>
     st_host_info := (case st_host_info other of
        Some host_info \<Rightarrow> Some (hi_update_with it (case st_host_info st of Some h \<Rightarrow> h | None \<Rightarrow> host_info_default) host_info)
      | None \<Rightarrow> st_host_info st),
     st_start_time := (if st_start_time other \<noteq> None then st_start_time other else st_start_time st),
     st_end_time := (if st_end_time other \<noteq> None then st_end_time other else st_end_time st)\<rparr>"

lemma phase_round_trip: "phase_from_str s = Some p \<longleftrightarrow> s = phase_display p"
  by (cases p) (auto simp: phase_from_str_def phase_display_def)

subsection \<open>Merging the reports of a scan\<close>

lemma update_scanning_simps [simp]:
  "update_scanning [] hs = hs"
  "update_scanning ((h, p) # es) hs = update_scanning es (if p = 100 \<or> p = -1 then hm_remove h hs else hm_insert h p hs)"
  by (simp_all add: update_scanning_def)

definition scanning_of :: "host_info \<Rightarrow> string \<Rightarrow> 32 word option" where
  "scanning_of hi h = (case hi_scanning hi of None \<Rightarrow> None | Some m \<Rightarrow> hm_get m h)"

definition report_of :: "(string \<times> 32 word) list \<Rightarrow> string \<Rightarrow> 32 word option \<Rightarrow> 32 word option" where
  "report_of es h old = (case map_of es h of
      None \<Rightarrow> old
    | Some p \<Rightarrow> if p = 100 \<or> p = -1 then None else Some p)"

lemma update_scanning_get:
  "distinct (map fst es) \<Longrightarrow> hm_get (update_scanning es hs) h = report_of es h (hm_get hs h)"
proof (induction es arbitrary: hs)
  case (Cons e es)
  obtain h' p where e: "e = (h', p)" by (cases e)
  have "h' \<notin> fst ` set es" using Cons.prems e by simp
  then have "map_of es h' = None" by (simp add: map_of_eq_None_iff)
  then show ?case using Cons.IH Cons.prems e by (auto simp: report_of_def split: option.splits)
qed (simp add: report_of_def)

lemma iteration_keys_distinct:
  assumes "iteration it" shows "distinct (map fst (it m)) \<longleftrightarrow> distinct (map fst m)"
proof -
  have "mset (map fst (it m)) = mset (map fst m)" using assms by (simp add: iteration_def)
  then show ?thesis by (rule mset_eq_imp_distinct_iff)
qed

lemma map_of_iteration:
  assumes "iteration it" "hm_wf m"
  shows "map_of (it m) = map_of m"
  using assms iteration_set [OF assms(1), of m] by (intro map_of_inject_set [THEN iffD2]) (simp_all add: iteration_keys_distinct)

definition scanning_list :: "host_info \<Rightarrow> (string \<times> 32 word) list" where
  "scanning_list hi = (case hi_scanning hi of None \<Rightarrow> [] | Some m \<Rightarrow> m)"

lemma scanning_of_list: "scanning_of hi h = map_of (scanning_list hi) h"
  by (auto simp: scanning_of_def scanning_list_def split: option.splits)

lemma hi_update_with_counts [simp]:
  "hi_dead (hi_update_with it hi other) = hi_dead hi + hi_dead other"
  "hi_alive (hi_update_with it hi other) = hi_alive hi + hi_alive other"
  "hi_finished (hi_update_with it hi other) = hi_finished hi + hi_finished other"
  by (simp_all add: hi_update_with_def)

lemma hi_update_with_scanning:
  assumes "iteration it" "hm_wf (scanning_list hi)"
  shows "scanning_of (hi_update_with it hi other) h = report_of (scanning_list hi) h (scanning_of other h)"
proof -
  have "scanning_of (hi_update_with it hi other) h = hm_get (update_scanning (it (scanning_list hi)) (scanning_list other)) h"
    by (simp add: scanning_of_def hi_update_with_def scanning_list_def)
  also have "\<dots> = report_of (it (scanning_list hi)) h (scanning_of other h)"
    using assms by (simp add: update_scanning_get iteration_keys_distinct scanning_of_list)
  finally show ?thesis using map_of_iteration [OF assms] by (simp add: report_of_def)
qed

text \<open>
  The scheduler of \<^verbatim>\<open>openvasd\<close> merges every fetched report with the stored status: the report is updated
  with the stored status and takes its place (\<^verbatim>\<open>handle_results\<close> of \<^verbatim>\<open>rust/src/openvasd/scheduling.rs\<close>).
\<close>

definition merge_reports :: "((string \<times> 32 word) list \<Rightarrow> (string \<times> 32 word) list) \<Rightarrow> status list \<Rightarrow> status \<Rightarrow> status" where
  "merge_reports it reports stored = fold (\<lambda>report st. status_update_with it report st) reports stored"


definition example_report :: "phase \<Rightarrow> 64 word option \<Rightarrow> 64 word \<Rightarrow> (string \<times> 32 word) list \<Rightarrow> status" where
  "example_report p t dead hosts = \<lparr>st_start_time = t, st_end_time = None, st_status = p,
     st_host_info = Some (host_info_default\<lparr>hi_dead := dead, hi_scanning := Some hosts\<rparr>)\<rparr>"


subsection \<open>Counting finished hosts\<close>

lemma fold_insert_get:
  "hm_get (fold (\<lambda>h. hm_insert h v) hosts m) = (\<lambda>h. if h \<in> set hosts then Some v else hm_get m h)"
  by (induction hosts arbitrary: m) (auto simp: fun_eq_iff)

definition hosts_done :: "host list \<Rightarrow> nat \<Rightarrow> host list \<Rightarrow> host set" where
  "hosts_done hosts n targets = {h \<in> set hosts. n \<le> count_list targets h}"

definition progress_inv :: "host list \<Rightarrow> nat \<Rightarrow> host list \<Rightarrow> host_info \<Rightarrow> bool" where
  "progress_inv hosts n targets hi =
     ((\<forall>h. hm_get (hi_remaining hi) h =
        (if h \<in> set hosts \<and> count_list targets h < n then Some (of_nat (n - count_list targets h)) else None)) \<and>
      hi_finished hi = of_nat (card (hosts_done hosts n targets)) \<and>
      hi_queued hi = of_nat (length hosts) - of_nat (card (hosts_done hosts n targets)))"

lemma of_nat_eq_iff_64: "j < 2 ^ 64 \<Longrightarrow> k < 2 ^ 64 \<Longrightarrow> (of_nat j :: 64 word) = of_nat k \<longleftrightarrow> j = k"
  by (auto simp: word_of_nat_eq_iff take_bit_nat_eq_self)

lemma of_nat_eq_1: "k < 2 ^ 64 \<Longrightarrow> (of_nat k :: 64 word) - 1 = 0 \<longleftrightarrow> k = 1"
  using of_nat_eq_iff_64 [of k 1] by simp

lemma progress_inv_register:
  assumes inv: "progress_inv hosts n targets hi" and n: "n < 2 ^ 64"
  shows "progress_inv hosts n (targets @ [t]) (register_finished_script t hi)"
proof (cases "t \<in> set hosts \<and> count_list targets t < n")
  case False
  then have "hosts_done hosts n (targets @ [t]) = hosts_done hosts n targets" by (auto simp: hosts_done_def)
  moreover have "register_finished_script t hi = hi"
  proof -
    have "hm_get (hi_remaining hi) t = None" using False inv unfolding progress_inv_def by metis
    then show ?thesis by (simp add: register_finished_script_def)
  qed
  moreover have "(h \<in> set hosts \<and> count_list (targets @ [t]) h < n) = (h \<in> set hosts \<and> count_list targets h < n)" for h
    using False by auto
  moreover have "h \<in> set hosts \<and> count_list targets h < n \<Longrightarrow> count_list (targets @ [t]) h = count_list targets h" for h
    using False by auto
  ultimately show ?thesis using inv by (simp add: progress_inv_def)
next
  case True
  let ?c = "count_list targets t"
  have get: "hm_get (hi_remaining hi) t = Some (of_nat (n - ?c))" using inv True by (simp add: progress_inv_def)
  show ?thesis
  proof (cases "Suc ?c = n")
    case last: True
    then have "n - ?c = 1" by simp
    then have reg: "register_finished_script t hi = hi\<lparr>hi_finished := hi_finished hi + 1, hi_queued := hi_queued hi - 1,
        hi_remaining := hm_remove t (hi_remaining hi)\<rparr>"
      using get by (simp add: register_finished_script_def)
    have "hosts_done hosts n (targets @ [t]) = insert t (hosts_done hosts n targets)"
      using True last by (auto simp: hosts_done_def)
    moreover have "t \<notin> hosts_done hosts n targets" using last by (simp add: hosts_done_def)
    ultimately have "card (hosts_done hosts n (targets @ [t])) = Suc (card (hosts_done hosts n targets))"
      by (simp add: hosts_done_def)
    then show ?thesis using inv reg last by (auto simp: progress_inv_def)
  next
    case False
    then have less: "Suc ?c < n" using True by simp
    have "(of_nat (n - ?c) :: 64 word) - 1 \<noteq> 0" using n less by (subst of_nat_eq_1) auto
    then have reg: "register_finished_script t hi = hi\<lparr>hi_remaining := hm_insert t (of_nat (n - ?c) - 1) (hi_remaining hi)\<rparr>"
      using get by (simp add: register_finished_script_def Let_def)
    have "hosts_done hosts n (targets @ [t]) = hosts_done hosts n targets" using less by (auto simp: hosts_done_def)
    moreover have "(of_nat (n - ?c) :: 64 word) - 1 = of_nat (n - Suc ?c)" using less by (simp add: of_nat_diff)
    ultimately show ?thesis using inv reg True less by (auto simp: progress_inv_def)
  qed
qed

lemma progress_inv_fold:
  assumes "0 < n" "n < 2 ^ 64"
  shows "progress_inv hosts n targets (fold register_finished_script targets (from_hosts_and_num_vts hosts (of_nat n)))"
proof (induction targets rule: rev_induct)
  case Nil
  then show ?case
    using assms by (auto simp: progress_inv_def from_hosts_and_num_vts_def host_info_default_def fold_insert_get hosts_done_def)
next
  case (snoc t targets)
  from progress_inv_register [OF this assms(2)] show ?case by simp
qed

end
