(* ===== verification/Scan_Runner.thy ===== *)
theory Scan_Runner
  imports Scheduling Scan_Status
begin

section \<open>Running a scan\<close>

text \<open>
  \<^verbatim>\<open>rust/src/scanner\<close>: a VT is run on a host when the knowledge base of the host has what the VT
  requires (\<^verbatim>\<open>vt_runner.rs\<close>); a scan runs all VTs of its schedule on all its hosts (\<^verbatim>\<open>scan_runner.rs\<close>)
  and keeps its status up to date (\<^verbatim>\<open>running_scan.rs\<close>); the scanner starts, stops and deletes scans
  (\<^verbatim>\<open>mod.rs\<close>). The storage, the loader and the interpreter of the stack are arguments, a record of the
  functions that are called; the clock and the moment a stop request is seen are arguments, too.
\<close>

subsection \<open>Data\<close>

datatype execute_error =
    ExecStorage storage_error
  | ExecScheduling vt_error
  | ExecNotFound load_error
  | ExecParameter parameter

datatype 'e script_result_kind =
    ReturnCode "64 word"
  | MissingPort protocol string
  | ContainsExcludedKey string
  | MissingRequiredKey string
  | MissingMandatoryKey string
  | ScriptError 'e

record 'e script_result =
  sr_oid :: string
  sr_filename :: string
  sr_stage :: stage
  sr_kind :: "'e script_result_kind"
  sr_target :: host

definition has_succeeded :: "'e script_result \<Rightarrow> bool" where
  "has_succeeded r = (case sr_kind r of ReturnCode c \<Rightarrow> c = 0 | _ \<Rightarrow> False)"

definition has_failed :: "'e script_result \<Rightarrow> bool" where
  "has_failed r = (\<not> has_succeeded r)"

definition has_not_run :: "'e script_result \<Rightarrow> bool" where
  "has_not_run r = (case sr_kind r of
      MissingRequiredKey _ \<Rightarrow> True | MissingMandatoryKey _ \<Rightarrow> True | ContainsExcludedKey _ \<Rightarrow> True
    | MissingPort _ _ \<Rightarrow> True | _ \<Rightarrow> False)"

definition generate_port_kb_key :: "protocol \<Rightarrow> string \<Rightarrow> string" where
  "generate_port_kb_key protocol port = ''Ports/'' @ protocol_display protocol @ ''/'' @ port"

text \<open>What the stream of the interpreter gives for a statement: an exit with its code, or another value.\<close>

datatype nasl_step = ExitStep "64 word" | OtherStep

record ('s, 'e) scan_stack =
  stack_fields :: "'s \<Rightarrow> retriever"
  stack_retrieve :: "context_key \<Rightarrow> retrieve \<Rightarrow> 's \<Rightarrow> storage_error + field list"
  stack_load :: "string \<Rightarrow> load_error + string"
  stack_interpret :: "context_key \<Rightarrow> host \<Rightarrow> string \<Rightarrow> 's \<Rightarrow> ('s \<times> ('e + nasl_step)) list"

subsection \<open>One VT on one host\<close>

definition vt_parameter :: "parameter \<Rightarrow> execute_error + unit" where
  "vt_parameter p = Inl (ExecParameter p)"

fun set_parameters :: "parameter list option \<Rightarrow> execute_error + unit" where
  "set_parameters None = Inr ()"
| "set_parameters (Some []) = Inr ()"
| "set_parameters (Some (p # ps)) = (case vt_parameter p of Inl e \<Rightarrow> Inl e | Inr _ \<Rightarrow> set_parameters (Some ps))"

definition check_key :: "('s, 'e) scan_stack \<Rightarrow> 's \<Rightarrow> context_key \<Rightarrow> string \<Rightarrow> 'k option \<Rightarrow> (primitive \<Rightarrow> 'k option) \<Rightarrow>
    (storage_error \<Rightarrow> 'k option) \<Rightarrow> 'k + unit" where
  "check_key stack s key kb_key' result_none result_some result_err =
     (let result = (case stack_retrieve stack key (RetrieveKB kb_key') s of
        Inr xs \<Rightarrow> (case xs of
            x # _ \<Rightarrow> (case x of KB kb \<Rightarrow> result_some (kb_value kb) | _ \<Rightarrow> result_none)
          | [] \<Rightarrow> result_none)
      | Inl e \<Rightarrow> result_err e)
      in case result of None \<Rightarrow> Inr () | Some x \<Rightarrow> Inl x)"

definition check_required_key :: "('s, 'e) scan_stack \<Rightarrow> 's \<Rightarrow> context_key \<Rightarrow> string \<Rightarrow> 'e script_result_kind + unit" where
  "check_required_key stack s key k = check_key stack s key k (Some (MissingRequiredKey k)) (\<lambda>_. None) (\<lambda>_. Some (MissingRequiredKey k))"

definition check_mandatory_key :: "('s, 'e) scan_stack \<Rightarrow> 's \<Rightarrow> context_key \<Rightarrow> string \<Rightarrow> 'e script_result_kind + unit" where
  "check_mandatory_key stack s key k = check_key stack s key k (Some (MissingMandatoryKey k)) (\<lambda>_. None) (\<lambda>_. Some (MissingMandatoryKey k))"

definition check_exclude_key :: "('s, 'e) scan_stack \<Rightarrow> 's \<Rightarrow> context_key \<Rightarrow> string \<Rightarrow> 'e script_result_kind + unit" where
  "check_exclude_key stack s key k = check_key stack s key k None (\<lambda>_. Some (ContainsExcludedKey k)) (\<lambda>_. None)"

definition check_port :: "('s, 'e) scan_stack \<Rightarrow> 's \<Rightarrow> context_key \<Rightarrow> protocol \<Rightarrow> string \<Rightarrow> 'e script_result_kind + unit" where
  "check_port stack s key pt port = check_key stack s key (generate_port_kb_key pt port) (Some (MissingPort pt port))
     (\<lambda>v. if primitive_to_bool v then None else Some (MissingPort pt port)) (\<lambda>_. Some (MissingPort pt port))"

text \<open>A loop whose body is followed by the operator \<^verbatim>\<open>?\<close>.\<close>

fun check_each :: "('a \<Rightarrow> 'k + unit) \<Rightarrow> 'a list \<Rightarrow> 'k + unit" where
  "check_each f [] = Inr ()"
| "check_each f (x # xs) = (case f x of Inl e \<Rightarrow> Inl e | Inr _ \<Rightarrow> check_each f xs)"

definition check_keys :: "('s, 'e) scan_stack \<Rightarrow> 's \<Rightarrow> context_key \<Rightarrow> nvt \<Rightarrow> 'e script_result_kind + unit" where
  "check_keys stack s key vt =
     (case check_each (check_required_key stack s key) (nvt_required_keys vt) of Inl e \<Rightarrow> Inl e | Inr _ \<Rightarrow>
     (case check_each (check_mandatory_key stack s key) (nvt_mandatory_keys vt) of Inl e \<Rightarrow> Inl e | Inr _ \<Rightarrow>
     (case check_each (check_exclude_key stack s key) (nvt_excluded_keys vt) of Inl e \<Rightarrow> Inl e | Inr _ \<Rightarrow>
     (case check_each (check_port stack s key TCP) (nvt_required_ports vt) of Inl e \<Rightarrow> Inl e | Inr _ \<Rightarrow>
      check_each (check_port stack s key UDP) (nvt_required_udp_ports vt)))))"

definition generate_key :: "string \<Rightarrow> host \<Rightarrow> context_key" where
  "generate_key scan_id target = Scan scan_id (Some target)"

fun run_statements :: "('s \<times> ('e + nasl_step)) list \<Rightarrow> 's \<Rightarrow> 's \<times> 'e script_result_kind" where
  "run_statements [] s = (s, ReturnCode 0)"
| "run_statements ((s', Inr (ExitStep x)) # rs) s = (s', ReturnCode x)"
| "run_statements ((s', Inl e) # rs) s = (s', ScriptError e)"
| "run_statements ((s', Inr OtherStep) # rs) s = run_statements rs s'"

definition get_result_kind :: "('s, 'e) scan_stack \<Rightarrow> string \<Rightarrow> host \<Rightarrow> nvt \<Rightarrow> string \<Rightarrow> 's \<Rightarrow> 's \<times> 'e script_result_kind" where
  "get_result_kind stack scan_id target vt code s = (case check_keys stack s (generate_key scan_id target) vt of
      Inl e \<Rightarrow> (s, e)
    | Inr _ \<Rightarrow> run_statements (stack_interpret stack (generate_key scan_id target) target code s) s)"

text \<open>An item of the stream: the stage, the VT with its parameters, the host and the id of the scan.\<close>

type_synonym scan_item = "stage \<times> nvt \<times> parameter list option \<times> host \<times> string"

definition vt_execute :: "('s, 'e) scan_stack \<Rightarrow> scan_item \<Rightarrow> 's \<Rightarrow> 's \<times> (execute_error + 'e script_result)" where
  "vt_execute stack item s = (case item of (stage, vt, param, target, scan_id) \<Rightarrow>
     (case stack_load stack (nvt_filename vt) of
        Inl e \<Rightarrow> (s, Inl (ExecNotFound e))
      | Inr code \<Rightarrow>
          (case set_parameters param of
             Inl e \<Rightarrow> (s, Inl e)
           | Inr _ \<Rightarrow>
               (case get_result_kind stack scan_id target vt code s of
                  (s', kind) \<Rightarrow> (s', Inr \<lparr>sr_oid = nvt_oid vt, sr_filename = nvt_filename vt, sr_stage = stage,
                                        sr_kind = kind, sr_target = target\<rparr>)))))"

subsection \<open>All VTs on all hosts\<close>

type_synonym concurrent_vt = "stage \<times> runtime_vt list"

record position =
  pos_host :: nat
  pos_stage :: nat
  pos_vt :: nat

definition all_positions :: "host list \<Rightarrow> concurrent_vt list \<Rightarrow> position list" where
  "all_positions hosts vts = concat (map (\<lambda>(host, _). concat (map (\<lambda>(stage, (_, vs)).
     map (\<lambda>(vt, _). \<lparr>pos_host = host, pos_stage = stage, pos_vt = vt\<rparr>) (enumerate 0 vs)) (enumerate 0 vts))) (enumerate 0 hosts))"

partial_function (option) schedule_cache :: "(wave \<Rightarrow> wave) \<Rightarrow> plan_data \<Rightarrow> (vt_error + concurrent_vt list) option" where
  "schedule_cache it pd = (case plan_next it pd of
      (_, None) \<Rightarrow> Some (Inr [])
    | (_, Some (Inl e)) \<Rightarrow> Some (Inl e)
    | (pd', Some (Inr x)) \<Rightarrow>
        Option.bind (schedule_cache it pd') (\<lambda>r. Some (map_sum id (\<lambda>xs. x # xs) r)))"

record scan_runner =
  runner_scan :: scan
  runner_vts :: "concurrent_vt list"

definition scan_runner_new :: "(wave \<Rightarrow> wave) \<Rightarrow> plan_data \<Rightarrow> scan \<Rightarrow> (vt_error + scan_runner) option" where
  "scan_runner_new it schedule scan =
     map_option (map_sum id (\<lambda>vts. \<lparr>runner_scan = scan, runner_vts = vts\<rparr>)) (schedule_cache it schedule)"

definition runner_host_info :: "scan_runner \<Rightarrow> host_info" where
  "runner_host_info r = from_hosts_and_num_vts (scan_hosts (runner_scan r)) (of_nat (length (runner_vts r)))"

definition stream_items :: "scan_runner \<Rightarrow> scan_item list" where
  "stream_items r = map (\<lambda>pos.
     let (stage, vts) = runner_vts r ! pos_stage pos;
         (vt, param) = vts ! pos_vt pos
     in (stage, vt, param, scan_hosts (runner_scan r) ! pos_host pos, scan_scan_id (runner_scan r)))
     (all_positions (scan_hosts (runner_scan r)) (runner_vts r))"

subsection \<open>A running scan\<close>

text \<open>The reason of a scheduling error is the text of the \<^verbatim>\<open>VTError\<close>; the error itself is kept here.\<close>

datatype observable_resources = CPU | Memory | IO

datatype scanner_error =
    ScannerUnexpected string
  | ScannerConnection string
  | InsufficientResources "observable_resources list"
  | Poisoned
  | ScanNotFound string
  | SchedulingError string vt_error

definition make_runner :: "((string \<times> nvt) list \<Rightarrow> (string \<times> nvt) list) \<Rightarrow> (wave \<Rightarrow> wave) \<Rightarrow> ('s, 'e) scan_stack \<Rightarrow> 's \<Rightarrow> scan \<Rightarrow>
    (scanner_error + scan_runner) option" where
  "make_runner it itw stack s scan = (case execution_plan it (stack_fields stack s) (scan_vts scan) of
      None \<Rightarrow> None
    | Some (Inl e) \<Rightarrow> Some (Inl (SchedulingError (scan_scan_id scan) e))
    | Some (Inr schedule) \<Rightarrow> map_option (map_sum (SchedulingError (scan_scan_id scan)) id) (scan_runner_new itw schedule scan))"

definition register_result :: "'e script_result \<Rightarrow> status \<Rightarrow> status" where
  "register_result r st = st\<lparr>st_host_info := map_option (register_finished_script (sr_target r)) (st_host_info st)\<rparr>"

text \<open>
  The loop over the stream. \<open>keep i\<close> is the value of the flag \<^verbatim>\<open>keep_running\<close> when it is read after the
  \<open>i\<close>-th item.
\<close>

fun run_to_completion :: "('s, 'e) scan_stack \<Rightarrow> (nat \<Rightarrow> bool) \<Rightarrow> nat \<Rightarrow> scan_item list \<Rightarrow> 's \<Rightarrow> status \<Rightarrow> phase \<Rightarrow> 's \<times> status \<times> phase" where
  "run_to_completion stack keep i [] s st end_phase = (s, st, end_phase)"
| "run_to_completion stack keep i (item # items) s st end_phase =
     (case vt_execute stack item s of
        (s', r) \<Rightarrow>
          (let (st', end') = (case r of
               Inr result \<Rightarrow> (register_result result st, if has_failed result then Failed else end_phase)
             | Inl _ \<Rightarrow> (st, Failed))
           in if \<not> keep i then (s', st', Stopped)
              else run_to_completion stack keep (Suc i) items s' st' end'))"

definition status_at_beginning :: "64 word \<Rightarrow> host_info \<Rightarrow> status \<Rightarrow> status" where
  "status_at_beginning now hi st = st\<lparr>st_status := Running, st_start_time := Some now, st_host_info := Some hi\<rparr>"

text \<open>The status is written before \<^verbatim>\<open>finish\<close> can panic.\<close>

definition status_at_end :: "64 word \<Rightarrow> phase \<Rightarrow> status \<Rightarrow> status \<times> unit exec" where
  "status_at_end now end_phase st =
     (let st' = st\<lparr>st_status := end_phase, st_end_time := Some now\<rparr>
      in case st_host_info st' of
        None \<Rightarrow> (st', Ret ())
      | Some hi \<Rightarrow>
          (case hi_finish hi of
             Ret hi' \<Rightarrow> (st'\<lparr>st_host_info := Some hi'\<rparr>, Ret ())
           | Panic \<Rightarrow> (st'\<lparr>st_host_info := Some (hi\<lparr>hi_remaining := []\<rparr>)\<rparr>, Panic)))"

text \<open>\<^verbatim>\<open>None\<close> when the planning does not return; otherwise the storage and the status at the end and the result of the task.\<close>

definition running_scan_run :: "((string \<times> nvt) list \<Rightarrow> (string \<times> nvt) list) \<Rightarrow> (wave \<Rightarrow> wave) \<Rightarrow> ('s, 'e) scan_stack \<Rightarrow> (nat \<Rightarrow> bool) \<Rightarrow>
    64 word \<Rightarrow> 64 word \<Rightarrow> scan \<Rightarrow> 's \<Rightarrow> ('s \<times> status \<times> (scanner_error + unit) exec) option" where
  "running_scan_run it itw stack keep t0 t1 scan s = (case make_runner it itw stack s scan of
      None \<Rightarrow> None
    | Some (Inl e) \<Rightarrow> Some (s, status_default, Ret (Inl e))
    | Some (Inr runner) \<Rightarrow>
        (let st = status_at_beginning t0 (runner_host_info runner) status_default
         in case run_to_completion stack keep 0 (stream_items runner) s st Succeeded of
           (s', st', end_phase) \<Rightarrow>
             (case status_at_end t1 end_phase st' of
                (st'', r) \<Rightarrow> Some (s', st'', exec_bind r (\<lambda>u. Ret (Inr u))))))"

subsection \<open>The scanner\<close>

record running_handle =
  rh_keep_running :: bool
  rh_status :: status

type_synonym running_scans = "(string, running_handle) hashmap"

definition start_scan :: "scan \<Rightarrow> running_scans \<Rightarrow> running_scans \<times> (scanner_error + unit)" where
  "start_scan scan running =
     (hm_insert (scan_scan_id scan) \<lparr>rh_keep_running = True, rh_status = status_default\<rparr> running, Inr ())"

definition stop_scan :: "string \<Rightarrow> running_scans \<Rightarrow> running_scans \<times> (scanner_error + unit)" where
  "stop_scan i running = (case hm_get running i of
      None \<Rightarrow> (running, Inl (ScanNotFound i))
    | Some _ \<Rightarrow> (hm_remove i running, Inr ()))"

definition delete_scan :: "iter_orders \<Rightarrow> string \<Rightarrow> running_scans \<Rightarrow> default_dispatcher \<Rightarrow>
    running_scans \<times> default_dispatcher \<times> (scanner_error + unit)" where
  "delete_scan I i running st = (case stop_scan i running of
      (running', Inl e) \<Rightarrow> (running', st, Inl e)
    | (running', Inr _) \<Rightarrow> (running', fst (remove_scan I (Scan i None) st), Inr ()))"

record scan_results =
  sres_id :: string
  sres_status :: status
  sres_results :: "scan_result list"

definition fetch_results :: "string \<Rightarrow> running_scans \<Rightarrow> scanner_error + scan_results" where
  "fetch_results i running = (case hm_get running i of
      None \<Rightarrow> Inl (ScanNotFound i)
    | Some r \<Rightarrow> Inr \<lparr>sres_id = i, sres_status = rh_status r, sres_results = []\<rparr>)"

subsection \<open>The requirements of a VT\<close>

datatype requirement = RequiredKey string | MandatoryKey string | ExcludedKey string | RequiredPort protocol string

definition requirements :: "nvt \<Rightarrow> requirement list" where
  "requirements vt = map RequiredKey (nvt_required_keys vt) @ map MandatoryKey (nvt_mandatory_keys vt) @
     map ExcludedKey (nvt_excluded_keys vt) @ map (RequiredPort TCP) (nvt_required_ports vt) @
     map (RequiredPort UDP) (nvt_required_udp_ports vt)"

fun met :: "(string \<Rightarrow> kb list) \<Rightarrow> requirement \<Rightarrow> bool" where
  "met kb (RequiredKey k) = (kb k \<noteq> [])"
| "met kb (MandatoryKey k) = (kb k \<noteq> [])"
| "met kb (ExcludedKey k) = (kb k = [])"
| "met kb (RequiredPort p n) = (case kb (generate_port_kb_key p n) of [] \<Rightarrow> False | k # _ \<Rightarrow> primitive_to_bool (kb_value k))"

fun unmet_kind :: "requirement \<Rightarrow> 'e script_result_kind" where
  "unmet_kind (RequiredKey k) = MissingRequiredKey k"
| "unmet_kind (MandatoryKey k) = MissingMandatoryKey k"
| "unmet_kind (ExcludedKey k) = ContainsExcludedKey k"
| "unmet_kind (RequiredPort p n) = MissingPort p n"

definition first_unmet :: "(string \<Rightarrow> kb list) \<Rightarrow> requirement list \<Rightarrow> 'e script_result_kind + unit" where
  "first_unmet kb rs = (case find (\<lambda>r. \<not> met kb r) rs of None \<Rightarrow> Inr () | Some r \<Rightarrow> Inl (unmet_kind r))"

lemma first_unmet_append:
  "first_unmet kb (rs @ ss) = (case first_unmet kb rs of Inl e \<Rightarrow> Inl e | Inr _ \<Rightarrow> first_unmet kb ss)"
  by (induction rs) (auto simp: first_unmet_def)

lemma first_unmet_ok: "first_unmet kb rs = Inr () \<longleftrightarrow> list_all (met kb) rs"
  by (induction rs) (auto simp: first_unmet_def)

lemma check_each_first_unmet:
  "(\<And>x. f x = (if met kb (g x) then Inr () else Inl (unmet_kind (g x)))) \<Longrightarrow> check_each f xs = first_unmet kb (map g xs)"
  by (induction xs) (auto simp: first_unmet_def)

text \<open>What the checks need of a storage: it returns the items of a knowledge base.\<close>

locale kb_reader =
  fixes stack :: "('s, 'e) scan_stack" and kb_of :: "'s \<Rightarrow> context_key \<Rightarrow> string \<Rightarrow> kb list"
  assumes retrieve_kb: "stack_retrieve stack c (RetrieveKB n) s = Inr (map KB (kb_of s c n))"
begin

lemma check_key_kb:
  "check_key stack s c n none some err =
     (case (case kb_of s c n of [] \<Rightarrow> none | k # _ \<Rightarrow> some (kb_value k)) of None \<Rightarrow> Inr () | Some x \<Rightarrow> Inl x)"
  by (simp add: check_key_def retrieve_kb split: list.splits)

lemma check_met:
  "check_required_key stack s c k = (if met (kb_of s c) (RequiredKey k) then Inr () else Inl (unmet_kind (RequiredKey k)))"
  "check_mandatory_key stack s c k = (if met (kb_of s c) (MandatoryKey k) then Inr () else Inl (unmet_kind (MandatoryKey k)))"
  "check_exclude_key stack s c k = (if met (kb_of s c) (ExcludedKey k) then Inr () else Inl (unmet_kind (ExcludedKey k)))"
  "check_port stack s c p n = (if met (kb_of s c) (RequiredPort p n) then Inr () else Inl (unmet_kind (RequiredPort p n)))"
  by (simp_all add: check_required_key_def check_mandatory_key_def check_exclude_key_def check_port_def check_key_kb split: list.splits)

lemma check_keys_unmet: "check_keys stack s c vt = first_unmet (kb_of s c) (requirements vt)"
  unfolding check_keys_def requirements_def first_unmet_append check_each_first_unmet [OF check_met(1)]
    check_each_first_unmet [OF check_met(2)] check_each_first_unmet [OF check_met(3)] check_each_first_unmet [OF check_met(4)]
  by (rule refl)

lemma check_keys_ok: "check_keys stack s c vt = Inr () \<longleftrightarrow> list_all (met (kb_of s c)) (requirements vt)"
  by (simp add: check_keys_unmet first_unmet_ok)

end

text \<open>The stack with the in-memory storage; the loader and the interpreter are arguments.\<close>

definition dd_stack :: "iter_orders \<Rightarrow> (string \<Rightarrow> load_error + string) \<Rightarrow>
    (context_key \<Rightarrow> host \<Rightarrow> string \<Rightarrow> default_dispatcher \<Rightarrow> (default_dispatcher \<times> ('e + nasl_step)) list) \<Rightarrow>
    (default_dispatcher, 'e) scan_stack" where
  "dd_stack I load interpret = \<lparr>stack_fields = dd_nvts I,
     stack_retrieve = (\<lambda>key scope st. case dd_retrieve I key scope st of Ret xs \<Rightarrow> Inr xs | Panic \<Rightarrow> Inl (UnexpectedData [])),
     stack_load = load, stack_interpret = interpret\<rparr>"

interpretation dd_kb_reader: kb_reader "dd_stack I load interp" dd_kb for I load interp
  by unfold_locales (simp add: dd_stack_def dd_retrieve_KB)

text \<open>
  C23: the check before a VT runs on a host answers with the first requirement of the VT (required
  keys, mandatory keys, excluded keys, TCP ports and UDP ports, in this order) that the knowledge base
  of the host does not meet, and lets the VT run exactly when all are met.
\<close>

theorem check_keys_first_unmet:
  "check_keys (dd_stack I load interp) st c vt = (case find (\<lambda>r. \<not> met (dd_kb st c) r) (requirements vt) of
      None \<Rightarrow> Inr ()
    | Some r \<Rightarrow> Inl (unmet_kind r))"
  using dd_kb_reader.check_keys_unmet [of I load interp st c vt] by (simp add: first_unmet_def)

subsection \<open>The order of a scan\<close>

lemma map_enumerate:
  assumes "\<And>i. i < length xs \<Longrightarrow> f (i, xs ! i) = g (xs ! i)"
  shows "map f (enumerate 0 xs) = map g xs"
  using assms by (intro nth_equalityI) (simp_all add: nth_enumerate_eq)

definition host_items :: "string \<Rightarrow> concurrent_vt list \<Rightarrow> host \<Rightarrow> scan_item list" where
  "host_items scan_id cvts host = concat (map (\<lambda>(stage, vts). map (\<lambda>(vt, param). (stage, vt, param, host, scan_id)) vts) cvts)"

text \<open>The stream runs the schedule from its beginning to its end on one host after the other.\<close>

lemma stream_items_hosts:
  "stream_items r = concat (map (host_items (scan_scan_id (runner_scan r)) (runner_vts r)) (scan_hosts (runner_scan r)))"
proof -
  let ?vts = "runner_vts r" and ?hosts = "scan_hosts (runner_scan r)" and ?id = "scan_scan_id (runner_scan r)"
  let ?item = "\<lambda>pos. let (stage, vts) = ?vts ! pos_stage pos; (vt, param) = vts ! pos_vt pos
     in (stage, vt, param, ?hosts ! pos_host pos, ?id)"
  let ?wave = "\<lambda>h (s, (_, vs)). map (\<lambda>(v, _). \<lparr>pos_host = h, pos_stage = s, pos_vt = v\<rparr>) (enumerate 0 vs)"
  have wave: "map ?item (?wave h (s, ?vts ! s)) = (\<lambda>(stage, vts). map (\<lambda>(vt, param). (stage, vt, param, ?hosts ! h, ?id)) vts) (?vts ! s)" for h s
  proof -
    obtain st vs where v: "?vts ! s = (st, vs)" by (cases "?vts ! s")
    show ?thesis unfolding v prod.case map_map by (rule map_enumerate) (simp add: v case_prod_beta)
  qed
  have host: "map ?item (concat (map (?wave h) (enumerate 0 ?vts))) = host_items ?id ?vts (?hosts ! h)" for h
    unfolding host_items_def map_concat map_map
    by (rule arg_cong [of _ _ concat], rule map_enumerate) (simp only: comp_def wave)
  show ?thesis
    unfolding stream_items_def all_positions_def map_concat [of ?item] map_map
    by (rule arg_cong [of _ _ concat], rule map_enumerate) (simp only: comp_def prod.case host)
qed

lemma schedule_cache_waves: "length (pd_data pd) = 4 \<Longrightarrow> schedule_cache it pd = Some (Inr (waves_from it pd))"
proof (induction "length (waves_from it pd)" arbitrary: pd rule: less_induct)
  case less
  obtain pd' r where n: "plan_next it pd = (pd', r)" by (cases "plan_next it pd")
  note next_item = plan_next_items [OF less.prems, of it, unfolded n]
  show ?case
  proof (cases r)
    case None
    then have "waves_from it pd = []" using next_item by (simp add: items_from_def)
    then show ?thesis using None n by (simp add: schedule_cache.simps [of it pd])
  next
    case (Some x)
    then have w: "map Inr (waves_from it pd) = x # map Inr (waves_from it pd')" and len: "length (pd_data pd') = 4"
      using next_item by (simp_all add: items_from_def)
    obtain y ys where ys: "waves_from it pd = y # ys" using w by (cases "waves_from it pd") simp_all
    have "ys = waves_from it pd'" using w ys by (simp add: inj_map_eq_map)
    then have y: "x = Inr y" "waves_from it pd = y # waves_from it pd'" using w ys by simp_all
    then have "schedule_cache it pd' = Some (Inr (waves_from it pd'))" using less.hyps [OF _ len] by simp
    then show ?thesis using Some n y by (simp add: schedule_cache.simps [of it pd])
  qed
qed

lemma concat_split:
  "concat xss = pre @ x # post \<Longrightarrow> \<exists>xss1 ys zs xss2. xss = xss1 @ (ys @ x # zs) # xss2 \<and> pre = concat xss1 @ ys"
proof (induction xss arbitrary: pre)
  case (Cons xs xss)
  from Cons.prems have "xs @ concat xss = pre @ x # post" by simp
  then obtain us where "xs = pre @ us \<and> us @ concat xss = x # post \<or> xs @ us = pre \<and> concat xss = us @ x # post"
    unfolding append_eq_append_conv2 by blast
  then consider (here) zs where "xs = pre @ x # zs" | (later) us where "pre = xs @ us" "concat xss = us @ x # post"
    by (cases us) auto
  then show ?case
  proof cases
    case here
    then show ?thesis by (intro exI [of _ "[]"] exI [of _ pre] exI [of _ zs] exI [of _ xss]) simp
  next
    case later
    from Cons.IH [OF later(2)] obtain xss1 ys zs xss2 where "xss = xss1 @ (ys @ x # zs) # xss2" "us = concat xss1 @ ys" by blast
    then show ?thesis using later(1)
      by (intro exI [of _ "xs # xss1"] exI [of _ ys] exI [of _ zs] exI [of _ xss2]) simp
  qed
qed simp

lemma map_split: "map f xs = pre @ y # post \<Longrightarrow> \<exists>xs1 x xs2. xs = xs1 @ x # xs2 \<and> pre = map f xs1 \<and> y = f x"
  by (auto simp: map_eq_append_conv map_eq_Cons_conv)

text \<open>Splitting the stream at an item gives the host, the wave and the place in the wave.\<close>

lemma host_items_split:
  assumes "host_items scan_id cvts h = pre @ item # post"
  shows "\<exists>cvts1 stage vts cvts2 vt param. cvts = cvts1 @ (stage, vts) # cvts2 \<and> (vt, param) \<in> set vts \<and>
     item = (stage, vt, param, h, scan_id) \<and> set (host_items scan_id cvts1 h) \<subseteq> set pre"
proof -
  let ?f = "\<lambda>(stage, vts). map (\<lambda>(vt, param). (stage, vt, param, h, scan_id)) vts"
  from concat_split [OF assms [unfolded host_items_def]] obtain xss1 ys zs xss2 where
    xss: "map ?f cvts = xss1 @ (ys @ item # zs) # xss2" "pre = concat xss1 @ ys" by blast
  from map_split [OF xss(1)] obtain cvts1 c cvts2 where c: "cvts = cvts1 @ c # cvts2" "xss1 = map ?f cvts1" "ys @ item # zs = ?f c" by blast
  obtain stage vts where c': "c = (stage, vts)" by (cases c)
  have "item \<in> set (?f c)" using c(3) by (metis in_set_conv_decomp)
  then obtain vt param where "(vt, param) \<in> set vts" "item = (stage, vt, param, h, scan_id)" using c' by auto
  moreover have "set (host_items scan_id cvts1 h) \<subseteq> set pre" using xss(2) c(2) by (auto simp: host_items_def)
  ultimately show ?thesis using c(1) c' by blast
qed

lemma wave_dependency_before:
  assumes inv: "waves_inv D data" and data: "data = w1 @ w # w2" and vt: "(vt, param) \<in> snd ` set w" and d: "d \<in> set (nvt_dependencies vt)"
  shows "\<exists>w' \<in> set w1. \<exists>vt' param'. (vt', param') \<in> snd ` set w' \<and> nvt_filename vt' = d"
proof -
  let ?i = "length w1"
  have i: "?i < length data" "data ! ?i = w" using data by simp_all
  have "hm_wf w" using inv data by (simp add: waves_inv_def)
  then obtain k where "hm_get (data ! ?i) k = Some (vt, param)" using vt i(2) by force
  from waves_inv_layout [OF inv i(1) this] d obtain j where j: "j < ?i" "hm_contains (data ! j) d" by blast
  have dj: "data ! j = w1 ! j" using j(1) data by (simp add: nth_append)
  obtain vt' param' where e: "hm_get (data ! j) d = Some (vt', param')" using j(2) by fastforce
  have "nvt_filename vt' = d" using waves_invD [OF inv _ e] j(1) i(1) by simp
  moreover have "(vt', param') \<in> snd ` set (w1 ! j)" using map_of_SomeD [OF e] dj by force
  ultimately show ?thesis using j(1) nth_mem by blast
qed

lemma waves_from_split:
  assumes "waves_from itw pd = cvts1 @ (stage, vts) # cvts2" and "pd_idx pd = 0" and "length (pd_data pd) = 4"
  shows "\<exists>s < 4. \<exists>w1 w w2. wp_data (pd_data pd ! s) = w1 @ w # w2 \<and> vts = map snd (itw w) \<and>
     (\<lambda>w. (stage, map snd (itw w))) ` set w1 \<subseteq> set cvts1"
proof -
  let ?f = "\<lambda>s. stage_waves itw s (pd_data pd ! stage_to_usize s)"
  have "concat (map ?f [Discovery, NonEvasive, Exhausting, EndStage]) = cvts1 @ (stage, vts) # cvts2"
    using assms(1,2) by (simp add: waves_from_def)
  from concat_split [OF this] obtain xss1 ys zs xss2 where
    xss: "map ?f [Discovery, NonEvasive, Exhausting, EndStage] = xss1 @ (ys @ (stage, vts) # zs) # xss2" "cvts1 = concat xss1 @ ys" by blast
  from map_split [OF xss(1)] obtain s where s: "ys @ (stage, vts) # zs = ?f s" by blast
  from map_split [OF s [symmetric, unfolded stage_waves_def]] obtain w1 w w2 where
    w: "wp_data (pd_data pd ! stage_to_usize s) = w1 @ w # w2" "ys = map (\<lambda>w. (s, map snd (itw w))) w1" "(stage, vts) = (s, map snd (itw w))"
    by blast
  then show ?thesis using stage_to_usize_less [of s] xss(2)
    by (intro exI [of _ "stage_to_usize s"] conjI exI [of _ w1] exI [of _ w] exI [of _ w2]) auto
qed

lemma make_runner_dd:
  assumes "make_runner it itw (dd_stack I load interp) st scan = Some (Inr runner)"
  shows "\<exists>pd. execution_plan it (dd_nvts I st) (scan_vts scan) = Some (Inr pd) \<and> runner_scan runner = scan \<and>
     schedule_cache itw pd = Some (Inr (runner_vts runner))"
proof -
  obtain pd where pd: "execution_plan it (dd_nvts I st) (scan_vts scan) = Some (Inr pd)"
    using assms by (auto simp: make_runner_def dd_stack_def split: option.splits sum.splits)
  then obtain r where "schedule_cache itw pd = Some r"
      "map_sum (SchedulingError (scan_scan_id scan)) (\<lambda>vts. \<lparr>runner_scan = scan, runner_vts = vts\<rparr>) r = Inr runner"
    using assms by (auto simp: make_runner_def dd_stack_def scan_runner_new_def sum.map_comp sum.map_id split: sum.splits)
  then show ?thesis using pd by (cases r) auto
qed

text \<open>
  C6: when a scan is run on the in-memory storage (with the stored scripts of one file name agreeing
  on their dependencies), then on every host each script is run after all scripts it depends on.
\<close>

theorem scan_dependencies_first:
  assumes "iteration it" and "iteration itw" and "list_all (consistent D) (all_vts I st)"
    and "make_runner it itw (dd_stack I load interp) st scan = Some (Inr runner)"
    and "stream_items runner = pre @ (stage, vt, param, h, i) # post" and "d \<in> set (nvt_dependencies vt)"
  shows "\<exists>stage' vt' param'. (stage', vt', param', h, i) \<in> set pre \<and> nvt_filename vt' = d"
proof -
  obtain pd where pd: "execution_plan it (dd_nvts I st) (scan_vts scan) = Some (Inr pd)"
    and r: "runner_scan runner = scan" "schedule_cache itw pd = Some (Inr (runner_vts runner))"
    using make_runner_dd [OF assms(4)] by blast
  note plan = execution_plan_inv [OF assms(1,3) pd]
  have vts: "runner_vts runner = waves_from itw pd" using r(2) schedule_cache_waves [OF plan(1)] by simp
  let ?id = "scan_scan_id scan"
  from concat_split [OF assms(5) [unfolded stream_items_hosts r(1)]] obtain xss1 ys zs xss2 where
    xss: "map (host_items ?id (runner_vts runner)) (scan_hosts scan) = xss1 @ (ys @ (stage, vt, param, h, i) # zs) # xss2"
      "pre = concat xss1 @ ys" by blast
  from map_split [OF xss(1)] obtain h' where h': "ys @ (stage, vt, param, h, i) # zs = host_items ?id (runner_vts runner) h'" by blast
  from host_items_split [OF h' [symmetric]] obtain cvts1 vs cvts2 where
    c: "runner_vts runner = cvts1 @ (stage, vs) # cvts2" "(vt, param) \<in> set vs" "h' = h" "i = ?id" "set (host_items ?id cvts1 h) \<subseteq> set ys"
    by auto
  from waves_from_split [OF c(1) [unfolded vts] plan(2,1)] obtain s w1 w w2 where
    w: "s < 4" "wp_data (pd_data pd ! s) = w1 @ w # w2" "vs = map snd (itw w)" "(\<lambda>w. (stage, map snd (itw w))) ` set w1 \<subseteq> set cvts1" by blast
  have "waves_inv D (wp_data (pd_data pd ! s))" using plan(1,3) w(1) by (simp add: list_all_length)
  moreover have "(vt, param) \<in> snd ` set w" using c(2) w(3) iteration_set [OF assms(2), of w] by auto
  ultimately obtain w' vt' param' where d: "w' \<in> set w1" "(vt', param') \<in> snd ` set w'" "nvt_filename vt' = d"
    using wave_dependency_before [OF _ w(2) _ assms(6)] by blast
  have "(stage, vt', param', h, i) \<in> set (host_items ?id cvts1 h)"
    using d(1,2) w(4) iteration_set [OF assms(2), of w'] c(4) by (force simp: host_items_def)
  then have "(stage, vt', param', h, i) \<in> set pre" using c(5) xss(2) by auto
  then show ?thesis using d(3) by blast
qed

definition example_run :: scan where
  "example_run = \<lparr>scan_scan_id = ''s'', scan_target = target_default\<lparr>target_hosts := [''h'', ''i'']\<rparr>, scan_preferences = [],
     scan_vts = example_scan\<rparr>"

definition example_a :: nvt where
  "example_a = (example_script ''a'' [])\<lparr>nvt_oid := ''1'', nvt_category := Attack\<rparr>"

definition example_b :: nvt where
  "example_b = (example_script ''b'' [''a''])\<lparr>nvt_oid := ''2'', nvt_category := Attack\<rparr>"

lemma example_runner:
  "make_runner rev rev (dd_stack example_orders Inr (\<lambda>_ _ _ _. [])) example_feed example_run =
     Some (Inr \<lparr>runner_scan = example_run, runner_vts = [(NonEvasive, [(example_a, None)]), (NonEvasive, [(example_b, Some [])])]\<rparr>)"
  by (simp add: make_runner_def dd_stack_def example_run_def example_feed_plan scan_runner_new_def schedule_cache_waves
    plan_data_new_def waves_from_def stage_waves_def stage_to_usize_def numeral_eq_Suc wave_plan_default_def
    example_a_def example_b_def)

theorem scan_dependencies_first_witness:
  "\<exists>stage' vt' param'. (stage', vt', param', ''i'', ''s'') \<in> set [(NonEvasive, example_a, None, ''h'', ''s''),
     (NonEvasive, example_b, Some [] :: parameter list option, ''h'', ''s''), (NonEvasive, example_a, None, ''i'', ''s'')] \<and> nvt_filename vt' = ''a''"
proof (rule scan_dependencies_first [OF iteration_rev iteration_rev _ example_runner])
  show "list_all (consistent example_deps) (all_vts example_orders example_feed)"
    by (simp add: all_vts_example_feed consistent_def example_deps_def)
  show "stream_items \<lparr>runner_scan = example_run, runner_vts = [(NonEvasive, [(example_a, None)]), (NonEvasive, [(example_b, Some [])])]\<rparr> =
     [(NonEvasive, example_a, None, ''h'', ''s''), (NonEvasive, example_b, Some [], ''h'', ''s''), (NonEvasive, example_a, None, ''i'', ''s'')] @
     (NonEvasive, example_b, Some [], ''i'', ''s'') # []"
    by (simp add: stream_items_hosts host_items_def example_run_def)
  show "''a'' \<in> set (nvt_dependencies example_b)" by (simp add: example_b_def)
qed

subsection \<open>The end of a scan\<close>

text \<open>The results of the items when none is left out, and the storage afterwards.\<close>

fun run_items :: "('s, 'e) scan_stack \<Rightarrow> scan_item list \<Rightarrow> 's \<Rightarrow> 's \<times> (execute_error + 'e script_result) list" where
  "run_items stack [] s = (s, [])"
| "run_items stack (item # items) s = (case vt_execute stack item s of
      (s', r) \<Rightarrow> (case run_items stack items s' of (s'', rs) \<Rightarrow> (s'', r # rs)))"

definition item_ok :: "execute_error + 'e script_result \<Rightarrow> bool" where
  "item_ok r = (case r of Inl _ \<Rightarrow> False | Inr result \<Rightarrow> has_succeeded result)"

definition targets_of :: "(execute_error + 'e script_result) list \<Rightarrow> host list" where
  "targets_of rs = List.map_filter (\<lambda>r. case r of Inl _ \<Rightarrow> None | Inr result \<Rightarrow> Some (sr_target result)) rs"

definition register_targets :: "host list \<Rightarrow> status \<Rightarrow> status" where
  "register_targets ts st = st\<lparr>st_host_info := map_option (fold register_finished_script ts) (st_host_info st)\<rparr>"

lemma register_targets_Nil [simp]: "register_targets [] st = st"
  by (simp add: register_targets_def option.map_id0)

lemma register_targets_Cons: "register_targets (sr_target r # ts) st = register_targets ts (register_result r st)"
  by (simp add: register_targets_def register_result_def option.map_comp comp_def)

lemma targets_of_simps [simp]:
  "targets_of [] = []" "targets_of (Inl e # rs) = targets_of rs" "targets_of (Inr r # rs) = sr_target r # targets_of rs"
  by (simp_all add: targets_of_def)

lemma keep_upt: "list_all keep [i..<i + Suc n] \<longleftrightarrow> keep i \<and> list_all keep [Suc i..<Suc i + n]"
  by (subst upt_conv_Cons) auto

lemma run_to_completion_all:
  "list_all keep [i..<i + length items] \<Longrightarrow> run_items stack items s = (s', rs) \<Longrightarrow>
   run_to_completion stack keep i items s st p =
     (s', register_targets (targets_of rs) st, if list_all item_ok rs then p else Failed)"
proof (induction items arbitrary: i s st p rs)
  case (Cons item items)
  obtain s1 r where e: "vt_execute stack item s = (s1, r)" by (cases "vt_execute stack item s")
  obtain rs' where rs': "run_items stack items s1 = (s', rs')" "rs = r # rs'"
    using Cons.prems(2) e by (auto split: prod.splits)
  have keep: "keep i" "list_all keep [Suc i..<Suc i + length items]"
    using Cons.prems(1) unfolding length_Cons keep_upt by simp_all
  note IH = Cons.IH [OF keep(2) rs'(1)]
  show ?case
  proof (cases r)
    case (Inl x)
    then show ?thesis using e keep(1) rs'(2) IH by (simp add: item_ok_def Let_def)
  next
    case (Inr result)
    then show ?thesis using e keep(1) rs'(2) IH
      by (simp add: item_ok_def Let_def has_failed_def register_targets_Cons)
  qed
qed simp

lemma run_to_completion_stopped:
  "list_all keep [i..<i + k] \<Longrightarrow> \<not> keep (i + k) \<Longrightarrow> k < length items \<Longrightarrow> run_items stack (take (Suc k) items) s = (s', rs) \<Longrightarrow>
   run_to_completion stack keep i items s st p = (s', register_targets (targets_of rs) st, Stopped)"
proof (induction items arbitrary: i k s st p rs)
  case (Cons item items)
  obtain s1 r where e: "vt_execute stack item s = (s1, r)" by (cases "vt_execute stack item s")
  obtain rs' where rs': "run_items stack (take k items) s1 = (s', rs')" "rs = r # rs'"
    using Cons.prems(4) e by (auto split: prod.splits)
  show ?case
  proof (cases k)
    case 0
    then show ?thesis using e rs' Cons.prems(2) by (cases r) (auto simp: Let_def register_targets_Cons)
  next
    case (Suc j)
    have keep: "keep i" "list_all keep [Suc i..<Suc i + j]" "\<not> keep (Suc i + j)"
      using Cons.prems(1,2) unfolding Suc keep_upt by simp_all
    note IH = Cons.IH [OF keep(2,3) _ rs'(1) [unfolded Suc]]
    show ?thesis using e keep(1) rs'(2) IH Cons.prems(3) Suc
      by (cases r) (simp_all add: Let_def register_targets_Cons)
  qed
qed simp

text \<open>
  A scan that is not stopped runs every script of the schedule on every host, whatever the
  scripts return, and ends as succeeded exactly when each of them was run and returned 0; a stopped
  scan ends right after the script that was running when the stop was seen.
\<close>

theorem scan_end_phase:
  "fst (snd (run_to_completion stack (\<lambda>_. True) 0 items s st Succeeded)) =
     register_targets (targets_of (snd (run_items stack items s))) st \<and>
   snd (snd (run_to_completion stack (\<lambda>_. True) 0 items s st Succeeded)) =
     (if list_all item_ok (snd (run_items stack items s)) then Succeeded else Failed) \<and>
   fst (run_to_completion stack (\<lambda>_. True) 0 items s st Succeeded) = fst (run_items stack items s) \<and>
   run_to_completion stack (\<lambda>i. i < length pre) 0 (pre @ item # post) s st Succeeded =
     (fst (run_items stack (pre @ [item]) s), register_targets (targets_of (snd (run_items stack (pre @ [item]) s))) st, Stopped)"
proof -
  have all: "list_all (\<lambda>_. True) xs" for xs :: "nat list" by (simp add: list_all_iff)
  have stop: "list_all (\<lambda>i. i < length pre) [0..<0 + length pre]" by (simp add: list_all_iff)
  obtain s' rs where r: "run_items stack items s = (s', rs)" by (cases "run_items stack items s")
  obtain s2 rs2 where r2: "run_items stack (take (Suc (length pre)) (pre @ item # post)) s = (s2, rs2)"
    by (cases "run_items stack (take (Suc (length pre)) (pre @ item # post)) s")
  show ?thesis
    using run_to_completion_all [OF all r, of 0 st Succeeded] run_to_completion_stopped [OF stop _ _ r2, of st Succeeded] r r2
    by simp
qed

lemma hosts_done_all:
  "card (hosts_done hosts n targets) = length hosts \<longleftrightarrow> distinct hosts \<and> list_all (\<lambda>h. n \<le> count_list targets h) hosts"
proof -
  have sub: "hosts_done hosts n targets \<subseteq> set hosts" by (auto simp: hosts_done_def)
  have "card (hosts_done hosts n targets) = length hosts \<longleftrightarrow> hosts_done hosts n targets = set hosts \<and> card (set hosts) = length hosts"
    using card_mono [OF _ sub] card_length [of hosts] card_subset_eq [OF _ sub] by fastforce
  also have "hosts_done hosts n targets = set hosts \<longleftrightarrow> list_all (\<lambda>h. n \<le> count_list targets h) hosts"
    by (auto simp: hosts_done_def list_all_iff)
  finally show ?thesis using card_distinct distinct_card by metis
qed

lemma finish_after_targets:
  fixes targets
  assumes "0 < n" "n < 2 ^ 64" "length hosts < 2 ^ 64"
  defines "hi \<equiv> fold register_finished_script targets (from_hosts_and_num_vts hosts (of_nat n))"
  shows "hi_finish hi = (if distinct hosts \<and> list_all (\<lambda>h. n \<le> count_list targets h) hosts then Ret (hi\<lparr>hi_remaining := []\<rparr>) else Panic)"
proof -
  have inv: "progress_inv hosts n targets hi" unfolding hi_def by (rule progress_inv_fold [OF assms(1,2)])
  have "card (hosts_done hosts n targets) \<le> card (set hosts)" by (rule card_mono) (auto simp: hosts_done_def)
  then have le: "card (hosts_done hosts n targets) \<le> length hosts" using card_length [of hosts] by simp
  then have "hi_queued hi = 0 \<longleftrightarrow> card (hosts_done hosts n targets) = length hosts"
    using inv assms(3) of_nat_eq_iff_64 [of "length hosts" "card (hosts_done hosts n targets)"] by (auto simp: progress_inv_def)
  then show ?thesis by (simp add: hi_finish_def Let_def hosts_done_all)
qed

lemma running_scan_run_end:
  assumes "make_runner it itw stack s scan = Some (Inr runner)" and "run_items stack (stream_items runner) s = (s', rs)"
  defines "hi \<equiv> fold register_finished_script (targets_of rs) (runner_host_info runner)"
  shows "running_scan_run it itw stack (\<lambda>_. True) t0 t1 scan s = Some (s',
     \<lparr>st_start_time = Some t0, st_end_time = Some t1, st_status = (if list_all item_ok rs then Succeeded else Failed),
      st_host_info = Some (hi\<lparr>hi_remaining := []\<rparr>)\<rparr>, exec_bind (hi_finish hi) (\<lambda>_. Ret (Inr ())))"
proof -
  have all: "list_all (\<lambda>_. True) xs" for xs :: "nat list" by (simp add: list_all_iff)
  let ?st = "status_at_beginning t0 (runner_host_info runner) status_default"
  have run: "run_to_completion stack (\<lambda>_. True) 0 (stream_items runner) s ?st Succeeded =
      (s', register_targets (targets_of rs) ?st, if list_all item_ok rs then Succeeded else Failed)"
    by (rule run_to_completion_all [OF all assms(2)])
  have hi: "st_host_info (register_targets (targets_of rs) ?st) = Some hi"
    by (simp add: register_targets_def status_at_beginning_def hi_def)
  have "hi_finish hi = Ret (hi\<lparr>hi_remaining := []\<rparr>) \<or> hi_finish hi = Panic" by (simp add: hi_finish_def Let_def)
  then show ?thesis
    unfolding running_scan_run_def assms(1) using run hi
    by (auto simp: status_at_end_def register_targets_def status_at_beginning_def status_default_def Let_def)
qed

text \<open>
  C37: the task of a scan that was not stopped writes its final status and then panics (the assertion in
  \<^verbatim>\<open>finish\<close> fails) exactly when the schedule is empty although there are hosts, when a host is listed
  twice, or when fewer scripts than the schedule has waves could be executed on some host.
\<close>

theorem scan_end_panics_iff:
  assumes "make_runner it itw stack s scan = Some (Inr runner)" and "run_items stack (stream_items runner) s = (s', rs)"
    and "runner_scan runner = scan" and "length (runner_vts runner) < 2 ^ 64" and "length (scan_hosts scan) < 2 ^ 64"
  shows "\<exists>st r. running_scan_run it itw stack (\<lambda>_. True) t0 t1 scan s = Some (s', st, r) \<and>
     st_status st = (if list_all item_ok rs then Succeeded else Failed) \<and>
     (r = Panic \<longleftrightarrow> runner_vts runner = [] \<and> scan_hosts scan \<noteq> [] \<or> \<not> distinct (scan_hosts scan) \<or>
       list_ex (\<lambda>h. count_list (targets_of rs) h < length (runner_vts runner)) (scan_hosts scan))"
proof -
  let ?hi = "fold register_finished_script (targets_of rs) (runner_host_info runner)"
  note run = running_scan_run_end [OF assms(1,2), of t0 t1]
  have "hi_finish ?hi = Panic \<longleftrightarrow> runner_vts runner = [] \<and> scan_hosts scan \<noteq> [] \<or> \<not> distinct (scan_hosts scan) \<or>
       list_ex (\<lambda>h. count_list (targets_of rs) h < length (runner_vts runner)) (scan_hosts scan)"
  proof (cases "runner_vts runner = []")
    case True
    then have "stream_items runner = []" by (simp add: stream_items_hosts host_items_def concat_eq_Nil_conv)
    then have "rs = []" using assms(2) by simp
    moreover have "of_nat (length (scan_hosts scan)) = (0 :: 64 word) \<longleftrightarrow> scan_hosts scan = []"
      using of_nat_eq_iff_64 [OF assms(5), of 0] by simp
    ultimately show ?thesis
      using True assms(3) by (auto simp: runner_host_info_def hi_finish_def from_hosts_and_num_vts_def host_info_default_def Let_def)
  next
    case False
    then show ?thesis
      using finish_after_targets [OF _ assms(4,5), of "targets_of rs"] assms(3)
      by (auto simp: runner_host_info_def list_all_iff list_ex_iff not_le)
  qed
  moreover have "exec_bind x (\<lambda>_. Ret (Inr ())) = (Panic :: (scanner_error + unit) exec) \<longleftrightarrow> x = Panic" for x :: "host_info exec"
    by (cases x) simp_all
  ultimately show ?thesis using run by simp
qed

abbreviation example_stack :: "(default_dispatcher, unit) scan_stack" where
  "example_stack \<equiv> dd_stack example_orders Inr (\<lambda>_ _ _ _. [])"

definition example_ok :: "nvt \<Rightarrow> host \<Rightarrow> unit script_result" where
  "example_ok n h = \<lparr>sr_oid = nvt_oid n, sr_filename = nvt_filename n, sr_stage = NonEvasive, sr_kind = ReturnCode 0, sr_target = h\<rparr>"

lemma example_execute:
  assumes "n \<in> {example_a, example_b}" and "p \<in> {None, Some []}"
  shows "vt_execute example_stack (NonEvasive, n, p, h, i) s = (s, Inr (example_ok n h))"
proof -
  have "requirements n = []" using assms(1)
    by (auto simp: requirements_def example_a_def example_b_def example_script_def nvt_default_def)
  then have "check_keys example_stack s c n = Inr ()" for c
    by (simp add: dd_kb_reader.check_keys_unmet first_unmet_def)
  then show ?thesis using assms(2) by (auto simp: vt_execute_def get_result_kind_def dd_stack_def example_ok_def)
qed

theorem scan_end_panics_iff_witness:
  "\<exists>st r. running_scan_run rev rev example_stack (\<lambda>_. True) 5 9 example_run example_feed = Some (example_feed, st, r) \<and>
     st_status st = Succeeded \<and> r \<noteq> Panic"
proof -
  let ?runner = "\<lparr>runner_scan = example_run, runner_vts = [(NonEvasive, [(example_a, None)]), (NonEvasive, [(example_b, Some [])])]\<rparr>"
  let ?rs = "[Inr (example_ok example_a ''h''), Inr (example_ok example_b ''h''), Inr (example_ok example_a ''i''), Inr (example_ok example_b ''i'')]
      :: (execute_error + unit script_result) list"
  have items: "run_items example_stack (stream_items ?runner) example_feed = (example_feed, ?rs)"
    by (simp add: stream_items_hosts host_items_def example_run_def example_execute)
  have "targets_of ?rs = [''h'', ''h'', ''i'', ''i'']" "list_all item_ok ?rs"
    by (simp_all add: example_ok_def item_ok_def has_succeeded_def)
  then show ?thesis
    using scan_end_panics_iff [OF example_runner items, of 5 9] by (simp add: example_run_def)
qed

lemma run_items_targets:
  "run_items stack items s = (s', rs) \<Longrightarrow> list_all (\<lambda>r. \<exists>x. r = Inr x) rs \<Longrightarrow> targets_of rs = map (\<lambda>(_, _, _, h, _). h) items"
proof (induction items arbitrary: s rs)
  case (Cons item items)
  obtain s1 r where e: "vt_execute stack item s = (s1, r)" by (cases "vt_execute stack item s")
  obtain rs' where rs': "run_items stack items s1 = (s', rs')" "rs = r # rs'"
    using Cons.prems(1) e by (auto split: prod.splits)
  obtain x where x: "r = Inr x" using Cons.prems(2) rs'(2) by auto
  have "sr_target x = (case item of (_, _, _, h, _) \<Rightarrow> h)"
    using e x by (auto simp: vt_execute_def split: prod.splits sum.splits)
  then show ?case using Cons.IH [OF rs'(1)] Cons.prems(2) rs'(2) x by simp
qed simp

lemma host_items_count:
  assumes "[] \<notin> set (map snd cvts)"
  shows "length cvts \<le> length (host_items i cvts h)"
  using assms
proof (induction cvts)
  case (Cons c cvts)
  obtain s v vts where c: "c = (s, v # vts)" using Cons.prems by (cases c; cases "snd c") auto
  have "length (host_items i (c # cvts) h) = Suc (length vts) + length (host_items i cvts h)" by (simp add: host_items_def c)
  then show ?case using Cons by simp
qed simp

lemma count_list_replicate_same: "count_list (replicate n x) x = n"
  by (induction n) simp_all

lemma stream_count:
  "distinct hosts \<Longrightarrow> h \<in> set hosts \<Longrightarrow>
   count_list (map (\<lambda>(_, _, _, h, _). h) (concat (map (host_items i cvts) hosts))) h = length (host_items i cvts h)"
proof (induction hosts)
  case (Cons g hosts)
  have hosts: "map (\<lambda>(_, _, _, h, _). h) (host_items i cvts g) = replicate (length (host_items i cvts g)) g" for g
    by (rule map_replicate_const [THEN subst]) (auto simp: host_items_def)
  have none: "count_list (map (\<lambda>(_, _, _, h, _). h) (concat (map (host_items i cvts) gs))) h = 0" if "h \<notin> set gs" for gs
    using that by (auto simp: count_list_0_iff host_items_def)
  show ?case
  proof (cases "g = h")
    case True
    then show ?thesis using none [of hosts] Cons.prems(1) by (simp add: hosts count_list_replicate_same)
  next
    case False
    then have "count_list (map (\<lambda>(_, _, _, h, _). h) (host_items i cvts g)) h = 0" using hosts [of g] by (simp add: count_list_0_iff)
    then show ?thesis using Cons False by simp
  qed
qed simp



text \<open>
  When no plan can be made (a dependency is missing, for instance) the task of the scan ends with
  that error before it has touched the status: the scan stays in the phase it had when it was stored,
  so it is neither running nor done, now and at any later time.
\<close>

theorem planning_error_leaves_stored:
  assumes "execution_plan it (stack_fields stack s) (scan_vts scan) = Some (Inl e)"
  shows "\<exists>st. running_scan_run it itw stack keep t0 t1 scan s = Some (s, st, Ret (Inl (SchedulingError (scan_scan_id scan) e))) \<and>
     st_status st = Stored \<and> \<not> status_is_running st \<and> \<not> status_is_done st"
  using assms by (simp add: running_scan_run_def make_runner_def status_default_def status_is_running_def
      status_is_done_def phase_is_running_def)

theorem planning_error_leaves_stored_witness:
  "\<exists>st. running_scan_run rev rev (example_stack\<lparr>stack_fields := (\<lambda>_ _. Inl (NotFound ''db''))\<rparr>) (\<lambda>_. True) 5 9 example_run example_feed =
       Some (example_feed, st, Ret (Inl (SchedulingError ''s'' (DB (NotFound ''db''))))) \<and>
     st_status st = Stored \<and> \<not> status_is_running st \<and> \<not> status_is_done st"
proof -
  let ?stack = "example_stack\<lparr>stack_fields := (\<lambda>_ _. Inl (NotFound ''db''))\<rparr>"
  have "execution_plan rev (stack_fields ?stack example_feed) (scan_vts example_run) = Some (Inl (DB (NotFound ''db'')))"
    by (simp add: execution_plan_def)
  from planning_error_leaves_stored [OF this, of rev "\<lambda>_. True" 5 9] show ?thesis by (simp add: example_run_def)
qed

text \<open>A scan that was stopped is no longer known to the scanner, so deleting it fails and its results stay in the storage.\<close>

lemma delete_after_stop:
  assumes "stop_scan i running = (running', Inr ())"
  shows "delete_scan I i running' st = (running', st, Inl (ScanNotFound i)) \<and> fetch_results i running' = Inl (ScanNotFound i)"
  using assms by (auto simp: stop_scan_def delete_scan_def fetch_results_def split: option.splits)

end
