(* ===== verification/Scan_Storage.thy ===== *)
theory Scan_Storage
  imports Scan_Runner
begin

section \<open>The scans of the daemon\<close>

text \<open>
  \<^verbatim>\<open>rust/src/openvasd/storage/inmemory.rs\<close> and the adapter \<^verbatim>\<open>UserNASLStorageForKBandVT\<close> of
  \<^verbatim>\<open>rust/src/openvasd/storage/mod.rs\<close>: the daemon keeps the scans with their status, their results as
  encrypted JSON, and which client owns which scan. The cipher, the base64 and the JSON coding are
  arguments; the state of the random generator is part of the storage.
\<close>

subsection \<open>Data\<close>

datatype store_error = Serialization | StoreNotFound | StoreError storage_error

record 'r crypter =
  cr_key :: "byte list"
  cr_chacha :: key_stream
  cr_encode :: "byte list \<Rightarrow> string"
  cr_decode :: "string \<Rightarrow> byte list option"
  cr_next_nonce :: "'r \<Rightarrow> byte list \<times> 'r"
  cr_to_json :: "scan_result \<Rightarrow> string + byte list"
  cr_from_json :: "byte list \<Rightarrow> scan_result option"

record progress =
  pr_scan :: scan
  pr_status :: status
  pr_results :: "encrypted list"

record 'r scan_storage =
  ss_scans :: "(string, progress) hashmap"
  ss_client_id :: "(string \<times> string) list"
  ss_underlying :: default_dispatcher
  ss_rng :: 'r

definition crypter_encrypt :: "'r crypter \<Rightarrow> byte list \<Rightarrow> 'r \<Rightarrow> encrypted \<times> 'r" where
  "crypter_encrypt C data r = (case cr_next_nonce C r of (nonce, r') \<Rightarrow> (encrypt_sync (cr_chacha C) (cr_key C) nonce data, r'))"

definition crypter_decrypt :: "'r crypter \<Rightarrow> encrypted \<Rightarrow> byte list" where
  "crypter_decrypt C e = decrypt_sync (cr_chacha C) (cr_key C) e"

subsection \<open>Scans\<close>

definition encrypt_password :: "'r crypter \<Rightarrow> string \<Rightarrow> ('r, store_error, string) rng_result" where
  "encrypt_password C p r = (case crypter_encrypt C (string_bytes p) r of (e, r') \<Rightarrow> (Inr (encrypted_display (cr_encode C) e), r'))"

definition decrypt_password :: "'r crypter \<Rightarrow> string \<Rightarrow> ('q, store_error, string) rng_result" where
  "decrypt_password C p r =
     ((case encrypted_try_from (cr_decode C) p of
         Inl _ \<Rightarrow> Inl Serialization
       | Inr e \<Rightarrow> (case from_utf8 (crypter_decrypt C e) of None \<Rightarrow> Inl Serialization | Some s \<Rightarrow> Inr s)), r)"

definition with_credentials :: "scan \<Rightarrow> credential list \<Rightarrow> scan" where
  "with_credentials s cs = s\<lparr>scan_target := (scan_target s)\<lparr>target_credentials := cs\<rparr>\<rparr>"

abbreviation scan_credentials :: "scan \<Rightarrow> credential list" where
  "scan_credentials s \<equiv> target_credentials (scan_target s)"

definition new_progress :: "'r crypter \<Rightarrow> scan \<Rightarrow> 'r \<Rightarrow> (progress \<times> 'r) exec" where
  "new_progress C scan r = (case map_passwords (encrypt_password C) (scan_credentials scan) r of
      (Inl _, _) \<Rightarrow> Panic
    | (Inr cs, r') \<Rightarrow> Ret (\<lparr>pr_scan = with_credentials scan cs, pr_status = status_default, pr_results = []\<rparr>, r'))"

definition insert_scan :: "'r crypter \<Rightarrow> scan \<Rightarrow> 'r scan_storage \<Rightarrow> 'r scan_storage exec" where
  "insert_scan C sp st = (case hm_get (ss_scans st) (scan_scan_id sp) of
      Some prgs \<Rightarrow> Ret (st\<lparr>ss_scans := hm_insert (scan_scan_id sp) (prgs\<lparr>pr_scan := sp\<rparr>) (ss_scans st)\<rparr>)
    | None \<Rightarrow> exec_bind (new_progress C sp (ss_rng st)) (\<lambda>(progress, r).
        Ret (st\<lparr>ss_scans := hm_insert (scan_scan_id sp) progress (ss_scans st), ss_rng := r\<rparr>)))"

definition store_remove_scan :: "string \<Rightarrow> 'r scan_storage \<Rightarrow> 'r scan_storage" where
  "store_remove_scan i st = st\<lparr>ss_scans := hm_remove i (ss_scans st)\<rparr>"

definition update_status :: "string \<Rightarrow> status \<Rightarrow> 'r scan_storage \<Rightarrow> 'r scan_storage \<times> (store_error + unit)" where
  "update_status i status st = (case hm_get (ss_scans st) i of
      None \<Rightarrow> (st, Inl StoreNotFound)
    | Some p \<Rightarrow> (st\<lparr>ss_scans := hm_insert i (p\<lparr>pr_status := status\<rparr>) (ss_scans st)\<rparr>, Inr ()))"

definition get_scan :: "string \<Rightarrow> 'r scan_storage \<Rightarrow> store_error + (scan \<times> status)" where
  "get_scan i st = (case hm_get (ss_scans st) i of None \<Rightarrow> Inl StoreNotFound | Some p \<Rightarrow> Inr (pr_scan p, pr_status p))"

definition get_decrypted_scan :: "'r crypter \<Rightarrow> string \<Rightarrow> 'r scan_storage \<Rightarrow> store_error + (scan \<times> status)" where
  "get_decrypted_scan C i st = (case get_scan i st of
      Inl e \<Rightarrow> Inl e
    | Inr (scan, status) \<Rightarrow>
        (case fst (map_passwords (decrypt_password C) (scan_credentials scan) ()) of
           Inl e \<Rightarrow> Inl e
         | Inr cs \<Rightarrow> Inr (with_credentials scan cs, status)))"

definition get_scan_ids :: "((string \<times> progress) list \<Rightarrow> (string \<times> progress) list) \<Rightarrow> 'r scan_storage \<Rightarrow> string list" where
  "get_scan_ids it st = map (\<lambda>(_, p). scan_scan_id (pr_scan p)) (it (ss_scans st))"

definition get_status :: "string \<Rightarrow> 'r scan_storage \<Rightarrow> store_error + status" where
  "get_status i st = (case hm_get (ss_scans st) i of None \<Rightarrow> Inl StoreNotFound | Some p \<Rightarrow> Inr (pr_status p))"

subsection \<open>Results\<close>

definition decrypt_results_sync :: "'r crypter \<Rightarrow> progress \<Rightarrow> nat option \<Rightarrow> nat option \<Rightarrow> byte list list" where
  "decrypt_results_sync C p from_opt to_opt =
     (let f = (case from_opt of None \<Rightarrow> 0 | Some f \<Rightarrow> f);
          n = length (pr_results p);
          t = min (case to_opt of None \<Rightarrow> n | Some t \<Rightarrow> t) n
      in if f > t \<or> f > n then [] else map (crypter_decrypt C) (drop f (take t (pr_results p))))"

definition get_results :: "'r crypter \<Rightarrow> string \<Rightarrow> nat option \<Rightarrow> nat option \<Rightarrow> 'r scan_storage \<Rightarrow> store_error + byte list list" where
  "get_results C i from_opt to_opt st = (case hm_get (ss_scans st) i of
      None \<Rightarrow> Inl StoreNotFound
    | Some p \<Rightarrow> Inr (decrypt_results_sync C p from_opt to_opt))"

fun push_results :: "'r crypter \<Rightarrow> scan_result list \<Rightarrow> nat \<Rightarrow> encrypted list \<Rightarrow> 'r \<Rightarrow> (encrypted list \<times> 'r) \<times> (store_error + unit)" where
  "push_results C [] len es r = ((es, r), Inr ())"
| "push_results C (result # results) len es r = (case cr_to_json C (result\<lparr>result_id := len\<rparr>) of
      Inl _ \<Rightarrow> ((es, r), Inl Serialization)
    | Inr bytes \<Rightarrow> (case crypter_encrypt C bytes r of (e, r') \<Rightarrow> push_results C results (len + 1) (es @ [e]) r'))"

fun append_fetched_result :: "'r crypter \<Rightarrow> scan_results list \<Rightarrow> 'r scan_storage \<Rightarrow> 'r scan_storage \<times> (store_error + unit)" where
  "append_fetched_result C [] st = (st, Inr ())"
| "append_fetched_result C (x # xs) st = (case hm_get (ss_scans st) (sres_id x) of
      None \<Rightarrow> (st, Inl StoreNotFound)
    | Some p \<Rightarrow> (case push_results C (sres_results x) (length (pr_results p)) (pr_results p) (ss_rng st) of
        ((es, r), res) \<Rightarrow>
          (let st' = st\<lparr>ss_scans := hm_insert (sres_id x) (p\<lparr>pr_status := sres_status x, pr_results := es\<rparr>) (ss_scans st), ss_rng := r\<rparr>
           in case res of Inl e \<Rightarrow> (st', Inl e) | Inr _ \<Rightarrow> append_fetched_result C xs st')))"

definition handle_result :: "'r crypter \<Rightarrow> context_key \<Rightarrow> scan_result \<Rightarrow> 'r scan_storage \<Rightarrow> 'r scan_storage \<times> (storage_error + unit)" where
  "handle_result C key result st = (case hm_get (ss_scans st) (context_key_as_ref key) of
      None \<Rightarrow> (st, Inl (UnexpectedData (''Expected scan for '' @ context_key_display key)))
    | Some p \<Rightarrow>
        (let p1 = (case st_status (pr_status p) of
               Stored \<Rightarrow> p\<lparr>pr_status := (pr_status p)\<lparr>st_status := Running\<rparr>\<rparr>
             | Requested \<Rightarrow> p\<lparr>pr_status := (pr_status p)\<lparr>st_status := Running\<rparr>\<rparr>
             | _ \<Rightarrow> p);
             st1 = st\<lparr>ss_scans := hm_insert (context_key_as_ref key) p1 (ss_scans st)\<rparr>
         in case cr_to_json C (result\<lparr>result_id := length (pr_results p1)\<rparr>) of
              Inl e \<Rightarrow> (st1, Inl (UnexpectedData e))
            | Inr bytes \<Rightarrow> (case crypter_encrypt C bytes (ss_rng st1) of
                (e, r) \<Rightarrow> (st1\<lparr>ss_scans := hm_insert (context_key_as_ref key) (p1\<lparr>pr_results := pr_results p1 @ [e]\<rparr>) (ss_scans st1),
                               ss_rng := r\<rparr>, Inr ()))))"

definition handler_remove_result :: "'r crypter \<Rightarrow> context_key \<Rightarrow> nat option \<Rightarrow> 'r scan_storage \<Rightarrow>
    'r scan_storage \<times> (storage_error + scan_result list)" where
  "handler_remove_result C key idx st = (case get_results C (context_key_as_ref key) idx (map_option Suc idx) st of
      Inl _ \<Rightarrow> (st, Inl (NotFound (context_key_as_ref key)))
    | Inr bs \<Rightarrow>
        (case hm_get (ss_scans st) (context_key_as_ref key) of
           None \<Rightarrow> (st, Inl (UnexpectedData (''Expected scan for '' @ context_key_display key)))
         | Some p \<Rightarrow>
             (let es = (case idx of
                  Some i \<Rightarrow> if i < length (pr_results p) then vec_remove i (pr_results p) else pr_results p
                | None \<Rightarrow> [])
              in (st\<lparr>ss_scans := hm_insert (context_key_as_ref key) (p\<lparr>pr_results := es\<rparr>) (ss_scans st)\<rparr>,
                  Inr (List.map_filter (cr_from_json C) bs)))))"

subsection \<open>Owners\<close>

definition add_scan_client_id :: "string \<Rightarrow> string \<Rightarrow> 'r scan_storage \<Rightarrow> 'r scan_storage" where
  "add_scan_client_id scan_id client_id st = st\<lparr>ss_client_id := ss_client_id st @ [(client_id, scan_id)]\<rparr>"

definition indices_of :: "string \<Rightarrow> (string \<times> string) list \<Rightarrow> nat list" where
  "indices_of scan_id ids = map fst (filter (\<lambda>(i, (_, sid)). sid = scan_id) (enumerate 0 ids))"

text \<open>\<^verbatim>\<open>Vec::remove\<close> panics when the index is out of range.\<close>

fun remove_indices :: "nat list \<Rightarrow> 'a list \<Rightarrow> 'a list exec" where
  "remove_indices [] ids = Ret ids"
| "remove_indices (i # js) ids = (if i < length ids then remove_indices js (vec_remove i ids) else Panic)"

definition remove_scan_id :: "string \<Rightarrow> 'r scan_storage \<Rightarrow> 'r scan_storage exec" where
  "remove_scan_id scan_id st = exec_bind (remove_indices (indices_of scan_id (ss_client_id st)) (ss_client_id st))
     (\<lambda>ids. Ret (st\<lparr>ss_client_id := ids\<rparr>))"

definition get_scans_of_client_id :: "string \<Rightarrow> 'r scan_storage \<Rightarrow> string list" where
  "get_scans_of_client_id client_id st = map snd (filter (\<lambda>(cid, _). cid = client_id) (ss_client_id st))"

definition is_client_allowed :: "string \<Rightarrow> string \<Rightarrow> 'r scan_storage \<Rightarrow> bool" where
  "is_client_allowed scan_id client_id st = list_ex (\<lambda>i. i = scan_id) (get_scans_of_client_id client_id st)"

subsection \<open>The storage of the scripts\<close>

definition user_retrieve :: "iter_orders \<Rightarrow> context_key \<Rightarrow> retrieve \<Rightarrow> 'r scan_storage \<Rightarrow> field list exec" where
  "user_retrieve I key scope st = dd_retrieve I key scope (ss_underlying st)"

definition user_dispatch :: "'r crypter \<Rightarrow> context_key \<Rightarrow> field \<Rightarrow> 'r scan_storage \<Rightarrow> 'r scan_storage \<times> (storage_error + unit)" where
  "user_dispatch C key scope st = (case scope of
      ResultField result \<Rightarrow> handle_result C key result st
    | _ \<Rightarrow> (case dd_dispatch key scope (ss_underlying st) of (u, r) \<Rightarrow> (st\<lparr>ss_underlying := u\<rparr>, r)))"

definition user_dispatch_replace :: "context_key \<Rightarrow> field \<Rightarrow> 'r scan_storage \<Rightarrow> 'r scan_storage \<times> (storage_error + unit)" where
  "user_dispatch_replace key scope st = (st, Inr ())"

definition user_remove_kb :: "iter_orders \<Rightarrow> context_key \<Rightarrow> string option \<Rightarrow> 'r scan_storage \<Rightarrow> 'r scan_storage \<times> kb list option" where
  "user_remove_kb I key kb st = (case remove_kb I key kb (ss_underlying st) of (u, r) \<Rightarrow> (st\<lparr>ss_underlying := u\<rparr>, r))"

definition user_remove_result :: "context_key \<Rightarrow> nat option \<Rightarrow> 'r scan_storage \<Rightarrow> 'r scan_storage \<times> scan_result list option" where
  "user_remove_result key i st = (case remove_result key i (ss_underlying st) of (u, r) \<Rightarrow> (st\<lparr>ss_underlying := u\<rparr>, r))"

subsection \<open>Credentials of stored scans\<close>

definition crypter_ok :: "'r crypter \<Rightarrow> bool" where
  "crypter_ok C = (base64_coding (cr_encode C) (cr_decode C) \<and> (\<forall>r. length (fst (cr_next_nonce C r)) = 12))"

abbreviation scan_secrets :: "scan \<Rightarrow> string list" where
  "scan_secrets s \<equiv> concat (map credential_secrets (scan_credentials s))"

lemma password_undone:
  assumes "crypter_ok C"
  shows "undone_by {p. utf8_valid (string_bytes p)} Serialization (\<lambda>p. p \<noteq> []) (encrypt_password C) (decrypt_password C)"
  unfolding undone_by_def
proof (intro ballI allI)
  fix p r assume "p \<in> {p. utf8_valid (string_bytes p)}"
  then have utf8: "from_utf8 (string_bytes p) = Some p" by (simp add: from_utf8_bytes)
  obtain nonce r' where n: "cr_next_nonce C r = (nonce, r')" by (cases "cr_next_nonce C r")
  then have "length nonce = 12" using assms by (metis crypter_ok_def fst_conv)
  then have "encrypted_try_from (cr_decode C) (encrypted_display (cr_encode C) (encrypt_sync (cr_chacha C) (cr_key C) nonce (string_bytes p))) =
      (if p = [] then Inl MissingData else Inr (encrypt_sync (cr_chacha C) (cr_key C) nonce (string_bytes p)))"
    using encrypted_text_data assms by (simp add: crypter_ok_def)
  then show "\<exists>q r'. encrypt_password C p r = (Inr q, r') \<and> (\<forall>x. decrypt_password C q x = (returned Serialization (\<lambda>p. p \<noteq> []) [p] p, x))"
    using n utf8
    by (simp add: encrypt_password_def crypter_encrypt_def decrypt_password_def crypter_decrypt_def decrypt_encrypt returned_def)
qed

text \<open>
  C16: the credentials of a newly inserted scan are read back as they were given, unless a secret among
  them is empty: then the scan can be stored but it cannot be read again for running it.
\<close>

theorem insert_get_decrypted:
  assumes "crypter_ok C" and "hm_get (ss_scans st) (scan_scan_id scan) = None"
    and "list_all (\<lambda>p. utf8_valid (string_bytes p)) (scan_secrets scan)"
  shows "\<exists>st'. insert_scan C scan st = Ret st' \<and>
     get_decrypted_scan C (scan_scan_id scan) st' =
       (if list_all (\<lambda>p. p \<noteq> []) (scan_secrets scan) then Inr (scan, status_default) else Inl Serialization)"
proof -
  have sub: "set (scan_secrets scan) \<subseteq> {p. utf8_valid (string_bytes p)}" using assms(3) by (auto simp: list_all_iff)
  obtain cs r' where cs: "map_passwords (encrypt_password C) (scan_credentials scan) (ss_rng st) = (Inr cs, r')"
    "\<And>x::unit. map_passwords (decrypt_password C) cs x = (returned Serialization (\<lambda>p. p \<noteq> []) (scan_secrets scan) (scan_credentials scan), x)"
    using map_passwords_undone [OF password_undone [OF assms(1)] sub] by metis
  have same: "with_credentials (with_credentials scan cs) (scan_credentials scan) = scan" by (simp add: with_credentials_def)
  have cred: "scan_credentials (with_credentials scan cs) = cs" by (simp add: with_credentials_def)
  show ?thesis
    using assms(2) cs same cred
    by (simp add: insert_scan_def new_progress_def get_decrypted_scan_def get_scan_def returned_def)
qed

definition example_crypter :: "nat crypter" where
  "example_crypter = \<lparr>cr_key = [], cr_chacha = (\<lambda>_ _ i. of_nat i), cr_encode = example_encode, cr_decode = example_decode,
     cr_next_nonce = (\<lambda>n. (replicate 12 (of_nat n), Suc n)), cr_to_json = (\<lambda>r. Inr [of_nat (result_id r)]),
     cr_from_json = (\<lambda>_. None)\<rparr>"

definition empty_storage :: "nat scan_storage" where
  "empty_storage = \<lparr>ss_scans = [], ss_client_id = [], ss_underlying = dd_new, ss_rng = 0\<rparr>"

definition example_secret_scan :: "string \<Rightarrow> scan" where
  "example_secret_scan p = with_credentials example_run [credential_default\<lparr>cred_type := CredUP ''root'' p None\<rparr>]"

lemma example_crypter_ok: "crypter_ok example_crypter"
  by (simp add: crypter_ok_def example_crypter_def example_coding)

lemma example_secret_scan_simps [simp]:
  "scan_scan_id (example_secret_scan p) = ''s''" "scan_secrets (example_secret_scan p) = [p]"
  by (simp_all add: example_secret_scan_def with_credentials_def example_run_def credential_secrets_def privilege_secrets_def)

theorem insert_get_decrypted_witness:
  "(\<exists>st'. insert_scan example_crypter (example_secret_scan ''pw'') empty_storage = Ret st' \<and>
     get_decrypted_scan example_crypter ''s'' st' = Inr (example_secret_scan ''pw'', status_default)) \<and>
   (\<exists>st'. insert_scan example_crypter (example_secret_scan []) empty_storage = Ret st' \<and>
     get_decrypted_scan example_crypter ''s'' st' = Inl Serialization)"
proof -
  have "hm_get (ss_scans empty_storage) (scan_scan_id (example_secret_scan p)) = None" for p by (simp add: empty_storage_def)
  note ins = insert_get_decrypted [OF example_crypter_ok this]
  show ?thesis using ins [of "''pw''"] ins [of "[]"] by (simp add: string_bytes_def)
qed

text \<open>
  Inserting a scan whose id is already stored keeps the new credentials as they are, without
  encrypting them, and such a scan is read back only if its secrets happen to be encrypted texts.
\<close>

theorem insert_again_keeps_plain_secrets:
  assumes "hm_get (ss_scans st) (scan_scan_id scan) = Some p"
  shows "\<exists>st'. insert_scan C scan st = Ret st' \<and> get_scan (scan_scan_id scan) st' = Inr (scan, pr_status p)"
  using assms by (simp add: insert_scan_def get_scan_def)

theorem insert_again_keeps_plain_secrets_witness:
  "\<exists>st st'. insert_scan example_crypter (example_secret_scan ''old'') empty_storage = Ret st \<and>
     insert_scan example_crypter (example_secret_scan ''new'') st = Ret st' \<and>
     get_scan ''s'' st' = Inr (example_secret_scan ''new'', status_default)"
proof -
  obtain st p where st: "insert_scan example_crypter (example_secret_scan ''old'') empty_storage = Ret st"
    "hm_get (ss_scans st) ''s'' = Some p" "pr_status p = status_default"
    using password_undone [OF example_crypter_ok]
    by (auto simp: insert_scan_def new_progress_def empty_storage_def example_secret_scan_def with_credentials_def example_run_def
        credential_map_password_def credential_type_map_password_def map_privilege_def rng_bind_def rng_return_def
        encrypt_password_def crypter_encrypt_def example_crypter_def)
  then show ?thesis
    using insert_again_keeps_plain_secrets [of st "example_secret_scan ''new''" p example_crypter] by auto
qed

subsection \<open>Results of stored scans\<close>

definition numbered :: "nat \<Rightarrow> scan_result list \<Rightarrow> scan_result list" where
  "numbered n rs = map (\<lambda>(i, r). r\<lparr>result_id := i\<rparr>) (enumerate n rs)"

lemma crypter_round_trip [simp]: "crypter_decrypt C (fst (crypter_encrypt C bytes r)) = bytes"
  by (simp add: crypter_encrypt_def crypter_decrypt_def decrypt_encrypt split: prod.split)

lemma push_results_appends:
  assumes "map (cr_to_json C) (numbered n rs) = map Inr bs"
  shows "\<exists>es' r'. push_results C rs n es r = ((es @ es', r'), Inr ()) \<and> map (crypter_decrypt C) es' = bs"
  using assms
proof (induction rs arbitrary: n bs es r)
  case Nil
  then show ?case by (simp add: numbered_def)
next
  case (Cons result rs)
  then obtain b bs' where bs: "bs = b # bs'" "cr_to_json C (result\<lparr>result_id := n\<rparr>) = Inr b"
      "map (cr_to_json C) (numbered (n + 1) rs) = map Inr bs'"
    by (auto simp: numbered_def)
  obtain e r1 where e: "crypter_encrypt C b r = (e, r1)" by (cases "crypter_encrypt C b r")
  then have "crypter_decrypt C e = b" by (metis crypter_round_trip fst_conv)
  moreover obtain es' r' where "push_results C rs (n + 1) (es @ [e]) r1 = (((es @ [e]) @ es', r'), Inr ())"
      "map (crypter_decrypt C) es' = bs'"
    using Cons.IH [OF bs(3)] by blast
  ultimately show ?case using bs e by (intro exI [of _ "e # es'"] exI [of _ r']) simp
qed

text \<open>
  C36: fetched results of a stored scan are appended behind the ones already there and numbered on from
  them, each is read back as the JSON text it was stored with, the earlier results stay as they were, and
  the fetched status replaces the stored one.
\<close>

theorem fetched_results_appended:
  assumes "hm_get (ss_scans st) (sres_id x) = Some p"
    and "get_results C (sres_id x) None None st = Inr old"
    and "map (cr_to_json C) (numbered (length old) (sres_results x)) = map Inr bs"
  shows "\<exists>st'. append_fetched_result C [x] st = (st', Inr ()) \<and>
     get_results C (sres_id x) None None st' = Inr (old @ bs) \<and>
     get_results C (sres_id x) None (Some (length old)) st' = Inr old \<and>
     get_results C (sres_id x) (Some (length old)) None st' = Inr bs \<and>
     get_status (sres_id x) st' = Inr (sres_status x)"
proof -
  have old: "old = map (crypter_decrypt C) (pr_results p)"
    using assms(1,2) by (simp add: get_results_def decrypt_results_sync_def)
  obtain es' r' where "push_results C (sres_results x) (length (pr_results p)) (pr_results p) (ss_rng st) = ((pr_results p @ es', r'), Inr ())"
      "map (crypter_decrypt C) es' = bs"
    using push_results_appends assms(3) old by (metis length_map)
  then show ?thesis
    using assms(1) old by (auto simp: get_results_def decrypt_results_sync_def get_status_def Let_def)
qed

definition example_progress :: progress where
  "example_progress = \<lparr>pr_scan = example_run, pr_status = status_default, pr_results = []\<rparr>"

definition example_fetched :: scan_results where
  "example_fetched = \<lparr>sres_id = ''s'', sres_status = status_default\<lparr>st_status := Succeeded\<rparr>, sres_results = [example_result, example_result]\<rparr>"

theorem fetched_results_appended_witness:
  "\<exists>st'. append_fetched_result example_crypter [example_fetched] (empty_storage\<lparr>ss_scans := [(''s'', example_progress)]\<rparr>) = (st', Inr ()) \<and>
     get_results example_crypter ''s'' None None st' = Inr [[0], [1]] \<and>
     get_status ''s'' st' = Inr (status_default\<lparr>st_status := Succeeded\<rparr>)"
proof -
  let ?st = "empty_storage\<lparr>ss_scans := [(''s'', example_progress)]\<rparr>"
  have "get_results example_crypter ''s'' None None ?st = Inr []"
    by (simp add: get_results_def decrypt_results_sync_def example_progress_def)
  moreover have "map (cr_to_json example_crypter) (numbered 0 [example_result, example_result]) = map Inr [[0], [1]]"
    by (simp add: numbered_def example_crypter_def)
  ultimately show ?thesis
    using fetched_results_appended [of ?st example_fetched example_progress example_crypter "[]" "[[0], [1]]"]
    by (auto simp: example_fetched_def)
qed

subsection \<open>Owners of scans\<close>

lemma nth_vec_remove: "m < i \<Longrightarrow> i < length xs \<Longrightarrow> vec_remove i xs ! m = xs ! m"
  by (simp add: vec_remove_def nth_append)

lemma remove_indices_keeps:
  assumes "remove_indices js xs = Ret ys" and "list_all (\<lambda>j. m < j) js" and "m < length xs"
  shows "m < length ys \<and> ys ! m = xs ! m"
  using assms
proof (induction js xs rule: remove_indices.induct)
  case (2 i js xs)
  then have "i < length xs" "m < i" by (auto split: if_splits)
  moreover from this have "m < length (vec_remove i xs)" by (simp add: vec_remove_def)
  ultimately show ?case using 2 nth_vec_remove by fastforce
qed simp

lemma indices_of_Nil [simp]: "indices_of sid [] = []"
  by (simp add: indices_of_def)

lemma indices_of_Cons: "indices_of sid (x # xs) = (if snd x = sid then [0] else []) @ map Suc (indices_of sid xs)"
proof -
  have "filter (\<lambda>(i, _, s). s = sid) (enumerate (Suc 0) xs) = map (map_prod Suc id) (filter (\<lambda>(i, _, s). s = sid) (enumerate 0 xs))"
    by (simp add: enumerate_Suc_eq filter_map comp_def split_def map_prod_def)
  then show ?thesis by (auto simp: indices_of_def split_def)
qed

lemma indices_of_sorted: "sorted_wrt (<) (indices_of sid xs)"
  by (induction xs) (auto simp: indices_of_Cons sorted_wrt_map)

lemma indices_of_nth: "i \<in> set (indices_of sid xs) \<longleftrightarrow> i < length xs \<and> snd (xs ! i) = sid"
  by (induction xs arbitrary: i) (auto simp: indices_of_Cons nth_Cons image_iff split: nat.split if_splits)

lemma indices_of_length: "length (indices_of sid xs) = length (filter (\<lambda>(_, s). s = sid) xs)"
  by (induction xs) (auto simp: indices_of_Cons)

lemma indices_of_empty: "indices_of sid xs = [] \<Longrightarrow> filter (\<lambda>(_, s). s \<noteq> sid) xs = xs"
  by (induction xs) (auto simp: indices_of_Cons split: if_splits)

lemma indices_of_single: "indices_of sid xs = [i] \<Longrightarrow> vec_remove i xs = filter (\<lambda>(_, s). s \<noteq> sid) xs"
proof (induction xs arbitrary: i)
  case (Cons x xs)
  then show ?case
    using indices_of_empty [of sid xs] by (cases "snd x = sid") (auto simp: indices_of_Cons vec_remove_def split_def)
qed simp

lemma remove_indices_two:
  assumes "indices_of sid xs = i # j # js" and "remove_indices (i # j # js) xs = Ret ys"
  shows "\<exists>y\<in>set ys. snd y = sid"
proof -
  have ij: "i < j" "list_all (\<lambda>k. j < k) js" using indices_of_sorted [of sid xs] assms(1) by (auto simp: list_all_iff)
  have j: "j < length xs" "snd (xs ! j) = sid" using indices_of_nth [of j sid xs] assms(1) by auto
  have "remove_indices (j # js) (vec_remove i xs) = Ret ys" using assms(2) by (simp split: if_splits)
  moreover have "list_all (\<lambda>k. j - 1 < k) (j # js)" using ij by (auto simp: list_all_iff)
  moreover have "j - 1 < length (vec_remove i xs)" using ij j by (simp add: vec_remove_def)
  ultimately have "j - 1 < length ys" "ys ! (j - 1) = vec_remove i xs ! (j - 1)"
    using remove_indices_keeps by blast+
  moreover have "vec_remove i xs ! (j - 1) = xs ! j" using ij j by (cases j) (simp_all add: vec_remove_def nth_append)
  ultimately show ?thesis using j by (metis nth_mem)
qed

text \<open>
  Removing the owners of a scan leaves exactly the entries of the other scans when the scan has at
  most one owner entry and never otherwise: the indices are not adjusted to the removals before them, so
  the second entry survives and a neighbour is removed, or the index is out of range.
\<close>

theorem remove_scan_id_correct_iff:
  "remove_scan_id sid st = Ret (st\<lparr>ss_client_id := filter (\<lambda>(_, s). s \<noteq> sid) (ss_client_id st)\<rparr>) \<longleftrightarrow>
     length (filter (\<lambda>(_, s). s = sid) (ss_client_id st)) \<le> 1"
proof (cases "indices_of sid (ss_client_id st)")
  case Nil
  then show ?thesis using indices_of_length [of sid "ss_client_id st"] by (simp add: remove_scan_id_def indices_of_empty)
next
  case first: (Cons i rest)
  then have i: "i < length (ss_client_id st)" using indices_of_nth [of i sid "ss_client_id st"] by simp
  show ?thesis
  proof (cases rest)
    case Nil
    then show ?thesis using first i indices_of_length [of sid "ss_client_id st"] indices_of_single
      by (auto simp: remove_scan_id_def)
  next
    case (Cons j js)
    have "\<not> length (filter (\<lambda>(_, s). s = sid) (ss_client_id st)) \<le> 1"
      using indices_of_length [of sid "ss_client_id st"] first Cons by simp
    moreover have "remove_indices (i # j # js) (ss_client_id st) \<noteq> Ret (filter (\<lambda>(_, s). s \<noteq> sid) (ss_client_id st))"
      using remove_indices_two [of sid "ss_client_id st" i j js] first Cons by auto
    ultimately show ?thesis using first Cons
      by (cases "remove_indices (i # j # js) (ss_client_id st)") (auto simp: remove_scan_id_def dest: arg_cong [where f = ss_client_id])
  qed
qed

end
