(* ===== verification/Scan_Scheduler.thy ===== *)
theory Scan_Scheduler
  imports Scan_Storage
begin

section \<open>The scheduler of the daemon\<close>

text \<open>
  \<^verbatim>\<open>rust/src/openvasd/scheduling.rs\<close>: the scheduler queues the scans clients start, hands them to the
  scanner while there is capacity, fetches their results and status, and blocks new scans while the feed
  is updated. The scanner is any implementation of the scanner traits of
  \<^verbatim>\<open>rust/src/models/scanner.rs\<close>, a record of its operations; the native scanner of \<^verbatim>\<open>rust/src/scanner\<close> is
  one of them. The storage is the in-memory one.
\<close>

subsection \<open>Data\<close>

datatype sched_error =
    ScanRunning
  | ScanAlreadyQueued
  | SchedNotFound
  | QueueFull
  | SchedScan scanner_error
  | SchedStorage store_error
  | UnsupportedResume
  | AlreadyFinished

definition sched_error_from_store :: "store_error \<Rightarrow> sched_error" where
  "sched_error_from_store e = (case e of StoreNotFound \<Rightarrow> SchedNotFound | _ \<Rightarrow> SchedStorage e)"

record scheduler_config =
  max_queued_scans :: "64 word option"
  max_running_scans :: "64 word option"

text \<open>A scanner with its state: the operations of the traits \<^verbatim>\<open>ScanStarter\<close>, \<^verbatim>\<open>ScanStopper\<close> and \<^verbatim>\<open>ScanResultFetcher\<close>.\<close>

record 'c backend =
  be_start_scan :: "scan \<Rightarrow> 'c \<Rightarrow> 'c \<times> (scanner_error + unit)"
  be_can_start_scan :: "scan \<Rightarrow> 'c \<Rightarrow> bool"
  be_stop_scan :: "string \<Rightarrow> 'c \<Rightarrow> 'c \<times> (scanner_error + unit)"
  be_fetch_results :: "string \<Rightarrow> 'c \<Rightarrow> 'c \<times> (scanner_error + scan_results)"
  be_do_addition :: bool

record ('r, 'c) scheduler =
  sch_queued :: "string list"
  sch_running :: "string list"
  sch_db :: "'r scan_storage"
  sch_synchronizing :: bool
  sch_scanner :: 'c
  sch_feed_version :: string

definition scheduler_new :: "'c \<Rightarrow> 'r scan_storage \<Rightarrow> ('r, 'c) scheduler" where
  "scheduler_new scanner db = \<lparr>sch_queued = [], sch_running = [], sch_db = db, sch_synchronizing = False,
     sch_scanner = scanner, sch_feed_version = ''UNDEFINED''\<rparr>"

text \<open>\<^verbatim>\<open>Vec::swap_remove\<close> at the first position of an element.\<close>

fun position_of :: "'a \<Rightarrow> 'a list \<Rightarrow> nat option" where
  "position_of x [] = None"
| "position_of x (y # ys) = (if y = x then Some 0 else map_option Suc (position_of x ys))"

definition swap_remove :: "nat \<Rightarrow> 'a list \<Rightarrow> 'a list" where
  "swap_remove i xs = butlast (xs[i := last xs])"

definition remove_id :: "string \<Rightarrow> string list \<Rightarrow> string list" where
  "remove_id i xs = (case position_of i xs of Some idx \<Rightarrow> swap_remove idx xs | None \<Rightarrow> xs)"

definition phase_is_final :: "phase \<Rightarrow> bool" where
  "phase_is_final p = (case p of Stopped \<Rightarrow> True | Failed \<Rightarrow> True | Succeeded \<Rightarrow> True | _ \<Rightarrow> False)"

subsection \<open>Status and results\<close>

definition sched_update_status :: "string \<Rightarrow> status \<Rightarrow> ('r, 'c) scheduler \<Rightarrow> ('r, 'c) scheduler \<times> (store_error + unit)" where
  "sched_update_status i status s =
     (let s1 = (if phase_is_final (st_status status) then s\<lparr>sch_running := remove_id i (sch_running s)\<rparr> else s)
      in case update_status i status (sch_db s1) of (db, r) \<Rightarrow> (s1\<lparr>sch_db := db\<rparr>, r))"

definition finish_running :: "scan_results list \<Rightarrow> string list \<Rightarrow> string list" where
  "finish_running results running =
     fold (\<lambda>x running. if phase_is_final (st_status (sres_status x)) then remove_id (sres_id x) running else running) results running"

definition sched_append_fetched_result :: "'r crypter \<Rightarrow> scan_results list \<Rightarrow> ('r, 'c) scheduler \<Rightarrow>
    ('r, 'c) scheduler \<times> (store_error + unit)" where
  "sched_append_fetched_result C results s =
     (let s1 = s\<lparr>sch_running := finish_running results (sch_running s)\<rparr>
      in case append_fetched_result C results (sch_db s1) of (db, r) \<Rightarrow> (s1\<lparr>sch_db := db\<rparr>, r))"

subsection \<open>Starting, deleting and stopping\<close>

text \<open>
  \<^verbatim>\<open>start_scan_by_id\<close> reads the running scans and the status first and takes the lock of the queue only
  then: it is the composition of two parts between which other tasks may run.
\<close>

definition start_scan_check :: "string \<Rightarrow> ('r, 'c) scheduler \<Rightarrow> sched_error + status" where
  "start_scan_check i s =
     (if i \<in> set (sch_running s) then Inl ScanRunning
      else case get_status i (sch_db s) of
          Inl e \<Rightarrow> Inl (sched_error_from_store e)
        | Inr status \<Rightarrow> (case st_status status of
              Stored \<Rightarrow> Inr (status\<lparr>st_status := Requested\<rparr>)
            | Requested \<Rightarrow> Inl ScanAlreadyQueued
            | Running \<Rightarrow> Inl ScanRunning
            | Stopped \<Rightarrow> Inl UnsupportedResume
            | Failed \<Rightarrow> Inl UnsupportedResume
            | Succeeded \<Rightarrow> Inl AlreadyFinished))"

definition start_scan_enqueue :: "scheduler_config \<Rightarrow> string \<Rightarrow> status \<Rightarrow> ('r, 'c) scheduler \<Rightarrow>
    ('r, 'c) scheduler \<times> (sched_error + unit)" where
  "start_scan_enqueue cfg i status s =
     (if (case max_queued_scans cfg of Some max_queuing \<Rightarrow> length (sch_queued s) = unat max_queuing | None \<Rightarrow> False)
      then (s, Inl QueueFull)
      else if i \<in> set (sch_queued s) then (s, Inl ScanAlreadyQueued)
      else case sched_update_status i status s of
          (s1, Inl e) \<Rightarrow> (s1, Inl (sched_error_from_store e))
        | (s1, Inr _) \<Rightarrow> (s1\<lparr>sch_queued := sch_queued s1 @ [i]\<rparr>, Inr ()))"

definition start_scan_by_id :: "scheduler_config \<Rightarrow> string \<Rightarrow> ('r, 'c) scheduler \<Rightarrow> ('r, 'c) scheduler \<times> (sched_error + unit)" where
  "start_scan_by_id cfg i s = (case start_scan_check i s of
      Inl e \<Rightarrow> (s, Inl e)
    | Inr status \<Rightarrow> start_scan_enqueue cfg i status s)"

text \<open>The first part of a deletion: the scan leaves the lists, a running one is stopped.\<close>

definition delete_leave :: "'c backend \<Rightarrow> string \<Rightarrow> ('r, 'c) scheduler \<Rightarrow> ('r, 'c) scheduler \<times> (sched_error + unit)" where
  "delete_leave B i s =
     (case position_of i (sch_queued s) of
        Some idx \<Rightarrow> (s\<lparr>sch_queued := swap_remove idx (sch_queued s)\<rparr>, Inr ())
      | None \<Rightarrow> (case position_of i (sch_running s) of
            None \<Rightarrow> (s, Inr ())
          | Some idx \<Rightarrow> (case be_stop_scan B i (sch_scanner s) of
                (c, Inl e) \<Rightarrow> (s\<lparr>sch_scanner := c\<rparr>, Inl (SchedScan e))
              | (c, Inr _) \<Rightarrow> (s\<lparr>sch_scanner := c, sch_running := swap_remove idx (sch_running s)\<rparr>, Inr ()))))"

definition delete_scan_by_id :: "'c backend \<Rightarrow> string \<Rightarrow> ('r, 'c) scheduler \<Rightarrow> (('r, 'c) scheduler \<times> (sched_error + unit)) exec" where
  "delete_scan_by_id B i s = (case delete_leave B i s of
      (s1, Inl e) \<Rightarrow> Ret (s1, Inl e)
    | (s1, Inr _) \<Rightarrow> exec_bind (remove_scan_id i (store_remove_scan i (sch_db s1))) (\<lambda>db. Ret (s1\<lparr>sch_db := db\<rparr>, Inr ())))"

text \<open>The argument \<^verbatim>\<open>dbg\<close> is the debug format of a storage error.\<close>

definition sched_stop_scan :: "(store_error \<Rightarrow> string) \<Rightarrow> 64 word \<Rightarrow> 'c backend \<Rightarrow> string \<Rightarrow> ('r, 'c) scheduler \<Rightarrow>
    ('r, 'c) scheduler \<times> (scanner_error + unit)" where
  "sched_stop_scan dbg now B i s = (case be_stop_scan B i (sch_scanner s) of
      (c, Inl e) \<Rightarrow> (s\<lparr>sch_scanner := c\<rparr>, Inl e)
    | (c, Inr _) \<Rightarrow>
       (let s1 = s\<lparr>sch_scanner := c\<rparr> in
        case position_of i (sch_queued s1) of
          Some idx \<Rightarrow> (s1\<lparr>sch_queued := swap_remove idx (sch_queued s1)\<rparr>, Inr ())
        | None \<Rightarrow>
           (let s2 = s1\<lparr>sch_running := remove_id i (sch_running s1)\<rparr> in
            case get_status i (sch_db s2) of
              Inl e \<Rightarrow> (s2, Inl (ScannerUnexpected (dbg e)))
            | Inr current_status \<Rightarrow>
               (case update_status i (current_status\<lparr>st_status := Stopped, st_end_time := Some now\<rparr>) (sch_db s2) of
                  (db, Inl e) \<Rightarrow> (s2\<lparr>sch_db := db\<rparr>, Inl (ScannerUnexpected (dbg e)))
                | (db, Inr _) \<Rightarrow> (s2\<lparr>sch_db := db\<rparr>, Inr ())))))"

subsection \<open>Coordination\<close>

text \<open>The number of scans to start; the subtraction of machine integers wraps.\<close>

definition amount_to_start :: "scheduler_config \<Rightarrow> ('r, 'c) scheduler \<Rightarrow> nat" where
  "amount_to_start cfg s = (case max_running_scans cfg of
      Some mrs \<Rightarrow> unat (mrs - of_nat (length (sch_running s)))
    | None \<Rightarrow> length (sch_queued s))"

definition failed_status :: status where
  "failed_status = \<lparr>st_start_time = None, st_end_time = None, st_status = Failed, st_host_info = None\<rparr>"

definition start_popped :: "'r crypter \<Rightarrow> 'c backend \<Rightarrow> string \<Rightarrow> ('r, 'c) scheduler \<Rightarrow> ('r, 'c) scheduler \<times> (sched_error + unit)" where
  "start_popped C B i s = (case get_decrypted_scan C i (sch_db s) of
      Inl e \<Rightarrow> (s, Inl (sched_error_from_store e))
    | Inr (scan, _) \<Rightarrow>
       (if \<not> be_can_start_scan B scan (sch_scanner s) then (s\<lparr>sch_queued := sch_queued s @ [i]\<rparr>, Inr ())
        else case be_start_scan B scan (sch_scanner s) of
            (c, Inr _) \<Rightarrow> (s\<lparr>sch_scanner := c, sch_running := sch_running s @ [i]\<rparr>, Inr ())
          | (c, Inl (ScannerConnection _)) \<Rightarrow> (s\<lparr>sch_scanner := c, sch_queued := sch_queued s @ [i]\<rparr>, Inr ())
          | (c, Inl _) \<Rightarrow> (case update_status i failed_status (sch_db s) of
                (db, Inl e) \<Rightarrow> (s\<lparr>sch_scanner := c, sch_db := db\<rparr>, Inl (sched_error_from_store e))
              | (db, Inr _) \<Rightarrow> (s\<lparr>sch_scanner := c, sch_db := db\<rparr>, Inr ()))))"

fun coordinate_loop :: "'r crypter \<Rightarrow> 'c backend \<Rightarrow> nat \<Rightarrow> ('r, 'c) scheduler \<Rightarrow> ('r, 'c) scheduler \<times> (sched_error + unit)" where
  "coordinate_loop C B 0 s = (s, Inr ())"
| "coordinate_loop C B (Suc n) s =
     (if sch_queued s = [] then (s, Inr ())
      else case start_popped C B (last (sch_queued s)) (s\<lparr>sch_queued := butlast (sch_queued s)\<rparr>) of
          (s1, Inl e) \<Rightarrow> (s1, Inl e)
        | (s1, Inr _) \<Rightarrow> coordinate_loop C B n s1)"

definition coordinate_scans :: "scheduler_config \<Rightarrow> 'r crypter \<Rightarrow> 'c backend \<Rightarrow> ('r, 'c) scheduler \<Rightarrow>
    ('r, 'c) scheduler \<times> (sched_error + unit)" where
  "coordinate_scans cfg C B s =
     (if sch_synchronizing s then (s, Inr ()) else coordinate_loop C B (amount_to_start cfg s) s)"

definition handle_fetched :: "((string \<times> 32 word) list \<Rightarrow> (string \<times> 32 word) list) \<Rightarrow> 'r crypter \<Rightarrow> 'c backend \<Rightarrow> string \<Rightarrow>
    ('r, 'c) scheduler \<Rightarrow> ('r, 'c) scheduler \<times> (sched_error + unit)" where
  "handle_fetched it C B i s = (case be_fetch_results B i (sch_scanner s) of
      (c, Inl _) \<Rightarrow> (s\<lparr>sch_scanner := c\<rparr>, Inr ())
    | (c, Inr results) \<Rightarrow>
       (let s1 = s\<lparr>sch_scanner := c\<rparr> in
        if be_do_addition B then
          (case get_status i (sch_db s1) of
             Inl e \<Rightarrow> (s1, Inl (sched_error_from_store e))
           | Inr scan_status \<Rightarrow>
               (fst (sched_append_fetched_result C [results\<lparr>sres_status := status_update_with it (sres_status results) scan_status\<rparr>] s1), Inr ()))
        else (fst (sched_append_fetched_result C [results] s1), Inr ())))"

fun handle_each :: "((string \<times> 32 word) list \<Rightarrow> (string \<times> 32 word) list) \<Rightarrow> 'r crypter \<Rightarrow> 'c backend \<Rightarrow> string list \<Rightarrow>
    ('r, 'c) scheduler \<Rightarrow> ('r, 'c) scheduler \<times> (sched_error + unit)" where
  "handle_each it C B [] s = (s, Inr ())"
| "handle_each it C B (i # js) s = (case handle_fetched it C B i s of
      (s1, Inl e) \<Rightarrow> (s1, Inl e)
    | (s1, Inr _) \<Rightarrow> handle_each it C B js s1)"

definition handle_results :: "((string \<times> 32 word) list \<Rightarrow> (string \<times> 32 word) list) \<Rightarrow> 'r crypter \<Rightarrow> 'c backend \<Rightarrow>
    ('r, 'c) scheduler \<Rightarrow> ('r, 'c) scheduler \<times> (sched_error + unit)" where
  "handle_results it C B s = handle_each it C B (sch_running s) s"

definition sync_scans :: "scheduler_config \<Rightarrow> ((string \<times> 32 word) list \<Rightarrow> (string \<times> 32 word) list) \<Rightarrow> 'r crypter \<Rightarrow> 'c backend \<Rightarrow>
    ('r, 'c) scheduler \<Rightarrow> ('r, 'c) scheduler \<times> (sched_error + unit)" where
  "sync_scans cfg it C B s =
     (let (s1, cr) = coordinate_scans cfg C B s; (s2, rr) = handle_results it C B s1
      in (s2, case cr of Inl e \<Rightarrow> Inl e | Inr _ \<Rightarrow> rr))"

definition has_running_scans :: "('r, 'c) scheduler \<Rightarrow> bool" where
  "has_running_scans s = (sch_running s \<noteq> [])"

subsection \<open>Removing from the lists\<close>

lemma position_of_None: "position_of x xs = None \<longleftrightarrow> x \<notin> set xs"
  by (induction xs) auto

lemma position_of_Some: "position_of x xs = Some k \<Longrightarrow> k < length xs \<and> xs ! k = x"
  by (induction xs arbitrary: k) (auto split: if_splits)

lemma mset_swap_remove:
  assumes "k < length xs"
  shows "mset (swap_remove k xs) = mset xs - {#xs ! k#}"
proof -
  let ?ys = "xs[k := last xs]"
  have ne: "?ys \<noteq> []" "xs \<noteq> []" using assms by auto
  have "last ?ys = last xs" using ne by (auto simp: last_list_update)
  then have "mset ?ys = add_mset (last xs) (mset (butlast ?ys))"
    using ne by (metis append_butlast_last_id mset_append mset.simps union_mset_add_mset_right add_0_right)
  moreover have "mset ?ys = add_mset (last xs) (mset xs - {#xs ! k#})" using assms by (rule mset_update)
  ultimately show ?thesis by (simp add: swap_remove_def)
qed

lemma mset_remove_id: "mset (remove_id i xs) = mset xs - {#i#}"
proof (cases "position_of i xs")
  case None
  then have "i \<notin> set xs" by (simp add: position_of_None)
  then show ?thesis using None by (simp add: remove_id_def)
next
  case (Some k)
  then show ?thesis using position_of_Some [OF Some] by (simp add: remove_id_def mset_swap_remove)
qed

lemma swap_remove_position: "position_of i xs = Some k \<Longrightarrow> swap_remove k xs = remove_id i xs"
  by (simp add: remove_id_def)

lemma count_remove_id: "count (mset (remove_id i xs)) j = count (mset xs) j - (if i = j then 1 else 0)"
  by (simp add: mset_remove_id)

lemma in_set_count: "x \<in> set xs \<longleftrightarrow> 0 < count (mset xs) x"
  by simp

lemma set_remove_id:
  assumes "distinct xs"
  shows "set (remove_id i xs) = set xs - {i}"
proof -
  have "j \<in> set (remove_id i xs) \<longleftrightarrow> j \<in> set xs - {i}" for j
    using assms unfolding in_set_count count_remove_id by (auto simp: distinct_count_atmost_1)
  then show ?thesis by blast
qed

lemma distinct_remove_id:
  assumes "distinct xs"
  shows "distinct (remove_id i xs)"
  unfolding distinct_count_atmost_1
proof
  fix j
  show "count (mset (remove_id i xs)) j = (if j \<in> set (remove_id i xs) then 1 else 0)"
    using assms by (simp add: set_remove_id count_remove_id distinct_count_atmost_1)
qed

lemma length_remove_id: "length (remove_id i xs) \<le> length xs"
proof -
  have "size (mset (remove_id i xs)) \<le> size (mset xs)" unfolding mset_remove_id by (rule size_mset_mono) simp
  then show ?thesis by simp
qed

subsection \<open>The invariant\<close>

abbreviation scan_entry :: "'r scan_storage \<Rightarrow> string \<Rightarrow> progress option" where
  "scan_entry db \<equiv> hm_get (ss_scans db)"

definition phase_of :: "'r scan_storage \<Rightarrow> string \<Rightarrow> phase option" where
  "phase_of db i = map_option (\<lambda>p. st_status (pr_status p)) (scan_entry db i)"

definition db_wf :: "'r scan_storage \<Rightarrow> bool" where
  "db_wf db = (\<forall>i p. scan_entry db i = Some p \<longrightarrow> scan_scan_id (pr_scan p) = i)"

definition within :: "64 word option \<Rightarrow> nat \<Rightarrow> bool" where
  "within limit n = (case limit of None \<Rightarrow> True | Some m \<Rightarrow> n \<le> unat m)"

text \<open>
  No scan is queued or running twice, a queued scan is stored as requested, a running one is stored and
  known to the scanner, and every scan is stored under its own id.
\<close>

definition sched_core :: "('c \<Rightarrow> string set) \<Rightarrow> ('r, 'c) scheduler \<Rightarrow> bool" where
  "sched_core active s =
     (distinct (sch_queued s @ sch_running s) \<and>
      (\<forall>i\<in>set (sch_queued s). phase_of (sch_db s) i = Some Requested) \<and>
      (\<forall>i\<in>set (sch_running s). scan_entry (sch_db s) i \<noteq> None \<and> i \<in> active (sch_scanner s)) \<and>
      db_wf (sch_db s))"

definition sched_inv :: "scheduler_config \<Rightarrow> ('c \<Rightarrow> string set) \<Rightarrow> ('r, 'c) scheduler \<Rightarrow> bool" where
  "sched_inv cfg active s =
     (sched_core active s \<and> within (max_running_scans cfg) (length (sch_running s)) \<and>
      within (max_queued_scans cfg) (length (sch_queued s)))"

lemma within_le: "within limit n \<Longrightarrow> m \<le> n \<Longrightarrow> within limit m"
  by (auto simp: within_def split: option.splits)

text \<open>A change of the storage that concerns one scan and keeps its description.\<close>

definition db_frame :: "string \<Rightarrow> 'r scan_storage \<Rightarrow> 'r scan_storage \<Rightarrow> bool" where
  "db_frame i db db' = ((\<forall>j. j \<noteq> i \<longrightarrow> scan_entry db' j = scan_entry db j) \<and>
     map_option pr_scan (scan_entry db' i) = map_option pr_scan (scan_entry db i))"

lemma db_frame_refl [simp]: "db_frame i db db"
  by (simp add: db_frame_def)

lemma db_frame_scan: "db_frame i db db' \<Longrightarrow> map_option pr_scan (scan_entry db' j) = map_option pr_scan (scan_entry db j)"
  by (cases "j = i") (simp_all add: db_frame_def)

lemma db_frame_stored: "db_frame i db db' \<Longrightarrow> scan_entry db' j = None \<longleftrightarrow> scan_entry db j = None"
  using db_frame_scan [of i db db' j] by (cases "scan_entry db j"; cases "scan_entry db' j") simp_all

lemma db_frame_wf:
  assumes "db_frame i db db'" and "db_wf db"
  shows "db_wf db'"
  unfolding db_wf_def
proof (intro allI impI)
  fix j p assume p: "scan_entry db' j = Some p"
  then have "map_option pr_scan (scan_entry db j) = Some (pr_scan p)" using db_frame_scan [OF assms(1), of j] by simp
  then obtain p' where "scan_entry db j = Some p'" "pr_scan p' = pr_scan p" by auto
  then show "scan_scan_id (pr_scan p) = j" using assms(2) by (metis db_wf_def)
qed

lemma db_frame_phase: "db_frame i db db' \<Longrightarrow> j \<noteq> i \<Longrightarrow> phase_of db' j = phase_of db j"
  by (simp add: db_frame_def phase_of_def)

lemma update_status_frame: "update_status i status db = (db', r) \<Longrightarrow> db_frame i db db'"
  by (auto simp: update_status_def db_frame_def split: option.splits)

lemma update_status_ok:
  "scan_entry db i \<noteq> None \<Longrightarrow> \<exists>db'. update_status i status db = (db', Inr ()) \<and> phase_of db' i = Some (st_status status)"
  by (auto simp: update_status_def phase_of_def)

lemma append_frame: "append_fetched_result C [x] db = (db', r) \<Longrightarrow> db_frame (sres_id x) db db'"
  by (auto simp: db_frame_def Let_def split: option.splits prod.splits sum.splits)

lemma handle_result_frame:
  assumes "handle_result C key result db = (db', r)"
  shows "db_frame (context_key_as_ref key) db db'"
proof (cases "scan_entry db (context_key_as_ref key)")
  case None
  then show ?thesis using assms by (simp add: handle_result_def)
next
  case (Some p)
  define p1 where "p1 = (case st_status (pr_status p) of
               Stored \<Rightarrow> p\<lparr>pr_status := (pr_status p)\<lparr>st_status := Running\<rparr>\<rparr>
             | Requested \<Rightarrow> p\<lparr>pr_status := (pr_status p)\<lparr>st_status := Running\<rparr>\<rparr>
             | _ \<Rightarrow> p)"
  then have "pr_scan p1 = pr_scan p" by (simp split: phase.split)
  then show ?thesis using assms Some
    by (auto simp: handle_result_def db_frame_def Let_def p1_def [symmetric] split: prod.splits sum.splits)
qed

lemma core_distinct: "sched_core active s \<Longrightarrow> distinct (sch_queued s @ sch_running s)"
  by (simp add: sched_core_def)

lemma core_db:
  assumes "sched_core active s" and "db_frame i (sch_db s) db'" and "i \<notin> set (sch_queued s)"
  shows "sched_core active (s\<lparr>sch_db := db'\<rparr>)"
proof -
  have "\<And>j. j \<in> set (sch_queued s) \<Longrightarrow> phase_of db' j = phase_of (sch_db s) j"
    using db_frame_phase [OF assms(2)] assms(3) by metis
  then show ?thesis using assms(1) db_frame_wf [OF assms(2)] db_frame_stored [OF assms(2)] by (simp add: sched_core_def)
qed

lemma core_sub:
  assumes "sched_core active s" and "distinct q" "distinct r" "set q \<subseteq> set (sch_queued s)" "set r \<subseteq> set (sch_running s)"
  shows "sched_core active (s\<lparr>sch_queued := q, sch_running := r\<rparr>)"
  using assms unfolding sched_core_def by auto

lemma core_remove:
  assumes "sched_core active s"
  shows "sched_core active (s\<lparr>sch_running := remove_id i (sch_running s)\<rparr>)" "sched_core active (s\<lparr>sch_queued := remove_id i (sch_queued s)\<rparr>)"
  using core_sub [OF assms, of "sch_queued s" "remove_id i (sch_running s)"] core_sub [OF assms, of "remove_id i (sch_queued s)" "sch_running s"]
    core_distinct [OF assms] by (auto simp: distinct_remove_id set_remove_id)

lemma core_scanner:
  assumes "sched_core active s" and "set (sch_running s) \<inter> active (sch_scanner s) \<subseteq> active c"
  shows "sched_core active (s\<lparr>sch_scanner := c\<rparr>)"
  using assms unfolding sched_core_def by auto

lemma core_enqueue:
  assumes "sched_core active s" and "i \<notin> set (sch_queued s)" "i \<notin> set (sch_running s)" "phase_of (sch_db s) i = Some Requested"
  shows "sched_core active (s\<lparr>sch_queued := sch_queued s @ [i]\<rparr>)"
  using assms unfolding sched_core_def by auto

lemma core_run:
  assumes "sched_core active s" and "i \<notin> set (sch_queued s)" "i \<notin> set (sch_running s)"
    and "scan_entry (sch_db s) i \<noteq> None" "i \<in> active (sch_scanner s)"
  shows "sched_core active (s\<lparr>sch_running := sch_running s @ [i]\<rparr>)"
  using assms unfolding sched_core_def by auto

lemma core_db_remove:
  assumes "sched_core active s" and "i \<notin> set (sch_queued s)" "i \<notin> set (sch_running s)"
    and "ss_scans db' = hm_remove i (ss_scans (sch_db s))"
  shows "sched_core active (s\<lparr>sch_db := db'\<rparr>)"
proof -
  have "scan_entry db' j = (if j = i then None else scan_entry (sch_db s) j)" for j using assms(4) by simp
  moreover from this have "phase_of db' j = (if j = i then None else phase_of (sch_db s) j)" for j by (simp add: phase_of_def)
  ultimately show ?thesis using assms(1-3) unfolding sched_core_def db_wf_def by auto
qed

lemma insert_scan_entries:
  assumes "insert_scan C scan db = Ret db'"
  obtains p where "scan_entry db' = (scan_entry db)(scan_scan_id scan \<mapsto> p)" "scan_scan_id (pr_scan p) = scan_scan_id scan"
    "\<And>old. scan_entry db (scan_scan_id scan) = Some old \<Longrightarrow> pr_status p = pr_status old"
  using assms
  by (auto simp: insert_scan_def new_progress_def with_credentials_def update_conv exec_simps split: option.splits prod.splits sum.splits)

lemma core_insert:
  assumes "sched_core active s" and "insert_scan C scan (sch_db s) = Ret db'"
  shows "sched_core active (s\<lparr>sch_db := db'\<rparr>)"
proof -
  obtain p where p: "scan_entry db' = (scan_entry (sch_db s))(scan_scan_id scan \<mapsto> p)" "scan_scan_id (pr_scan p) = scan_scan_id scan"
    "\<And>old. scan_entry (sch_db s) (scan_scan_id scan) = Some old \<Longrightarrow> pr_status p = pr_status old"
    using insert_scan_entries [OF assms(2)] by metis
  have "phase_of (sch_db s) j = Some Requested \<Longrightarrow> phase_of db' j = Some Requested" for j
    using p(1,3) by (auto simp: phase_of_def)
  then show ?thesis using assms(1) p(1,2) unfolding sched_core_def db_wf_def by auto
qed

lemma decrypted_scan_id:
  assumes "get_decrypted_scan C i db = Inr (scan, status)" and "db_wf db"
  shows "scan_scan_id scan = i" and "scan_entry db i \<noteq> None"
  using assms
  by (auto simp: get_decrypted_scan_def get_scan_def with_credentials_def db_wf_def split: option.splits sum.splits)

lemma start_check_ok:
  assumes "start_scan_check i s = Inr status"
  shows "i \<notin> set (sch_running s)" "st_status status = Requested" "scan_entry (sch_db s) i \<noteq> None" "phase_of (sch_db s) i = Some Stored"
  using assms by (auto simp: start_scan_check_def get_status_def phase_of_def split: if_splits option.splits phase.splits)

lemma start_inv:
  assumes "sched_inv cfg active s" and "start_scan_by_id cfg i s = (s', r)"
  shows "sched_inv cfg active s'"
proof (cases "start_scan_check i s")
  case (Inl e)
  then show ?thesis using assms by (simp add: start_scan_by_id_def)
next
  case (Inr status)
  note check = start_check_ok [OF Inr]
  have core: "sched_core active s" using assms(1) by (simp add: sched_inv_def)
  have fresh: "i \<notin> set (sch_queued s)" using core check(4) by (auto simp: sched_core_def)
  obtain db where db: "update_status i status (sch_db s) = (db, Inr ())" "phase_of db i = Some Requested"
    using update_status_ok [OF check(3)] check(2) by metis
  have updated: "sched_core active (s\<lparr>sch_db := db\<rparr>)" using core_db [OF core update_status_frame [OF db(1)] fresh] .
  have eq: "sched_update_status i status s = (s\<lparr>sch_db := db\<rparr>, Inr ())"
    using check(2) db(1) by (simp add: sched_update_status_def phase_is_final_def)
  have core': "sched_core active (s\<lparr>sch_db := db, sch_queued := sch_queued s @ [i]\<rparr>)"
    using core_enqueue [OF updated, of i] fresh check(1) db(2) by simp
  show ?thesis
    using assms Inr fresh core' eq
    by (auto simp: start_scan_by_id_def start_scan_enqueue_def sched_inv_def within_def split: option.splits if_splits)
qed

lemma core_popped:
  assumes "sched_core active s" and "sch_queued s \<noteq> []" and "s0 = s\<lparr>sch_queued := butlast (sch_queued s)\<rparr>" and "i = last (sch_queued s)"
  shows "sched_core active s0" "i \<notin> set (sch_queued s0)" "i \<notin> set (sch_running s0)" "phase_of (sch_db s0) i = Some Requested"
    "set (sch_queued s) = insert i (set (sch_queued s0))"
proof -
  have split: "sch_queued s = butlast (sch_queued s) @ [i]" using assms(2,4) by simp
  then have "distinct (butlast (sch_queued s) @ [i] @ sch_running s)" using core_distinct [OF assms(1)] by (metis append.assoc)
  then show "i \<notin> set (sch_queued s0)" "i \<notin> set (sch_running s0)" using assms(3) by auto
  show "sched_core active s0"
    using core_sub [OF assms(1), of "butlast (sch_queued s)" "sch_running s"] core_distinct [OF assms(1)] assms(3)
    by (auto simp: distinct_butlast dest: in_set_butlastD)
  show "phase_of (sch_db s0) i = Some Requested" using assms by (simp add: sched_core_def)
  show "set (sch_queued s) = insert i (set (sch_queued s0))" using split assms(3) by (metis Un_insert_right list.set(1,2) scheduler.select_convs(1) scheduler.update_convs(1) scheduler.surjective set_append sup_bot_right)
qed

locale scan_backend =
  fixes B :: "'c backend" and active :: "'c \<Rightarrow> string set"
  assumes start_active: "be_start_scan B scan c = (c', r) \<Longrightarrow> active c \<subseteq> active c' \<and> (r = Inr () \<longrightarrow> scan_scan_id scan \<in> active c')"
    and stop_active: "be_stop_scan B i c = (c', r) \<Longrightarrow> active c - {i} \<subseteq> active c' \<and> (r \<noteq> Inr () \<longrightarrow> active c \<subseteq> active c')"
    and fetch_active: "be_fetch_results B i c = (c', f) \<Longrightarrow> active c \<subseteq> active c'"
    and fetch_known: "i \<in> active c \<Longrightarrow> \<exists>c' results. be_fetch_results B i c = (c', Inr results) \<and> sres_id results = i"
begin

lemma start_popped_core:
  assumes core: "sched_core active s" and new: "i \<notin> set (sch_queued s)" "i \<notin> set (sch_running s)"
    and req: "phase_of (sch_db s) i = Some Requested" and res: "start_popped C B i s = (s', r)"
  shows "sched_core active s' \<and> length (sch_queued s') \<le> Suc (length (sch_queued s)) \<and> length (sch_running s') \<le> Suc (length (sch_running s))"
proof (cases "get_decrypted_scan C i (sch_db s)")
  case (Inl e)
  then show ?thesis using core res by (simp add: start_popped_def)
next
  case (Inr a)
  obtain scan status where scan: "get_decrypted_scan C i (sch_db s) = Inr (scan, status)" using Inr by (cases a) simp
  have "db_wf (sch_db s)" using core by (simp add: sched_core_def)
  note scan_id = decrypted_scan_id [OF scan this]
  obtain c q where start: "be_start_scan B scan (sch_scanner s) = (c, q)" by (cases "be_start_scan B scan (sch_scanner s)")
  have act: "active (sch_scanner s) \<subseteq> active c" "q = Inr () \<Longrightarrow> i \<in> active c" using start_active [OF start] scan_id by auto
  have core_c: "sched_core active (s\<lparr>sch_scanner := c\<rparr>)" using core_scanner [OF core] act by blast
  obtain db where db: "update_status i failed_status (sch_db s) = (db, Inr ())" using update_status_ok [OF scan_id(2)] by metis
  have failed: "sched_core active (s\<lparr>sch_scanner := c, sch_db := db\<rparr>)"
    using core_db [OF core_c, of i db] update_status_frame [OF db] new by simp
  have queue: "sched_core active (s\<lparr>sch_queued := sch_queued s @ [i]\<rparr>)" using core_enqueue [OF core new req] .
  have queue_c: "sched_core active (s\<lparr>sch_scanner := c, sch_queued := sch_queued s @ [i]\<rparr>)"
    using core_enqueue [OF core_c, of i] new req by simp
  have run: "sched_core active (s\<lparr>sch_scanner := c, sch_running := sch_running s @ [i]\<rparr>)" if "q = Inr ()"
    using core_run [OF core_c, of i] new scan_id(2) act(2) [OF that] by simp
  show ?thesis
  proof (cases "be_can_start_scan B scan (sch_scanner s)")
    case False
    then show ?thesis using res scan queue by (auto simp: start_popped_def)
  next
    case True
    then show ?thesis using res scan start queue_c run failed db
      by (auto simp: start_popped_def split: sum.splits scanner_error.splits)
  qed
qed

lemma coordinate_loop_inv:
  assumes "sched_inv cfg active s" and "within (max_running_scans cfg) (length (sch_running s) + n)"
    and "coordinate_loop C B n s = (s', r)"
  shows "sched_inv cfg active s' \<and> length (sch_running s') \<le> length (sch_running s) + n"
  using assms
proof (induction n arbitrary: s)
  case (Suc n)
  show ?case
  proof (cases "sch_queued s = []")
    case True
    then show ?thesis using Suc.prems by simp
  next
    case False
    let ?i = "last (sch_queued s)" and ?s = "s\<lparr>sch_queued := butlast (sch_queued s)\<rparr>"
    have core: "sched_core active s" using Suc.prems(1) by (simp add: sched_inv_def)
    note popped = core_popped [OF core False refl refl]
    obtain s1 q where s1: "start_popped C B ?i ?s = (s1, q)" by (cases "start_popped C B ?i ?s")
    then have core1: "sched_core active s1" and len: "length (sch_queued s1) \<le> length (sch_queued s)"
        "length (sch_running s1) \<le> Suc (length (sch_running s))"
      using start_popped_core [OF popped(1-4) s1] False by (auto simp: Suc_le_eq length_greater_0_conv)
    have bound: "within (max_running_scans cfg) (length (sch_running s1) + n)"
      using Suc.prems(2) by (rule within_le) (use len in simp)
    then have "sched_inv cfg active s1"
      using core1 len(1) Suc.prems(1) within_le unfolding sched_inv_def by (metis le_add1)
    then show ?thesis using Suc.IH [OF _ bound] Suc.prems(3) s1 False len by (auto split: sum.splits)
  qed
qed simp

end

lemma append_phase:
  "scan_entry db (sres_id x) \<noteq> None \<Longrightarrow> phase_of (fst (append_fetched_result C [x] db)) (sres_id x) = Some (st_status (sres_status x))"
  by (auto simp: phase_of_def Let_def split: prod.splits sum.splits)

lemma sched_append_single:
  assumes "sched_core active s" and "scan_entry (sch_db s) (sres_id x) \<noteq> None" and "sres_id x \<notin> set (sch_queued s)"
    and "s1 = fst (sched_append_fetched_result C [x] s)"
  shows "sched_core active s1" "sch_queued s1 = sch_queued s" "sch_scanner s1 = sch_scanner s"
    "sch_running s1 = (if phase_is_final (st_status (sres_status x)) then remove_id (sres_id x) (sch_running s) else sch_running s)"
    "phase_of (sch_db s1) (sres_id x) = Some (st_status (sres_status x))" "db_frame (sres_id x) (sch_db s) (sch_db s1)"
proof -
  obtain db r where db: "append_fetched_result C [x] (sch_db s) = (db, r)" by (cases "append_fetched_result C [x] (sch_db s)")
  let ?r = "if phase_is_final (st_status (sres_status x)) then remove_id (sres_id x) (sch_running s) else sch_running s"
  have s1: "s1 = s\<lparr>sch_running := ?r, sch_db := db\<rparr>"
    using assms(4) db by (simp add: sched_append_fetched_result_def finish_running_def del: append_fetched_result.simps)
  have "sched_core active (s\<lparr>sch_running := ?r\<rparr>)" using core_remove(1) [OF assms(1)] assms(1) by simp
  from core_db [OF this, of "sres_id x" db] show "sched_core active s1"
    using append_frame [OF db] assms(3) s1 by simp
  show "phase_of (sch_db s1) (sres_id x) = Some (st_status (sres_status x))"
    using append_phase [OF assms(2), of C] db s1 by (simp del: append_fetched_result.simps)
  show "db_frame (sres_id x) (sch_db s) (sch_db s1)" using append_frame [OF db] s1 by simp
qed (use assms(4) in \<open>simp_all add: sched_append_fetched_result_def finish_running_def Let_def del: append_fetched_result.simps split: prod.splits\<close>)

context scan_backend
begin

lemma handle_fetched_running:
  assumes "sched_core active s" and "i \<in> set (sch_running s)"
  obtains c results s1 where "be_fetch_results B i (sch_scanner s) = (c, Inr results)" "handle_fetched it C B i s = (s1, Inr ())"
    "sched_core active s1" "sch_queued s1 = sch_queued s" "sch_scanner s1 = c"
    "sch_running s1 = (if phase_is_final (st_status (sres_status results)) then remove_id i (sch_running s) else sch_running s)"
    "phase_of (sch_db s1) i = Some (st_status (sres_status results))" "db_frame i (sch_db s) (sch_db s1)"
proof -
  have known: "scan_entry (sch_db s) i \<noteq> None" "i \<in> active (sch_scanner s)" "i \<notin> set (sch_queued s)"
    using assms by (auto simp: sched_core_def)
  obtain c results where fetch: "be_fetch_results B i (sch_scanner s) = (c, Inr results)" "sres_id results = i"
    using fetch_known [OF known(2)] by blast
  let ?s = "s\<lparr>sch_scanner := c\<rparr>"
  obtain scan_status where status: "get_status i (sch_db ?s) = Inr scan_status" using known(1) by (auto simp: get_status_def)
  define x where "x = (if be_do_addition B then results\<lparr>sres_status := status_update_with it (sres_status results) scan_status\<rparr> else results)"
  have x: "sres_id x = i" "st_status (sres_status x) = st_status (sres_status results)"
    using fetch(2) by (simp_all add: x_def status_update_with_def)
  have core: "sched_core active ?s" using core_scanner [OF assms(1)] fetch_active [OF fetch(1)] by blast
  define s1 where "s1 = fst (sched_append_fetched_result C [x] ?s)"
  have res: "handle_fetched it C B i s = (s1, Inr ())"
    using fetch(1) status by (simp add: handle_fetched_def x_def s1_def)
  note app = sched_append_single [OF core _ _ s1_def]
  show ?thesis by (rule that [OF fetch(1) res]) (use app known x in simp_all)
qed

lemma handle_each_inv:
  assumes "sched_inv cfg active s" and "set js \<subseteq> set (sch_running s)" and "distinct js"
  shows "\<exists>s'. handle_each it C B js s = (s', Inr ()) \<and> sched_inv cfg active s' \<and> sch_queued s' = sch_queued s"
  using assms
proof (induction js arbitrary: s)
  case (Cons i js)
  have core: "sched_core active s" and i: "i \<in> set (sch_running s)" using Cons.prems by (auto simp: sched_inv_def)
  obtain results :: scan_results and s1 where s1: "handle_fetched it C B i s = (s1, Inr ())" "sched_core active s1" "sch_queued s1 = sch_queued s"
    "sch_running s1 = (if phase_is_final (st_status (sres_status results)) then remove_id i (sch_running s) else sch_running s)"
    by (rule handle_fetched_running [OF core i, of it C]) blast
  have "length (sch_running s1) \<le> length (sch_running s)" using s1(4) length_remove_id by simp
  then have "sched_inv cfg active s1" using s1(2,3) Cons.prems(1) within_le by (auto simp: sched_inv_def)
  moreover have "set js \<subseteq> set (sch_running s1)"
    using Cons.prems(2,3) s1(4) core_distinct [OF core] by (auto simp: set_remove_id)
  ultimately show ?case using Cons.IH [of s1] Cons.prems(3) s1 by auto
qed simp

lemma handle_results_inv:
  assumes "sched_inv cfg active s"
  shows "\<exists>s'. handle_results it C B s = (s', Inr ()) \<and> sched_inv cfg active s' \<and> sch_queued s' = sch_queued s"
  using assms handle_each_inv [OF assms subset_refl] by (simp add: handle_results_def sched_inv_def sched_core_def)

end

lemma amount_within:
  assumes "within (max_running_scans cfg) (length (sch_running s))"
  shows "within (max_running_scans cfg) (length (sch_running s) + amount_to_start cfg s)"
    and "max_running_scans cfg = Some m \<Longrightarrow> amount_to_start cfg s = unat m - length (sch_running s)"
proof -
  have amount: "amount_to_start cfg s = unat m - length (sch_running s)" if "max_running_scans cfg = Some m" for m
  proof -
    have le: "length (sch_running s) \<le> unat m" using assms that by (simp add: within_def)
    then have "unat (of_nat (length (sch_running s)) :: 64 word) = length (sch_running s)"
      using unsigned_less [of m, where 'a = nat] by (simp add: unsigned_of_nat take_bit_nat_eq_self)
    then show ?thesis using le that by (simp add: amount_to_start_def unat_sub word_le_nat_alt)
  qed
  then show "max_running_scans cfg = Some m \<Longrightarrow> amount_to_start cfg s = unat m - length (sch_running s)" .
  show "within (max_running_scans cfg) (length (sch_running s) + amount_to_start cfg s)"
    using assms amount by (auto simp: within_def split: option.splits)
qed

lemma inv_core: "sched_inv cfg active s \<Longrightarrow> sched_core active s"
  by (simp add: sched_inv_def)

lemma inv_sub:
  assumes "sched_inv cfg active s" "sched_core active s'"
    and "length (sch_running s') \<le> length (sch_running s)" "length (sch_queued s') \<le> length (sch_queued s)"
  shows "sched_inv cfg active s'"
  using assms within_le by (auto simp: sched_inv_def)

context scan_backend
begin

lemma coordinate_inv:
  assumes "sched_inv cfg active s" and "coordinate_scans cfg C B s = (s', r)"
  shows "sched_inv cfg active s'"
  using assms coordinate_loop_inv [OF assms(1) amount_within(1)]
  by (auto simp: coordinate_scans_def sched_inv_def split: if_splits)

lemma sync_inv:
  assumes "sched_inv cfg active s" and "sync_scans cfg it C B s = (s', r)"
  shows "sched_inv cfg active s'"
proof -
  obtain s1 cr where s1: "coordinate_scans cfg C B s = (s1, cr)" by (cases "coordinate_scans cfg C B s")
  from handle_results_inv [OF coordinate_inv [OF assms(1) s1], of it C] show ?thesis
    using assms(2) s1 by (auto simp: sync_scans_def)
qed

lemma stop_inv:
  assumes "sched_inv cfg active s" and "sched_stop_scan dbg now B i s = (s', r)"
  shows "sched_inv cfg active s'"
proof -
  note core = inv_core [OF assms(1)]
  obtain c q where stop: "be_stop_scan B i (sch_scanner s) = (c, q)" by (cases "be_stop_scan B i (sch_scanner s)")
  note act = stop_active [OF stop]
  show ?thesis
  proof (cases q)
    case (Inl e)
    then have "sched_core active (s\<lparr>sch_scanner := c\<rparr>)" using core_scanner [OF core] act by blast
    then show ?thesis using inv_sub [OF assms(1), of "s\<lparr>sch_scanner := c\<rparr>"] assms(2) stop Inl by (simp add: sched_stop_scan_def)
  next
    case (Inr u)
    let ?s = "s\<lparr>sch_queued := remove_id i (sch_queued s), sch_running := remove_id i (sch_running s)\<rparr>"
    have core': "sched_core active ?s"
      using core_sub [OF core] core_distinct [OF core] by (simp add: distinct_remove_id set_remove_id)
    have "i \<notin> set (sch_running ?s)" using core_distinct [OF core] by (simp add: set_remove_id)
    then have core_c: "sched_core active (?s\<lparr>sch_scanner := c\<rparr>)" using core_scanner [OF core', of c] act by auto
    have gone: "i \<notin> set (sch_queued ?s)" using core_distinct [OF core] by (simp add: set_remove_id)
    have len: "length (remove_id i (sch_running s)) \<le> length (sch_running s)" "length (remove_id i (sch_queued s)) \<le> length (sch_queued s)"
      by (rule length_remove_id)+
    show ?thesis
    proof (cases "i \<in> set (sch_queued s)")
      case True
      then have "i \<notin> set (sch_running s)" using core_distinct [OF core] by auto
      then have "remove_id i (sch_running s) = sch_running s" by (simp add: remove_id_def flip: position_of_None)
      moreover obtain k where "position_of i (sch_queued s) = Some k" using True position_of_None [of i "sch_queued s"] by auto
      then have "s' = s\<lparr>sch_queued := remove_id i (sch_queued s), sch_scanner := c\<rparr>"
        using assms(2) stop Inr by (auto simp: sched_stop_scan_def swap_remove_position)
      ultimately show ?thesis using inv_sub [OF assms(1), of s'] core_c len by simp
    next
      case False
      then have none: "position_of i (sch_queued s) = None" by (simp add: position_of_None)
      then have q: "remove_id i (sch_queued s) = sch_queued s" by (simp add: remove_id_def)
      obtain db where db: "s' = s\<lparr>sch_scanner := c, sch_running := remove_id i (sch_running s), sch_db := db\<rparr>" "db_frame i (sch_db s) db"
        using assms(2) stop Inr none
        by (auto simp: sched_stop_scan_def Let_def split: sum.splits prod.splits dest: update_status_frame intro: that [of "sch_db s"])
      then have "sched_core active s'" using core_db [OF core_c, of i db] gone q by (simp add: sched_core_def)
      then show ?thesis using inv_sub [OF assms(1), of s'] db(1) len by simp
    qed
  qed
qed

end

context scan_backend
begin

lemma delete_leave_inv:
  assumes "sched_inv cfg active s" and "delete_leave B i s = (s1, r)"
  shows "sched_inv cfg active s1 \<and> (r = Inr () \<longrightarrow> i \<notin> set (sch_queued s1) \<and> i \<notin> set (sch_running s1))"
proof (cases "position_of i (sch_queued s)")
  case (Some k)
  then have "i \<in> set (sch_queued s)" using position_of_Some [OF Some] by (metis nth_mem)
  then have "i \<notin> set (sch_running s)" using core_distinct [OF inv_core [OF assms(1)]] by auto
  moreover have s1: "s1 = s\<lparr>sch_queued := remove_id i (sch_queued s)\<rparr>"
    using assms(2) Some by (simp add: delete_leave_def swap_remove_position)
  ultimately show ?thesis
    using inv_sub [OF assms(1) core_remove(2) [OF inv_core [OF assms(1)], of i]] core_distinct [OF inv_core [OF assms(1)]]
    by (simp add: length_remove_id set_remove_id)
next
  case none: None
  then have q: "i \<notin> set (sch_queued s)" by (simp add: position_of_None)
  note core = inv_core [OF assms(1)]
  show ?thesis
  proof (cases "position_of i (sch_running s)")
    case None
    then have "i \<notin> set (sch_running s)" by (simp add: position_of_None)
    then show ?thesis using assms none q None by (simp add: delete_leave_def)
  next
    case (Some k)
    obtain c e where stop: "be_stop_scan B i (sch_scanner s) = (c, e)" by (cases "be_stop_scan B i (sch_scanner s)")
    note act = stop_active [OF stop]
    have failed: "sched_core active (s\<lparr>sch_scanner := c\<rparr>)" if "e \<noteq> Inr ()" using core_scanner [OF core] act that by blast
    have gone: "i \<notin> set (remove_id i (sch_running s))" using core_distinct [OF core] by (simp add: set_remove_id)
    then have "sched_core active (s\<lparr>sch_running := remove_id i (sch_running s), sch_scanner := c\<rparr>)"
      using core_scanner [OF core_remove(1) [OF core, of i], of c] act by auto
    then have "sched_core active (s\<lparr>sch_scanner := c, sch_running := remove_id i (sch_running s)\<rparr>)" by (simp add: sched_core_def)
    then show ?thesis
      using assms(2) none Some stop failed gone q inv_sub [OF assms(1), of s1] length_remove_id [of i "sch_running s"]
      by (auto simp: delete_leave_def swap_remove_position split: sum.splits)
  qed
qed

lemma remove_scan_id_scans: "remove_scan_id i db = Ret db' \<Longrightarrow> ss_scans db' = ss_scans db"
  by (auto simp: remove_scan_id_def exec_simps)

lemma delete_inv:
  assumes "sched_inv cfg active s" and "delete_scan_by_id B i s = Ret (s', r)"
  shows "sched_inv cfg active s'"
proof -
  obtain s1 q where s1: "delete_leave B i s = (s1, q)" by (cases "delete_leave B i s")
  note leave = delete_leave_inv [OF assms(1) s1]
  show ?thesis
  proof (cases q)
    case (Inl e)
    then show ?thesis using assms(2) s1 leave by (simp add: delete_scan_by_id_def)
  next
    case (Inr u)
    then obtain db where db: "remove_scan_id i (store_remove_scan i (sch_db s1)) = Ret db" "s' = s1\<lparr>sch_db := db\<rparr>"
      using assms(2) s1 by (auto simp: delete_scan_by_id_def exec_simps)
    have "ss_scans db = hm_remove i (ss_scans (sch_db s1))"
      using remove_scan_id_scans [OF db(1)] by (simp add: store_remove_scan_def)
    then have "sched_core active s'" using core_db_remove [OF inv_core, of cfg active s1 i db] leave db(2) Inr by simp
    then show ?thesis using inv_sub [of cfg active s1 s'] leave db(2) by simp
  qed
qed

end

subsection \<open>The steps of the daemon\<close>

text \<open>The requests of clients, and the results scripts store while they run.\<close>

inductive client_step :: "scheduler_config \<Rightarrow> 'r crypter \<Rightarrow> 'c backend \<Rightarrow> ('r, 'c) scheduler \<Rightarrow> ('r, 'c) scheduler \<Rightarrow> bool" for cfg C B where
  insert: "insert_scan C scan (sch_db s) = Ret db \<Longrightarrow> client_step cfg C B s (s\<lparr>sch_db := db\<rparr>)"
| own: "client_step cfg C B s (s\<lparr>sch_db := add_scan_client_id i client (sch_db s)\<rparr>)"
| start: "start_scan_by_id cfg i s = (s', r) \<Longrightarrow> client_step cfg C B s s'"
| stop: "sched_stop_scan dbg now B i s = (s', q) \<Longrightarrow> client_step cfg C B s s'"
| delete: "delete_scan_by_id B i s = Ret (s', r) \<Longrightarrow> client_step cfg C B s s'"
| report: "context_key_as_ref key \<notin> set (sch_queued s) \<Longrightarrow> handle_result C key result (sch_db s) = (db, u) \<Longrightarrow>
    client_step cfg C B s (s\<lparr>sch_db := db\<rparr>)"

inductive sched_step :: "scheduler_config \<Rightarrow> ((string \<times> 32 word) list \<Rightarrow> (string \<times> 32 word) list) \<Rightarrow> 'r crypter \<Rightarrow> 'c backend \<Rightarrow>
    ('r, 'c) scheduler \<Rightarrow> ('r, 'c) scheduler \<Rightarrow> bool" for cfg it C B where
  client: "client_step cfg C B s s' \<Longrightarrow> sched_step cfg it C B s s'"
| sync: "sync_scans cfg it C B s = (s', r) \<Longrightarrow> sched_step cfg it C B s s'"

context scan_backend
begin

lemma client_step_inv:
  assumes "client_step cfg C B s s'" and "sched_inv cfg active s"
  shows "sched_inv cfg active s'"
  using assms
proof (induction rule: client_step.induct)
  case (insert scan s db)
  then show ?case using inv_sub [OF insert.prems core_insert [OF inv_core [OF insert.prems] insert.hyps]] by simp
next
  case (own s i client)
  have "ss_scans (add_scan_client_id i client (sch_db s)) = ss_scans (sch_db s)" by (simp add: add_scan_client_id_def)
  then show ?case using own.prems by (simp add: sched_inv_def sched_core_def phase_of_def db_wf_def)
next
  case (report key s result db u)
  then show ?case using inv_sub [OF report.prems core_db [OF inv_core [OF report.prems] handle_result_frame [OF report.hyps(2)] report.hyps(1)]] by simp
qed (auto intro: start_inv stop_inv delete_inv)

lemma step_inv: "sched_step cfg it C B s s' \<Longrightarrow> sched_inv cfg active s \<Longrightarrow> sched_inv cfg active s'"
  by (induction rule: sched_step.induct) (auto intro: client_step_inv sync_inv)

lemma steps_inv: "(sched_step cfg it C B)\<^sup>*\<^sup>* s s' \<Longrightarrow> sched_inv cfg active s \<Longrightarrow> sched_inv cfg active s'"
  by (induction rule: rtranclp_induct) (auto intro: step_inv)

lemma new_inv: "db_wf db \<Longrightarrow> sched_inv cfg active (scheduler_new c db)"
  by (simp add: sched_inv_def sched_core_def scheduler_new_def within_def split: option.split)

end

text \<open>The native scanner behind the traits; it keeps the defaults of \<^verbatim>\<open>can_start_scan\<close> and \<^verbatim>\<open>do_addition\<close>.\<close>

definition native_backend :: "running_scans backend" where
  "native_backend = \<lparr>be_start_scan = start_scan, be_can_start_scan = (\<lambda>_ _. True), be_stop_scan = stop_scan,
     be_fetch_results = (\<lambda>i running. (running, fetch_results i running)), be_do_addition = False\<rparr>"

definition native_active :: "running_scans \<Rightarrow> string set" where
  "native_active running = {i. hm_get running i \<noteq> None}"

interpretation native: scan_backend native_backend native_active
proof
  fix scan c c' and r :: "scanner_error + unit"
  assume "be_start_scan native_backend scan c = (c', r)"
  then show "native_active c \<subseteq> native_active c' \<and> (r = Inr () \<longrightarrow> scan_scan_id scan \<in> native_active c')"
    by (auto simp: native_backend_def native_active_def start_scan_def)
next
  fix i c c' and r :: "scanner_error + unit"
  assume "be_stop_scan native_backend i c = (c', r)"
  then show "native_active c - {i} \<subseteq> native_active c' \<and> (r \<noteq> Inr () \<longrightarrow> native_active c \<subseteq> native_active c')"
    by (auto simp: native_backend_def native_active_def stop_scan_def split: option.splits)
next
  fix i c assume "i \<in> native_active c"
  then show "\<exists>c' results. be_fetch_results native_backend i c = (c', Inr results) \<and> sres_id results = i"
    by (auto simp: native_backend_def native_active_def fetch_results_def)
qed (simp add: native_backend_def)

subsection \<open>Capacity\<close>


definition example_db :: "phase \<Rightarrow> nat scan_storage" where
  "example_db ph = empty_storage\<lparr>ss_scans := [(''s'', example_progress\<lparr>pr_status := status_default\<lparr>st_status := ph\<rparr>\<rparr>)]\<rparr>"

definition example_config :: scheduler_config where
  "example_config = \<lparr>max_queued_scans = Some 1, max_running_scans = Some 1\<rparr>"

lemma example_insert: "insert_scan example_crypter example_run empty_storage = Ret (example_db Stored)"
  by (simp add: insert_scan_def new_progress_def empty_storage_def example_db_def example_progress_def example_run_def
      with_credentials_def target_default_def status_default_def rng_return_def)

lemma example_start:
  "start_scan_by_id example_config ''s'' (scheduler_new [] (example_db Stored)) = ((scheduler_new [] (example_db Requested))\<lparr>sch_queued := [''s'']\<rparr>, Inr ())"
  by (simp add: start_scan_by_id_def start_scan_check_def start_scan_enqueue_def scheduler_new_def example_db_def get_status_def
      sched_update_status_def update_status_def phase_is_final_def example_config_def status_default_def example_progress_def empty_storage_def)


subsection \<open>No scan gets lost\<close>

lemma start_popped_frame:
  assumes "start_popped C B i s = (s', r)"
  shows "db_frame i (sch_db s) (sch_db s')" "set (sch_queued s) \<subseteq> set (sch_queued s')" "set (sch_running s) \<subseteq> set (sch_running s')"
    "r \<noteq> Inr () \<Longrightarrow> scan_entry (sch_db s) i \<noteq> None \<Longrightarrow> s' = s \<and> isl (get_decrypted_scan C i (sch_db s))"
    "r = Inr () \<Longrightarrow> i \<in> set (sch_queued s') \<or> i \<in> set (sch_running s') \<or> phase_of (sch_db s') i = Some Failed"
  using assms update_status_frame [of i failed_status "sch_db s"]
  by (auto simp: start_popped_def phase_of_def update_status_def failed_status_def
      split: sum.splits prod.splits if_splits scanner_error.splits option.splits)

definition accounted :: "'r crypter \<Rightarrow> ('r, 'c) scheduler \<Rightarrow> sched_error + unit \<Rightarrow> string \<Rightarrow> bool" where
  "accounted C s r i = (i \<in> set (sch_queued s) \<or> i \<in> set (sch_running s) \<or> phase_of (sch_db s) i = Some Failed \<or>
     r \<noteq> Inr () \<and> isl (get_decrypted_scan C i (sch_db s)))"

context scan_backend
begin

lemma coordinate_loop_accounts:
  assumes "sched_core active s" and "coordinate_loop C B n s = (s', r)"
    and "j \<in> set (sch_queued s) \<or> j \<in> set (sch_running s) \<or> phase_of (sch_db s) j = Some Failed"
  shows "accounted C s' r j"
  using assms
proof (induction n arbitrary: s)
  case 0
  then show ?case by (auto simp: accounted_def)
next
  case (Suc n)
  show ?case
  proof (cases "sch_queued s = []")
    case True
    then show ?thesis using Suc.prems by (auto simp: accounted_def)
  next
    case False
    let ?i = "last (sch_queued s)" and ?s = "s\<lparr>sch_queued := butlast (sch_queued s)\<rparr>"
    note popped = core_popped [OF Suc.prems(1) False refl refl]
    obtain s1 q where s1: "start_popped C B ?i ?s = (s1, q)" by (cases "start_popped C B ?i ?s")
    note frame = start_popped_frame [OF s1] and core1 = start_popped_core [OF popped(1-4) s1, THEN conjunct1]
    have stored: "scan_entry (sch_db ?s) ?i \<noteq> None" using popped(4) by (auto simp: phase_of_def)
    have j: "j = ?i \<or> j \<in> set (sch_queued s1) \<or> j \<in> set (sch_running s1) \<or> phase_of (sch_db s1) j = Some Failed"
      using Suc.prems(3) popped(5) frame(2,3) db_frame_phase [OF frame(1), of j] by auto
    show ?thesis
    proof (cases q)
      case (Inl e)
      then have "s1 = ?s" "isl (get_decrypted_scan C ?i (sch_db s1))" using frame(4) stored by auto
      then show ?thesis using Suc.prems(2) s1 Inl False j by (auto simp: accounted_def)
    next
      case (Inr u)
      then have "j \<in> set (sch_queued s1) \<or> j \<in> set (sch_running s1) \<or> phase_of (sch_db s1) j = Some Failed" using frame(5) j by auto
      then show ?thesis using Suc.IH [OF core1] Suc.prems(2) s1 Inr False by auto
    qed
  qed
qed

end

text \<open>
  C17: a coordination of the scans loses none of them: a scan that was queued or running is still queued or
  running, or the scanner refused it and its stored status is failed; or the coordination ended with an
  error and the scan is one that cannot be decrypted, which then is neither queued nor running but still
  stored as requested.
\<close>

theorem coordination_accounts:
  assumes "scan_backend B active" and "sched_inv cfg active s" and "coordinate_scans cfg C B s = (s', r)"
    and "i \<in> set (sch_queued s) \<union> set (sch_running s)"
  shows "i \<in> set (sch_queued s') \<or> i \<in> set (sch_running s') \<or> phase_of (sch_db s') i = Some Failed \<or>
     r \<noteq> Inr () \<and> isl (get_decrypted_scan C i (sch_db s'))"
proof (cases "sch_synchronizing s")
  case True
  then show ?thesis using assms by (auto simp: coordinate_scans_def)
next
  case False
  then have "coordinate_loop C B (amount_to_start cfg s) s = (s', r)" using assms(3) by (simp add: coordinate_scans_def)
  from scan_backend.coordinate_loop_accounts [OF assms(1) inv_core [OF assms(2)] this, of i] show ?thesis
    using assms(4) by (auto simp: accounted_def)
qed

lemma example_inv:
  "sched_inv example_config native_active ((scheduler_new [] (example_db Requested))\<lparr>sch_queued := [''s'']\<rparr>)"
  by (simp add: sched_inv_def sched_core_def scheduler_new_def within_def example_config_def phase_of_def db_wf_def example_db_def
      example_progress_def example_run_def)

lemma example_decrypted: "get_decrypted_scan example_crypter ''s'' (example_db ph) = Inr (example_run, status_default\<lparr>st_status := ph\<rparr>)"
  by (simp add: get_decrypted_scan_def get_scan_def example_db_def example_progress_def example_run_def with_credentials_def
      target_default_def rng_return_def)

lemma example_coordinated:
  "coordinate_scans example_config example_crypter native_backend ((scheduler_new [] (example_db Requested))\<lparr>sch_queued := [''s'']\<rparr>) =
     (scheduler_new [(''s'', \<lparr>rh_keep_running = True, rh_status = status_default\<rparr>)] (example_db Requested)\<lparr>sch_running := [''s'']\<rparr>, Inr ())"
proof -
  let ?s = "(scheduler_new [] (example_db Requested))\<lparr>sch_queued := [''s'']\<rparr> :: (nat, running_scans) scheduler"
  have amount: "amount_to_start example_config ?s = Suc 0" by (simp add: amount_to_start_def example_config_def scheduler_new_def)
  show ?thesis unfolding coordinate_scans_def amount
    by (simp add: scheduler_new_def start_popped_def example_decrypted native_backend_def start_scan_def example_run_def)
qed

theorem coordination_accounts_witness:
  "''s'' \<in> set (sch_running (fst (coordinate_scans example_config example_crypter native_backend
     ((scheduler_new [] (example_db Requested))\<lparr>sch_queued := [''s'']\<rparr>))))"
  using coordination_accounts [OF native.scan_backend_axioms example_inv example_coordinated, of "''s''"]
  unfolding example_coordinated
  by (auto simp: scheduler_new_def phase_of_def example_db_def)

subsection \<open>The order of the queue\<close>

lemma native_start_popped:
  assumes "get_decrypted_scan C i (sch_db s) = Inr (scan, status)"
  shows "\<exists>c. start_popped C native_backend i s = (s\<lparr>sch_scanner := c, sch_running := sch_running s @ [i]\<rparr>, Inr ())"
  using assms by (auto simp: start_popped_def native_backend_def start_scan_def)

lemma native_coordinate_loop:
  assumes "\<And>i. i \<in> set (sch_queued s) \<Longrightarrow> isl (get_decrypted_scan C i (sch_db s)) = False" and "k = min n (length (sch_queued s))"
  shows "\<exists>c. coordinate_loop C native_backend n s =
     (s\<lparr>sch_queued := take (length (sch_queued s) - k) (sch_queued s),
        sch_running := sch_running s @ rev (drop (length (sch_queued s) - k) (sch_queued s)), sch_scanner := c\<rparr>, Inr ())"
  using assms
proof (induction n arbitrary: s k)
  case 0
  then show ?case by (intro exI [of _ "sch_scanner s"]) simp
next
  case (Suc n)
  show ?case
  proof (cases "sch_queued s" rule: rev_cases)
    case Nil
    then show ?thesis by (intro exI [of _ "sch_scanner s"]) simp
  next
    case (snoc q i)
    obtain scan status where "get_decrypted_scan C i (sch_db s) = Inr (scan, status)"
      using Suc.prems(1) [of i] snoc by (cases "get_decrypted_scan C i (sch_db s)") auto
    then obtain c where s1: "start_popped C native_backend i (s\<lparr>sch_queued := q\<rparr>) =
        (s\<lparr>sch_queued := q, sch_scanner := c, sch_running := sch_running s @ [i]\<rparr>, Inr ())"
      using native_start_popped [of C i "s\<lparr>sch_queued := q\<rparr>"] by auto
    let ?s = "s\<lparr>sch_queued := q, sch_scanner := c, sch_running := sch_running s @ [i]\<rparr>"
    have dec: "\<And>j. j \<in> set (sch_queued ?s) \<Longrightarrow> isl (get_decrypted_scan C j (sch_db ?s)) = False"
      using Suc.prems(1) snoc by simp
    obtain d where "coordinate_loop C native_backend n ?s =
       (?s\<lparr>sch_queued := take (length q - min n (length q)) q,
           sch_running := (sch_running s @ [i]) @ rev (drop (length q - min n (length q)) q), sch_scanner := d\<rparr>, Inr ())"
      using Suc.IH [OF dec refl] by auto
    then show ?thesis using s1 snoc Suc.prems(2) by (intro exI [of _ d]) (simp add: min_def)
  qed
qed

text \<open>
  When every queued scan can be decrypted, a coordination starts as many scans as there is capacity
  for, the scans queued last first: the rest of the queue, the older requests, waits for the next one.
\<close>

theorem newest_scans_start_first:
  assumes "sched_inv cfg native_active s" and "\<not> sch_synchronizing s"
    and "list_all (\<lambda>i. \<not> isl (get_decrypted_scan C i (sch_db s))) (sch_queued s)"
    and "k = (case max_running_scans cfg of None \<Rightarrow> length (sch_queued s)
        | Some m \<Rightarrow> min (unat m - length (sch_running s)) (length (sch_queued s)))"
  shows "\<exists>s'. coordinate_scans cfg C native_backend s = (s', Inr ()) \<and>
     sch_queued s' = take (length (sch_queued s) - k) (sch_queued s) \<and>
     sch_running s' = sch_running s @ rev (drop (length (sch_queued s) - k) (sch_queued s)) \<and>
     sch_db s' = sch_db s"
proof -
  have "within (max_running_scans cfg) (length (sch_running s))" using assms(1) by (simp add: sched_inv_def)
  then have k: "k = min (amount_to_start cfg s) (length (sch_queued s))"
    using amount_within(2) [of cfg s] assms(4) by (simp add: amount_to_start_def split: option.splits)
  have "\<And>i. i \<in> set (sch_queued s) \<Longrightarrow> isl (get_decrypted_scan C i (sch_db s)) = False"
    using assms(3) by (simp add: list_all_iff)
  from native_coordinate_loop [OF this k] show ?thesis using assms(2) by (auto simp: coordinate_scans_def)
qed

definition example_two :: "(nat, running_scans) scheduler" where
  "example_two = (scheduler_new [] (empty_storage\<lparr>ss_scans :=
      [(''s'', example_progress\<lparr>pr_status := status_default\<lparr>st_status := Requested\<rparr>\<rparr>),
       (''t'', example_progress\<lparr>pr_scan := example_run\<lparr>scan_scan_id := ''t''\<rparr>, pr_status := status_default\<lparr>st_status := Requested\<rparr>\<rparr>)]\<rparr>))
     \<lparr>sch_queued := [''s'', ''t'']\<rparr>"

theorem newest_scans_start_first_witness:
  "\<exists>s'. coordinate_scans \<lparr>max_queued_scans = None, max_running_scans = Some 1\<rparr> example_crypter native_backend example_two = (s', Inr ()) \<and>
     sch_queued s' = [''s''] \<and> sch_running s' = [''t'']"
proof -
  let ?cfg = "\<lparr>max_queued_scans = None, max_running_scans = Some 1\<rparr> :: scheduler_config"
  have inv: "sched_inv ?cfg native_active example_two"
    by (simp add: sched_inv_def sched_core_def example_two_def scheduler_new_def within_def phase_of_def db_wf_def example_progress_def example_run_def)
  have dec: "list_all (\<lambda>i. \<not> isl (get_decrypted_scan example_crypter i (sch_db example_two))) (sch_queued example_two)"
    by (simp add: example_two_def scheduler_new_def get_decrypted_scan_def get_scan_def example_progress_def example_run_def
        target_default_def rng_return_def)
  have "\<not> sch_synchronizing example_two" by (simp add: example_two_def scheduler_new_def)
  moreover have "sch_queued example_two = [''s'', ''t'']" "sch_running example_two = []" by (simp_all add: example_two_def scheduler_new_def)
  ultimately show ?thesis using newest_scans_start_first [OF inv _ dec refl] by auto
qed

subsection \<open>Requests of clients\<close>

text \<open>
  C32: a start request is accepted exactly for a stored scan that has neither been requested nor run, while
  the queue is not full; the scan is then at the end of the queue, its status is requested and nothing else
  changes. Every other request is refused, with the reason given by the state of the scan, and changes nothing.
\<close>

theorem start_outcome:
  assumes "sched_inv cfg active s"
  shows "(case start_scan_by_id cfg i s of (s', r) \<Rightarrow>
     (if i \<in> set (sch_running s) then s' = s \<and> r = Inl ScanRunning
      else case phase_of (sch_db s) i of
          None \<Rightarrow> s' = s \<and> r = Inl SchedNotFound
        | Some Requested \<Rightarrow> s' = s \<and> r = Inl ScanAlreadyQueued
        | Some Running \<Rightarrow> s' = s \<and> r = Inl ScanRunning
        | Some Stopped \<Rightarrow> s' = s \<and> r = Inl UnsupportedResume
        | Some Failed \<Rightarrow> s' = s \<and> r = Inl UnsupportedResume
        | Some Succeeded \<Rightarrow> s' = s \<and> r = Inl AlreadyFinished
        | Some Stored \<Rightarrow>
            (if max_queued_scans cfg = Some (of_nat (length (sch_queued s))) then s' = s \<and> r = Inl QueueFull
             else r = Inr () \<and> sch_queued s' = sch_queued s @ [i] \<and> sch_running s' = sch_running s \<and>
               phase_of (sch_db s') = (phase_of (sch_db s))(i \<mapsto> Requested))))"
proof (cases "start_scan_check i s")
  case (Inl e)
  then show ?thesis
    by (auto simp: start_scan_by_id_def start_scan_check_def get_status_def phase_of_def sched_error_from_store_def
        split: if_splits option.splits phase.splits)
next
  case (Inr status)
  note check = start_check_ok [OF Inr]
  have fresh: "i \<notin> set (sch_queued s)" using inv_core [OF assms] check(4) by (auto simp: sched_core_def)
  obtain db where db: "update_status i status (sch_db s) = (db, Inr ())" "phase_of db i = Some Requested"
    using update_status_ok [OF check(3)] check(2) by metis
  have "phase_of db = (phase_of (sch_db s))(i \<mapsto> Requested)"
    using db(2) db_frame_phase [OF update_status_frame [OF db(1)]] by auto
  moreover have "sched_update_status i status s = (s\<lparr>sch_db := db\<rparr>, Inr ())"
    using check(2) db(1) by (simp add: sched_update_status_def phase_is_final_def)
  moreover have "(case max_queued_scans cfg of Some m \<Rightarrow> length (sch_queued s) = unat m | None \<Rightarrow> False) \<longleftrightarrow>
      max_queued_scans cfg = Some (of_nat (length (sch_queued s)))"
  proof (cases "max_queued_scans cfg")
    case (Some m)
    then have "length (sch_queued s) \<le> unat m" using assms by (simp add: sched_inv_def within_def)
    then have "unat (of_nat (length (sch_queued s)) :: 64 word) = length (sch_queued s)"
      using unsigned_less [of m, where 'a = nat] by (simp add: unsigned_of_nat take_bit_nat_eq_self)
    then show ?thesis using Some unsigned_word_eqI [where 'a = nat, of m "of_nat (length (sch_queued s))"] by auto
  qed simp
  ultimately show ?thesis
    using Inr check fresh by (simp add: start_scan_by_id_def start_scan_enqueue_def)
qed

theorem start_outcome_witness:
  "start_scan_by_id example_config ''s'' ((scheduler_new [] (example_db Requested))\<lparr>sch_queued := [''s'']\<rparr> :: (nat, running_scans) scheduler) =
     ((scheduler_new [] (example_db Requested))\<lparr>sch_queued := [''s'']\<rparr>, Inl ScanAlreadyQueued)"
proof -
  have "phase_of (sch_db ((scheduler_new [] (example_db Requested))\<lparr>sch_queued := [''s'']\<rparr> :: (nat, running_scans) scheduler)) ''s'' = Some Requested"
    by (simp add: scheduler_new_def phase_of_def example_db_def)
  moreover have "sch_running ((scheduler_new [] (example_db Requested))\<lparr>sch_queued := [''s'']\<rparr> :: (nat, running_scans) scheduler) = []"
    by (simp add: scheduler_new_def)
  ultimately show ?thesis
    using start_outcome [OF example_inv, of "''s''"] by (simp split: prod.splits)
qed

text \<open>
  A queued scan the scanner has not seen cannot be stopped: the scanner is asked first and does not
  know the scan, so the request fails with its error and the scan stays in the queue and will be started.
\<close>

theorem queued_scan_not_stopped:
  assumes "i \<in> set (sch_queued s)" and "hm_get (sch_scanner s) i = None"
  shows "sched_stop_scan dbg now native_backend i s = (s, Inl (ScanNotFound i))"
  using assms by (simp add: sched_stop_scan_def native_backend_def stop_scan_def)

theorem queued_scan_not_stopped_witness:
  "sched_stop_scan (\<lambda>_. []) 0 native_backend ''s'' ((scheduler_new [] (example_db Requested))\<lparr>sch_queued := [''s'']\<rparr>) =
     ((scheduler_new [] (example_db Requested))\<lparr>sch_queued := [''s'']\<rparr>, Inl (ScanNotFound ''s''))"
  using queued_scan_not_stopped [of "''s''" "(scheduler_new [] (example_db Requested))\<lparr>sch_queued := [''s'']\<rparr>" "\<lambda>_. []" 0]
  by (simp add: scheduler_new_def)

subsection \<open>Finished scans\<close>

definition reported :: "running_scans \<Rightarrow> string \<Rightarrow> phase" where
  "reported running i = (case hm_get running i of Some h \<Rightarrow> st_status (rh_status h) | None \<Rightarrow> Stored)"

lemma native_handle_each:
  assumes "sched_core native_active s" and "set js \<subseteq> set (sch_running s)" and "distinct js"
  shows "\<exists>s'. handle_each it C native_backend js s = (s', Inr ()) \<and> sched_core native_active s' \<and>
     sch_queued s' = sch_queued s \<and> sch_scanner s' = sch_scanner s \<and>
     set (sch_running s') = set (sch_running s) - {i \<in> set js. phase_is_final (reported (sch_scanner s) i)} \<and>
     (\<forall>i. phase_of (sch_db s') i = (if i \<in> set js then Some (reported (sch_scanner s) i) else phase_of (sch_db s) i))"
  using assms
proof (induction js arbitrary: s)
  case (Cons i js)
  have i: "i \<in> set (sch_running s)" using Cons.prems(2) by simp
  obtain c and results :: scan_results and s1 where fetch: "be_fetch_results native_backend i (sch_scanner s) = (c, Inr results)"
    and s1: "handle_fetched it C native_backend i s = (s1, Inr ())" "sched_core native_active s1" "sch_queued s1 = sch_queued s" "sch_scanner s1 = c"
    "sch_running s1 = (if phase_is_final (st_status (sres_status results)) then remove_id i (sch_running s) else sch_running s)"
    "phase_of (sch_db s1) i = Some (st_status (sres_status results))" "db_frame i (sch_db s) (sch_db s1)"
    by (rule native.handle_fetched_running [OF Cons.prems(1) i, of it C]) blast
  have res: "c = sch_scanner s" "st_status (sres_status results) = reported (sch_scanner s) i"
    using fetch by (auto simp: native_backend_def fetch_results_def reported_def split: option.splits)
  have running: "set (sch_running s1) = set (sch_running s) - {k. k = i \<and> phase_is_final (reported (sch_scanner s) i)}"
    using s1(5) res(2) core_distinct [OF Cons.prems(1)] by (auto simp: set_remove_id)
  then have "set js \<subseteq> set (sch_running s1)" using Cons.prems(2,3) by auto
  then obtain s' where s': "handle_each it C native_backend js s1 = (s', Inr ())" "sched_core native_active s'"
     "sch_queued s' = sch_queued s1" "sch_scanner s' = sch_scanner s1"
     "set (sch_running s') = set (sch_running s1) - {k \<in> set js. phase_is_final (reported (sch_scanner s1) k)}"
     "\<And>k. phase_of (sch_db s') k = (if k \<in> set js then Some (reported (sch_scanner s1) k) else phase_of (sch_db s1) k)"
    using Cons.IH [OF s1(2)] Cons.prems(3) by auto
  have "phase_of (sch_db s') k = (if k \<in> set (i # js) then Some (reported (sch_scanner s) k) else phase_of (sch_db s) k)" for k
    using s'(6) s1(4,6) res db_frame_phase [OF s1(7), of k] by auto
  then show ?case using s1(1,3,4) s'(1-5) running res by auto
qed simp

text \<open>
  C25: after the results were fetched, the running scans are those whose scanner reports no final phase, and
  the stored status of every one of them has the phase its scanner reported. A scan whose report stays at
  stored, as after a failed planning, keeps its place among the running scans.
\<close>

theorem finished_scans_leave:
  assumes "sched_inv cfg native_active s"
  shows "\<exists>s'. handle_results it C native_backend s = (s', Inr ()) \<and> sch_queued s' = sch_queued s \<and>
     set (sch_running s') = {i \<in> set (sch_running s). \<not> phase_is_final (reported (sch_scanner s) i)} \<and>
     (\<forall>i. phase_of (sch_db s') i = (if i \<in> set (sch_running s) then Some (reported (sch_scanner s) i) else phase_of (sch_db s) i))"
proof -
  have "distinct (sch_running s)" using core_distinct [OF inv_core [OF assms]] by simp
  note each = native_handle_each [OF inv_core [OF assms] subset_refl this, of it C]
  obtain s' where "handle_each it C native_backend (sch_running s) s = (s', Inr ())" "sch_queued s' = sch_queued s"
     "set (sch_running s') = set (sch_running s) - {i \<in> set (sch_running s). phase_is_final (reported (sch_scanner s) i)}"
     "\<forall>i. phase_of (sch_db s') i = (if i \<in> set (sch_running s) then Some (reported (sch_scanner s) i) else phase_of (sch_db s) i)"
    using each by (elim exE conjE) (rule that)
  moreover from this(3) have "set (sch_running s') = {i \<in> set (sch_running s). \<not> phase_is_final (reported (sch_scanner s) i)}" by auto
  ultimately show ?thesis unfolding handle_results_def by blast
qed

definition example_running :: "phase \<Rightarrow> (nat, running_scans) scheduler" where
  "example_running ph = scheduler_new [(''s'', \<lparr>rh_keep_running = True, rh_status = status_default\<lparr>st_status := ph\<rparr>\<rparr>)] (example_db Requested)\<lparr>sch_running := [''s'']\<rparr>"

lemma example_running_inv: "sched_inv example_config native_active (example_running ph)"
  by (simp add: example_running_def sched_inv_def sched_core_def scheduler_new_def within_def example_config_def db_wf_def example_db_def
      example_progress_def example_run_def native_active_def)

theorem finished_scans_leave_witness:
  "(\<exists>s'. handle_results rev example_crypter native_backend (example_running Succeeded) = (s', Inr ()) \<and> sch_running s' = [] \<and>
      phase_of (sch_db s') ''s'' = Some Succeeded) \<and>
   (\<exists>s'. handle_results rev example_crypter native_backend (example_running Stored) = (s', Inr ()) \<and> set (sch_running s') = {''s''} \<and>
      phase_of (sch_db s') ''s'' = Some Stored)"
proof -
  have ex: "sch_running (example_running ph) = [''s'']" "reported (sch_scanner (example_running ph)) ''s'' = ph" for ph
    by (simp_all add: example_running_def scheduler_new_def reported_def)
  have "\<exists>s'. handle_results rev example_crypter native_backend (example_running ph) = (s', Inr ()) \<and>
      set (sch_running s') = (if phase_is_final ph then {} else {''s''}) \<and> phase_of (sch_db s') ''s'' = Some ph" for ph
  proof -
    obtain s' where s': "handle_results rev example_crypter native_backend (example_running ph) = (s', Inr ())"
      "set (sch_running s') = {i \<in> set (sch_running (example_running ph)). \<not> phase_is_final (reported (sch_scanner (example_running ph)) i)}"
      "\<forall>i. phase_of (sch_db s') i = (if i \<in> set (sch_running (example_running ph))
          then Some (reported (sch_scanner (example_running ph)) i) else phase_of (sch_db (example_running ph)) i)"
      using finished_scans_leave [OF example_running_inv, of rev example_crypter ph] by (elim exE conjE) (rule that)
    have "phase_of (sch_db s') ''s'' = Some ph" using s'(3) [rule_format, of "''s''"] ex [of ph] by simp
    moreover have "set (sch_running s') = (if phase_is_final ph then {} else {''s''})" using s'(2) by (simp add: ex Collect_conv_if)
    ultimately show ?thesis using s'(1) by (intro exI [of _ s'] conjI)
  qed
  from this [of Succeeded] this [of Stored] show ?thesis by (simp add: phase_is_final_def)
qed

subsection \<open>Concurrent start requests\<close>

lemma decrypted_after_update:
  assumes "update_status i status db = (db', r)" and "get_decrypted_scan C i db = Inr (scan, old)"
  shows "\<exists>st. get_decrypted_scan C i db' = Inr (scan, st)"
  using assms
  by (auto simp: update_status_def get_decrypted_scan_def get_scan_def split: option.splits sum.splits)

text \<open>
  Two concurrent requests to start the same scan can make it run twice: when both have passed the check
  of the status before either is queued, and the first one is queued and started in between, the second
  one queues the scan again although it is running.
\<close>

theorem concurrent_starts:
  assumes "start_scan_check i s = Inr status" and "sch_queued s = []" "\<not> sch_synchronizing s"
    and "max_queued_scans cfg = None" "max_running_scans cfg = None" and "get_decrypted_scan C i (sch_db s) = Inr (scan, old)"
  shows "\<exists>s1 s2 s3. start_scan_enqueue cfg i status s = (s1, Inr ()) \<and> coordinate_scans cfg C native_backend s1 = (s2, Inr ()) \<and>
     start_scan_enqueue cfg i status s2 = (s3, Inr ()) \<and> i \<in> set (sch_running s3) \<and> i \<in> set (sch_queued s3)"
proof -
  note check = start_check_ok [OF assms(1)]
  have upd: "\<exists>db'. sched_update_status i status t = (t\<lparr>sch_db := db'\<rparr>, Inr ()) \<and> update_status i status (sch_db t) = (db', Inr ())"
    if "scan_entry (sch_db t) i \<noteq> None" for t :: "('a, running_scans) scheduler"
    using update_status_ok [OF that, of status] check(2) by (auto simp: sched_update_status_def phase_is_final_def)
  obtain db1 where db1: "sched_update_status i status s = (s\<lparr>sch_db := db1\<rparr>, Inr ())" "update_status i status (sch_db s) = (db1, Inr ())"
    using upd [OF check(3)] by blast
  let ?s1 = "s\<lparr>sch_db := db1, sch_queued := [i]\<rparr>"
  have s1: "start_scan_enqueue cfg i status s = (?s1, Inr ())" using assms(2,4) db1(1) by (simp add: start_scan_enqueue_def)
  obtain st where "get_decrypted_scan C i db1 = Inr (scan, st)" using decrypted_after_update [OF db1(2) assms(6)] by blast
  then obtain c where s2: "coordinate_scans cfg C native_backend ?s1 = (s\<lparr>sch_db := db1, sch_queued := [], sch_scanner := c, sch_running := sch_running s @ [i]\<rparr>, Inr ())"
    using native_start_popped [of C i "s\<lparr>sch_db := db1, sch_queued := []\<rparr>"] assms(3,5)
    by (auto simp: coordinate_scans_def amount_to_start_def)
  let ?s2 = "s\<lparr>sch_db := db1, sch_queued := [], sch_scanner := c, sch_running := sch_running s @ [i]\<rparr>"
  have "scan_entry (sch_db ?s2) i \<noteq> None" using db_frame_stored [OF update_status_frame [OF db1(2)]] check(3) by simp
  from upd [OF this] obtain db3 where "sched_update_status i status ?s2 = (?s2\<lparr>sch_db := db3\<rparr>, Inr ())" by blast
  then have "start_scan_enqueue cfg i status ?s2 = (?s2\<lparr>sch_db := db3, sch_queued := [i]\<rparr>, Inr ())"
    using assms(4) by (simp add: start_scan_enqueue_def)
  moreover have "i \<in> set (sch_running (?s2\<lparr>sch_db := db3, sch_queued := [i]\<rparr>))" "i \<in> set (sch_queued (?s2\<lparr>sch_db := db3, sch_queued := [i]\<rparr>))"
    by simp_all
  ultimately show ?thesis using s1 s2 by blast
qed

theorem concurrent_starts_witness:
  "\<exists>status s1 s2 s3. start_scan_check ''s'' (scheduler_new [] (example_db Stored) :: (nat, running_scans) scheduler) = Inr status \<and>
     start_scan_enqueue \<lparr>max_queued_scans = None, max_running_scans = None\<rparr> ''s'' status (scheduler_new [] (example_db Stored)) = (s1, Inr ()) \<and>
     coordinate_scans \<lparr>max_queued_scans = None, max_running_scans = None\<rparr> example_crypter native_backend s1 = (s2, Inr ()) \<and>
     start_scan_enqueue \<lparr>max_queued_scans = None, max_running_scans = None\<rparr> ''s'' status s2 = (s3, Inr ()) \<and>
     ''s'' \<in> set (sch_running s3) \<and> ''s'' \<in> set (sch_queued s3)"
proof -
  have "start_scan_check ''s'' (scheduler_new [] (example_db Stored) :: (nat, running_scans) scheduler) = Inr (status_default\<lparr>st_status := Requested\<rparr>)"
    by (simp add: start_scan_check_def scheduler_new_def get_status_def example_db_def status_default_def)
  from concurrent_starts [OF this, of "\<lparr>max_queued_scans = None, max_running_scans = None\<rparr>" example_crypter] this show ?thesis
    using example_decrypted [of Stored] by (auto simp: scheduler_new_def)
qed

subsection \<open>Feed updates\<close>

text \<open>
  \<^verbatim>\<open>synchronize_feeds\<close> takes the write lock of \<^verbatim>\<open>is_synchronizing_feed\<close>, sets the flag, waits until no scan is
  running, updates the feed of the storage, resets the flag and only then releases the lock.
  \<^verbatim>\<open>coordinate_scans\<close> reads the flag under the read lock, so it does not get beyond that point while an update
  waits. \<^verbatim>\<open>sync_scans\<close> first awaits the coordination and then handles the results; one background task calls
  it again and again (\<^verbatim>\<open>rust/src/openvasd/controller/results.rs\<close>), another one updates the feed
  (\<^verbatim>\<open>rust/src/openvasd/controller/feed.rs\<close>). The update of the storage and the requests of clients are arguments.
\<close>

datatype feed_task = FeedIdle | FeedWaiting

datatype sync_task = SyncIdle | SyncCoordinate | SyncResults

record ('r, 'c) daemon =
  dm_feed :: feed_task
  dm_sync :: sync_task
  dm_sched :: "('r, 'c) scheduler"

definition feed_lock :: "('r, 'c) scheduler \<Rightarrow> ('r, 'c) scheduler" where
  "feed_lock s = s\<lparr>sch_synchronizing := True\<rparr>"

definition feed_finish :: "('r scan_storage \<Rightarrow> 'r scan_storage \<times> string) \<Rightarrow> ('r, 'c) scheduler \<Rightarrow> ('r, 'c) scheduler" where
  "feed_finish F s = (case F (sch_db s) of (db, version) \<Rightarrow> s\<lparr>sch_db := db, sch_feed_version := version, sch_synchronizing := False\<rparr>)"

inductive daemon_step :: "scheduler_config \<Rightarrow> ((string \<times> 32 word) list \<Rightarrow> (string \<times> 32 word) list) \<Rightarrow> 'r crypter \<Rightarrow> 'c backend \<Rightarrow>
    ('r scan_storage \<Rightarrow> 'r scan_storage \<times> string) \<Rightarrow> (('r, 'c) scheduler \<Rightarrow> ('r, 'c) scheduler \<Rightarrow> bool) \<Rightarrow>
    ('r, 'c) daemon \<Rightarrow> ('r, 'c) daemon \<Rightarrow> bool" for cfg it C B F clients where
  feed_begin: "dm_feed d = FeedIdle \<Longrightarrow>
    daemon_step cfg it C B F clients d (d\<lparr>dm_feed := FeedWaiting, dm_sched := feed_lock (dm_sched d)\<rparr>)"
| feed_end: "dm_feed d = FeedWaiting \<Longrightarrow> \<not> has_running_scans (dm_sched d) \<Longrightarrow>
    daemon_step cfg it C B F clients d (d\<lparr>dm_feed := FeedIdle, dm_sched := feed_finish F (dm_sched d)\<rparr>)"
| sync_begin: "dm_sync d = SyncIdle \<Longrightarrow> daemon_step cfg it C B F clients d (d\<lparr>dm_sync := SyncCoordinate\<rparr>)"
| coordinate: "dm_sync d = SyncCoordinate \<Longrightarrow> dm_feed d = FeedIdle \<Longrightarrow> coordinate_scans cfg C B (dm_sched d) = (s, r) \<Longrightarrow>
    daemon_step cfg it C B F clients d (d\<lparr>dm_sync := SyncResults, dm_sched := s\<rparr>)"
| results: "dm_sync d = SyncResults \<Longrightarrow> handle_results it C B (dm_sched d) = (s, r) \<Longrightarrow>
    daemon_step cfg it C B F clients d (d\<lparr>dm_sync := SyncIdle, dm_sched := s\<rparr>)"
| client: "clients (dm_sched d) s \<Longrightarrow> daemon_step cfg it C B F clients d (d\<lparr>dm_sched := s\<rparr>)"

inductive_cases daemon_stepE: "daemon_step cfg it C B F clients d d'"



end
