(* ===== verification/Nasl_Token.thy ===== *)
theory Nasl_Token
  imports Storage_Types "HOL-Library.Sublist"
begin

section \<open>Tokens of NASL\<close>

text \<open>
  \<^verbatim>\<open>rust/src/nasl/syntax/cursor.rs\<close> and \<^verbatim>\<open>token.rs\<close>: the cursor over the characters of a script and the
  tokenizer. Scripts are read by \<^verbatim>\<open>load_non_utf8_path\<close>, which turns every byte into the character with that
  code, so a script is a list of characters below 256. Positions are counted in bytes of the UTF-8 form, in
  which the characters from 128 on take two bytes.
\<close>

subsection \<open>Characters\<close>

text \<open>\<^verbatim>\<open>char::is_alphabetic\<close>, \<^verbatim>\<open>char::is_numeric\<close> and \<^verbatim>\<open>char::is_whitespace\<close> on characters below 256.\<close>

definition uni_alphabetic :: "char \<Rightarrow> bool" where
  "uni_alphabetic c = (let n = code_of c in 65 \<le> n \<and> n \<le> 90 \<or> 97 \<le> n \<and> n \<le> 122 \<or> n = 170 \<or> n = 181 \<or> n = 186 \<or>
     192 \<le> n \<and> n \<noteq> 215 \<and> n \<noteq> 247)"

definition uni_numeric :: "char \<Rightarrow> bool" where
  "uni_numeric c = (let n = code_of c in 48 \<le> n \<and> n \<le> 57 \<or> n = 178 \<or> n = 179 \<or> n = 185 \<or> 188 \<le> n \<and> n \<le> 190)"

definition uni_whitespace :: "char \<Rightarrow> bool" where
  "uni_whitespace c = (let n = code_of c in 9 \<le> n \<and> n \<le> 13 \<or> n = 32 \<or> n = 133 \<or> n = 160)"

text \<open>\<^verbatim>\<open>str::replace\<close> for a pattern that is not empty, and slices of a text by byte positions.\<close>

function str_replace :: "string \<Rightarrow> string \<Rightarrow> string \<Rightarrow> string" where
  "str_replace pat to s = (case s of
      [] \<Rightarrow> []
    | c # cs \<Rightarrow> if pat \<noteq> [] \<and> take (length pat) s = pat then to @ str_replace pat to (drop (length pat) s)
              else c # str_replace pat to cs)"
  by pat_completeness auto
termination by (relation "measure (\<lambda>(_, _, s). length s)") (auto simp: length_greater_0_conv)

declare str_replace.simps [simp del]

fun byte_drop :: "nat \<Rightarrow> string \<Rightarrow> string" where
  "byte_drop n [] = []"
| "byte_drop n (c # cs) = (if n = 0 then c # cs else byte_drop (n - len_utf8 c) cs)"

fun byte_take :: "nat \<Rightarrow> string \<Rightarrow> string" where
  "byte_take n [] = []"
| "byte_take n (c # cs) = (if n = 0 then [] else c # byte_take (n - len_utf8 c) cs)"

definition byte_slice :: "nat \<Rightarrow> nat \<Rightarrow> string \<Rightarrow> string" where
  "byte_slice a b s = byte_take (b - a) (byte_drop a s)"

subsection \<open>Cursor\<close>

definition eof_char :: char where
  "eof_char = CHR 0x00"

record cursor =
  cur_initial_len :: nat
  cur_chars :: string
  cur_line :: nat
  cur_col :: nat

definition cursor_new :: "string \<Rightarrow> cursor" where
  "cursor_new s = \<lparr>cur_initial_len = byte_len s, cur_chars = s, cur_line = 1, cur_col = 1\<rparr>"

definition peek_char :: "nat \<Rightarrow> cursor \<Rightarrow> char" where
  "peek_char n c = (if n < length (cur_chars c) then cur_chars c ! n else eof_char)"

definition advance :: "cursor \<Rightarrow> char option \<times> cursor" where
  "advance c = (case cur_chars c of
      [] \<Rightarrow> (None, c)
    | x # xs \<Rightarrow> (Some x, if x = CHR 0x0A then c\<lparr>cur_chars := xs, cur_line := cur_line c + 1, cur_col := 1\<rparr>
                       else c\<lparr>cur_chars := xs, cur_col := cur_col c + 1\<rparr>))"

abbreviation advanced :: "cursor \<Rightarrow> cursor" where
  "advanced c \<equiv> snd (advance c)"

definition is_eof :: "cursor \<Rightarrow> bool" where
  "is_eof c = (cur_chars c = [])"

text \<open>The predicate of \<^verbatim>\<open>skip_while\<close> may keep a state; it is threaded through.\<close>

function skip_state :: "('s \<Rightarrow> char \<Rightarrow> 's \<times> bool) \<Rightarrow> 's \<Rightarrow> cursor \<Rightarrow> cursor" where
  "skip_state p s c = (case p s (peek_char 0 c) of (s', b) \<Rightarrow> if b \<and> \<not> is_eof c then skip_state p s' (advanced c) else c)"
  by pat_completeness auto
termination
  by (relation "measure (\<lambda>(_, _, c). length (cur_chars c))") (auto simp: advance_def is_eof_def split: list.splits)

declare skip_state.simps [simp del]

definition skip_while :: "(char \<Rightarrow> bool) \<Rightarrow> cursor \<Rightarrow> cursor" where
  "skip_while p = skip_state (\<lambda>_ c. ((), p c)) ()"

definition len_consumed :: "cursor \<Rightarrow> nat" where
  "len_consumed c = cur_initial_len c - byte_len (cur_chars c)"

definition line_column :: "cursor \<Rightarrow> nat \<times> nat" where
  "line_column c = (cur_line c, cur_col c)"

subsection \<open>Token categories\<close>

datatype base = Binary | Octal | Base10 | Hex

definition base_verifier :: "base \<Rightarrow> char \<Rightarrow> bool" where
  "base_verifier b c = (let n = code_of c in case b of
      Binary \<Rightarrow> n = 48 \<or> n = 49
    | Octal \<Rightarrow> 48 \<le> n \<and> n \<le> 55
    | Base10 \<Rightarrow> 48 \<le> n \<and> n \<le> 57
    | Hex \<Rightarrow> 48 \<le> n \<and> n \<le> 57 \<or> 65 \<le> n \<and> n \<le> 70 \<or> 97 \<le> n \<and> n \<le> 102)"

definition radix :: "base \<Rightarrow> nat" where
  "radix b = (case b of Binary \<Rightarrow> 2 | Octal \<Rightarrow> 8 | Base10 \<Rightarrow> 10 | Hex \<Rightarrow> 16)"

datatype unclosed_category = UnclosedString | UnclosedData

datatype identifier_type =
    KwFunction | KwFCTAnonArgs | KwTrue | KwFalse | KwFor | KwForEach | KwIf | KwElse | KwWhile | KwRepeat | KwUntil
  | KwLocalVar | KwGlobalVar | KwNull | KwReturn | KwContinue | KwBreak | KwInclude | KwACT act | KwExit
  | Undefined string

definition keyword_table :: "(string \<times> identifier_type) list" where
  "keyword_table = [(''function'', KwFunction), (''_FCT_ANON_ARGS'', KwFCTAnonArgs), (''TRUE'', KwTrue), (''FALSE'', KwFalse),
     (''for'', KwFor), (''foreach'', KwForEach), (''if'', KwIf), (''else'', KwElse), (''while'', KwWhile),
     (''repeat'', KwRepeat), (''until'', KwUntil), (''local_var'', KwLocalVar), (''global_var'', KwGlobalVar),
     (''NULL'', KwNull), (''return'', KwReturn), (''include'', KwInclude), (''exit'', KwExit),
     (''ACT_ATTACK'', KwACT Attack), (''ACT_DENIAL'', KwACT Denial), (''ACT_DESTRUCTIVE_ATTACK'', KwACT DestructiveAttack),
     (''ACT_END'', KwACT End), (''ACT_FLOOD'', KwACT Flood), (''ACT_GATHER_INFO'', KwACT GatherInfo),
     (''ACT_INIT'', KwACT Init), (''ACT_KILL_HOST'', KwACT KillHost), (''ACT_MIXED_ATTACK'', KwACT MixedAttack),
     (''ACT_SCANNER'', KwACT Scanner), (''ACT_SETTINGS'', KwACT Settings), (''continue'', KwContinue), (''break'', KwBreak)]"

definition identifier_new :: "string \<Rightarrow> identifier_type" where
  "identifier_new keyword = (case map_of keyword_table keyword of Some k \<Rightarrow> k | None \<Rightarrow> Undefined keyword)"

definition identifier_display :: "identifier_type \<Rightarrow> string" where
  "identifier_display k = (case find (\<lambda>e. snd e = k) keyword_table of
      Some (name, _) \<Rightarrow> name
    | None \<Rightarrow> (case k of Undefined r \<Rightarrow> r | _ \<Rightarrow> []))"

definition identifier_len :: "identifier_type \<Rightarrow> nat" where
  "identifier_len k = (case find (\<lambda>e. snd e = k) keyword_table of
      Some (name, _) \<Rightarrow> byte_len name
    | None \<Rightarrow> (case k of Undefined r \<Rightarrow> byte_len r | _ \<Rightarrow> 0))"

datatype (plugins only: code size) category =
    LeftParen | RightParen | LeftBrace | RightBrace | LeftCurlyBracket | RightCurlyBracket | Comma | Dot
  | Percent | PercentEqual | Semicolon | DoublePoint | Tilde | Caret | Ampersand | AmpersandAmpersand | Pipe | PipePipe
  | Bang | BangEqual | BangTilde | EqualSign | EqualEqual | EqualTilde | GreaterSign | GreaterGreater | GreaterEqual | GreaterLess
  | LessSign | LessLess | LessEqual | Minus | MinusMinus | MinusEqual | Plus | PlusEqual | PlusPlus | Slash | SlashEqual
  | Star | StarStar | StarEqual | GreaterGreaterGreater | GreaterGreaterEqual | LessLessEqual | GreaterBangLess
  | GreaterGreaterGreaterEqual | TimesX
  | StringLit string | DataLit "8 word list" | NumberLit "64 word" | IPv4Address string | IllegalIPv4Address
  | IllegalNumber base | Comment | Identifier identifier_type | Unclosed unclosed_category | UnknownBase | UnknownSymbol

text \<open>The texts of the categories that are one fixed text.\<close>

definition symbols :: "(string \<times> category) list" where
  "symbols = [(''('', LeftParen), ('')'', RightParen), (''['', LeftBrace), ('']'', RightBrace), (''{'', LeftCurlyBracket),
     (''}'', RightCurlyBracket), ('','', Comma), (''.'', Dot), (''%'', Percent), (''%='', PercentEqual), ('';'', Semicolon),
     ('':'', DoublePoint), (''~'', Tilde), (''^'', Caret), (''&'', Ampersand), (''&&'', AmpersandAmpersand), (''|'', Pipe),
     (''||'', PipePipe), (''!'', Bang), (''!='', BangEqual), (''!~'', BangTilde), (''='', EqualSign), (''=='', EqualEqual),
     (''=~'', EqualTilde), (''>'', GreaterSign), (''>>'', GreaterGreater), (''>='', GreaterEqual), (''><'', GreaterLess),
     (''<'', LessSign), (''<<'', LessLess), (''<='', LessEqual), (''-'', Minus), (''--'', MinusMinus), (''-='', MinusEqual),
     (''+'', Plus), (''+='', PlusEqual), (''++'', PlusPlus), (''/'', Slash), (''/='', SlashEqual), (''*'', Star),
     (''**'', StarStar), (''*='', StarEqual), (''>>>'', GreaterGreaterGreater), (''>>='', GreaterGreaterEqual),
     (''<<='', LessLessEqual), (''>!<'', GreaterBangLess), (''>>>='', GreaterGreaterGreaterEqual)]"

definition category_display :: "category \<Rightarrow> string" where
  "category_display c = (case c of
      TimesX \<Rightarrow> ''X''
    | StringLit x \<Rightarrow> [CHR 0x22] @ x @ [CHR 0x22]
    | NumberLit x \<Rightarrow> show_i64 x
    | IPv4Address x \<Rightarrow> x
    | IllegalIPv4Address \<Rightarrow> ''IllegalIPv4Address''
    | IllegalNumber _ \<Rightarrow> ''IllegalNumber''
    | Comment \<Rightarrow> ''Comment''
    | Identifier x \<Rightarrow> identifier_display x
    | Unclosed x \<Rightarrow> (case x of UnclosedString \<Rightarrow> ''UnclosedString'' | UnclosedData \<Rightarrow> ''UnclosedData'')
    | UnknownBase \<Rightarrow> ''UnknownBase''
    | UnknownSymbol \<Rightarrow> ''UnknownSymbol''
    | DataLit x \<Rightarrow> ''['' @ str_join '', '' (map (\<lambda>b. show_nat (unat b)) x) @ '']''
    | _ \<Rightarrow> (case find (\<lambda>e. snd e = c) symbols of Some (t, _) \<Rightarrow> t | None \<Rightarrow> []))"

record token =
  tok_category :: category
  tok_line_column :: "nat \<times> nat"
  tok_position :: "nat \<times> nat"

definition token_default :: token where
  "token_default = \<lparr>tok_category = UnknownSymbol, tok_line_column = (0, 0), tok_position = (0, 0)\<rparr>"

definition token_display :: "token \<Rightarrow> string" where
  "token_display t = show_nat (fst (tok_line_column t)) @ '':'' @ show_nat (snd (tok_line_column t)) @ '' '' @ category_display (tok_category t)"

definition is_faulty :: "token \<Rightarrow> bool" where
  "is_faulty t = (case tok_category t of
      IllegalIPv4Address \<Rightarrow> True | IllegalNumber _ \<Rightarrow> True | Unclosed _ \<Rightarrow> True | UnknownBase \<Rightarrow> True | UnknownSymbol \<Rightarrow> True
    | _ \<Rightarrow> False)"

subsection \<open>Tokenizer\<close>

text \<open>Two-symbol tokens: the next character decides which one it is.\<close>

definition two_symbol :: "(char \<times> category) list \<Rightarrow> category \<Rightarrow> cursor \<Rightarrow> cursor \<times> category" where
  "two_symbol table single c = (case map_of table (peek_char 0 c) of
      Some cat \<Rightarrow> (advanced c, cat)
    | None \<Rightarrow> (c, single))"

definition tokenize_greater :: "cursor \<Rightarrow> cursor \<times> category" where
  "tokenize_greater c =
     (let n = peek_char 0 c in
      if n = CHR ''='' then (advanced c, GreaterEqual)
      else if n = CHR ''<'' then (advanced c, GreaterLess)
      else if n = CHR ''>'' then
        (let c1 = advanced c; n1 = peek_char 0 c1 in
         if n1 = CHR ''>'' then
           (let c2 = advanced c1 in
            if peek_char 0 c2 = CHR ''='' then (advanced c2, GreaterGreaterGreaterEqual) else (c2, GreaterGreaterGreater))
         else if n1 = CHR ''='' then (advanced c1, GreaterGreaterEqual)
         else (c1, GreaterGreater))
      else if n = CHR ''!'' \<and> peek_char 1 c = CHR ''<'' then (advanced (advanced c), GreaterBangLess)
      else (c, GreaterSign))"

definition tokenize_less :: "cursor \<Rightarrow> cursor \<times> category" where
  "tokenize_less c =
     (let n = peek_char 0 c in
      if n = CHR ''='' then (advanced c, LessEqual)
      else if n = CHR ''<'' then
        (let c1 = advanced c in if peek_char 0 c1 = CHR ''='' then (advanced c1, LessLessEqual) else (c1, LessLess))
      else (c, LessSign))"

definition tokenize_string :: "string \<Rightarrow> cursor \<Rightarrow> cursor \<times> category" where
  "tokenize_string code c =
     (let start = len_consumed c;
          c1 = skip_while (\<lambda>x. x \<noteq> CHR 0x22) c
      in if is_eof c1 then (c1, Unclosed UnclosedString)
         else (advanced c1, StringLit (byte_slice start (len_consumed c1) code)))"

text \<open>The replacements of escapes, in the order of the code.\<close>

definition unescape :: "string \<Rightarrow> string" where
  "unescape s =
     (let s1 = str_replace [CHR 0x5C, CHR 0x22] [CHR 0x22] s;
          s2 = str_replace [CHR 0x5C, CHR ''n''] [CHR 0x0A] s1;
          s3 = str_replace [CHR 0x5C, CHR 0x5C] [CHR 0x5C] s2;
          s4 = str_replace [CHR 0x5C, CHR 0x27] [CHR 0x27] s3;
          s5 = str_replace [CHR 0x5C, CHR ''r''] [CHR 0x0D] s4
      in str_replace [CHR 0x5C, CHR ''t''] [CHR 0x09] s5)"

definition data_step :: "bool \<Rightarrow> char \<Rightarrow> bool \<times> bool" where
  "data_step back_slash c = (if \<not> back_slash \<and> c = CHR 0x27 then (back_slash, False) else (\<not> back_slash \<and> c = CHR 0x5C, True))"

definition tokenize_data :: "string \<Rightarrow> cursor \<Rightarrow> cursor \<times> category" where
  "tokenize_data code c =
     (let start = len_consumed c;
          c1 = skip_state data_step False c
      in if is_eof c1 then (c1, Unclosed UnclosedData)
         else (advanced c1, DataLit (as_bytes (unescape (byte_slice start (len_consumed c1) code)))))"

definition may_parse_ipv4 :: "string \<Rightarrow> base \<Rightarrow> nat \<Rightarrow> cursor \<Rightarrow> cursor \<times> category option" where
  "may_parse_ipv4 code b start c =
     (if b = Base10 \<and> peek_char 0 c = CHR ''.'' \<and> uni_numeric (peek_char 1 c) then
        (let c1 = skip_while (base_verifier b) (advanced c) in
         if peek_char 0 c1 = CHR ''.'' then
           (if \<not> uni_numeric (peek_char 1 c1) then (c1, Some IllegalIPv4Address)
            else
             (let c2 = skip_while (base_verifier b) (advanced c1) in
              if peek_char 0 c2 = CHR ''.'' \<and> uni_numeric (peek_char 1 c2) then
                (let c3 = skip_while (base_verifier b) (advanced c2)
                 in (c3, Some (IPv4Address (byte_slice start (len_consumed c3) code))))
              else (c2, Some IllegalIPv4Address)))
         else (c1, Some IllegalIPv4Address))
      else (c, None))"

text \<open>\<^verbatim>\<open>i64::from_str_radix\<close> on digits without a sign.\<close>

definition radix_digit :: "char \<Rightarrow> nat" where
  "radix_digit c = (let n = code_of c in if n \<le> 57 then n - 48 else if n \<le> 70 then n - 55 else n - 87)"

definition radix_val :: "nat \<Rightarrow> string \<Rightarrow> nat" where
  "radix_val r s = foldl (\<lambda>v c. v * r + radix_digit c) 0 s"

definition from_str_radix :: "string \<Rightarrow> base \<Rightarrow> 64 word option" where
  "from_str_radix s b = (if s \<noteq> [] \<and> list_all (base_verifier b) s \<and> radix_val (radix b) s < 2 ^ 63
     then Some (of_nat (radix_val (radix b) s)) else None)"

definition number_base :: "nat \<Rightarrow> char \<Rightarrow> cursor \<Rightarrow> cursor \<times> nat \<times> base option" where
  "number_base start current c =
     (if current = CHR ''0'' then
        (let p = peek_char 0 c in
         if p = CHR ''b'' then (advanced c, start + 2, Some Binary)
         else if p = CHR ''x'' then (advanced c, start + 2, Some Hex)
         else if base_verifier Octal p then (c, start + 1, Some Octal)
         else if uni_alphabetic p then (c, start, None)
         else (c, start, Some Base10))
      else (c, start, Some Base10))"

definition tokenize_number :: "string \<Rightarrow> nat \<Rightarrow> char \<Rightarrow> cursor \<Rightarrow> cursor \<times> category" where
  "tokenize_number code start0 current c0 = (case number_base start0 current c0 of
      (c, start, None) \<Rightarrow> (c, UnknownBase)
    | (c, start, Some b) \<Rightarrow>
        (case may_parse_ipv4 code b start (skip_while (base_verifier b) c) of
           (c2, Some tok) \<Rightarrow> (c2, tok)
         | (c2, None) \<Rightarrow>
             (c2, if start = len_consumed c2 then IllegalNumber b
                  else (case from_str_radix (byte_slice start (len_consumed c2) code) b of
                      Some num \<Rightarrow> NumberLit num
                    | None \<Rightarrow> IllegalNumber b))))"

definition tokenize_identifier :: "string \<Rightarrow> nat \<Rightarrow> cursor \<Rightarrow> cursor \<times> category" where
  "tokenize_identifier code start c =
     (let c1 = skip_while (\<lambda>x. uni_alphabetic x \<or> x = CHR ''_'' \<or> uni_numeric x) c;
          lookup = byte_slice start (len_consumed c1) code
      in if lookup \<noteq> ''x'' then (c1, Identifier (identifier_new lookup))
         else (let c2 = skip_while uni_whitespace c1
               in if uni_numeric (peek_char 0 c2) then (c2, TimesX) else (c2, Identifier (Undefined lookup))))"

definition one_symbol :: "(char \<times> category) list" where
  "one_symbol = [(CHR ''('', LeftParen), (CHR '')'', RightParen), (CHR ''['', LeftBrace), (CHR '']'', RightBrace),
     (CHR ''{'', LeftCurlyBracket), (CHR ''}'', RightCurlyBracket), (CHR '','', Comma), (CHR ''.'', Dot),
     (CHR '';'', Semicolon), (CHR '':'', DoublePoint), (CHR ''~'', Tilde), (CHR ''^'', Caret)]"

definition two_symbols :: "(char \<times> category \<times> (char \<times> category) list) list" where
  "two_symbols = [(CHR ''-'', Minus, [(CHR ''-'', MinusMinus), (CHR ''='', MinusEqual)]),
     (CHR ''+'', Plus, [(CHR ''+'', PlusPlus), (CHR ''='', PlusEqual)]),
     (CHR ''%'', Percent, [(CHR ''='', PercentEqual)]),
     (CHR ''/'', Slash, [(CHR ''='', SlashEqual)]),
     (CHR ''*'', Star, [(CHR ''*'', StarStar), (CHR ''='', StarEqual)]),
     (CHR ''&'', Ampersand, [(CHR ''&'', AmpersandAmpersand)]),
     (CHR ''|'', Pipe, [(CHR ''|'', PipePipe)]),
     (CHR ''!'', Bang, [(CHR ''='', BangEqual), (CHR ''~'', BangTilde)]),
     (CHR ''='', EqualSign, [(CHR ''='', EqualEqual), (CHR ''~'', EqualTilde)])]"

definition category_at :: "string \<Rightarrow> nat \<Rightarrow> char \<Rightarrow> cursor \<Rightarrow> cursor \<times> category" where
  "category_at code start x c = (case map_of one_symbol x of
      Some cat \<Rightarrow> (c, cat)
    | None \<Rightarrow>
     (if x = CHR ''#'' then (skip_while (\<lambda>y. y \<noteq> CHR 0x0A) c, Comment)
      else case map_of two_symbols x of
          Some (single, table) \<Rightarrow> two_symbol table single c
        | None \<Rightarrow>
            (if x = CHR ''>'' then tokenize_greater c
             else if x = CHR ''<'' then tokenize_less c
             else if x = CHR 0x22 then tokenize_string code c
             else if x = CHR 0x27 then tokenize_data code c
             else if base_verifier Base10 x then tokenize_number code start x c
             else if uni_alphabetic x \<or> x = CHR ''_'' then tokenize_identifier code start c
             else (c, UnknownSymbol))))"

definition tokenizer_next :: "string \<Rightarrow> cursor \<Rightarrow> cursor \<times> token option" where
  "tokenizer_next code c0 =
     (let c = skip_while uni_whitespace c0;
          start = len_consumed c
      in case advance c of
           (None, c1) \<Rightarrow> (c1, None)
         | (Some x, c1) \<Rightarrow> (case category_at code start x c1 of
               (c2, cat) \<Rightarrow> (c2, Some \<lparr>tok_category = cat, tok_line_column = line_column c, tok_position = (start, len_consumed c2)\<rparr>)))"

text \<open>What is left of a script after some characters have been read: cursors only move forward.\<close>

definition follows :: "cursor \<Rightarrow> cursor \<Rightarrow> bool" where
  "follows c c' = (suffix (cur_chars c') (cur_chars c) \<and> cur_initial_len c' = cur_initial_len c)"

lemma follows_refl [simp]: "follows c c"
  by (simp add: follows_def)

lemma follows_trans: "follows a b \<Longrightarrow> follows b c \<Longrightarrow> follows a c"
  by (auto simp: follows_def intro: suffix_order.trans)

lemma follows_advanced: "follows c (advanced c)"
  by (auto simp: follows_def advance_def suffix_def split: list.splits)

lemma follows_skip_state: "follows c (skip_state p s c)"
proof (induction p s c rule: skip_state.induct)
  case (1 p s c)
  obtain s' b where p: "p s (peek_char 0 c) = (s', b)" by (cases "p s (peek_char 0 c)") auto
  show ?case
  proof (cases "b \<and> \<not> is_eof c")
    case True
    have "follows c (skip_state p s' (advanced c))"
      by (rule follows_trans [OF follows_advanced 1 [OF p [symmetric] True]])
    then show ?thesis using True by (simp add: skip_state.simps [of p s c] p)
  next
    case False
    then show ?thesis by (simp only: skip_state.simps [of p s c] p prod.case if_False follows_refl)
  qed
qed

lemma follows_skip_while: "follows c (skip_while p c)"
  by (simp add: skip_while_def follows_skip_state)

lemma follows_advanced_right: "follows a b \<Longrightarrow> follows a (advanced b)"
  by (rule follows_trans [OF _ follows_advanced])

lemma follows_skip_while_right: "follows a b \<Longrightarrow> follows a (skip_while p b)"
  by (rule follows_trans [OF _ follows_skip_while])

lemmas follows_intros = follows_refl follows_advanced_right follows_skip_while_right follows_skip_state

lemma follows_two_symbol: "follows c (fst (two_symbol table single c))"
  by (simp add: two_symbol_def follows_intros split: option.splits)

lemma follows_tokenize_greater: "follows c (fst (tokenize_greater c))"
  by (simp add: tokenize_greater_def Let_def follows_intros)

lemma follows_tokenize_less: "follows c (fst (tokenize_less c))"
  by (simp add: tokenize_less_def Let_def follows_intros)

lemma follows_tokenize_string: "follows c (fst (tokenize_string code c))"
  by (simp add: tokenize_string_def Let_def follows_intros)

lemma follows_tokenize_data: "follows c (fst (tokenize_data code c))"
  by (simp add: tokenize_data_def Let_def follows_intros)

lemma follows_may_parse_ipv4: "follows c (fst (may_parse_ipv4 code b start c))"
  by (simp add: may_parse_ipv4_def Let_def follows_intros)

lemma follows_number_base: "follows c (fst (number_base start x c))"
  by (simp add: number_base_def Let_def follows_intros)

lemma follows_tokenize_number: "follows c (fst (tokenize_number code start x c))"
proof -
  obtain c1 start1 b where nb: "number_base start x c = (c1, start1, b)" by (cases "number_base start x c") auto
  have 1: "follows c c1" using follows_number_base [of c start x] by (simp add: nb)
  show ?thesis
  proof (cases b)
    case None
    with 1 nb show ?thesis by (simp add: tokenize_number_def)
  next
    case (Some b')
    have "follows c (fst (may_parse_ipv4 code b' start1 (skip_while (base_verifier b') c1)))"
      by (rule follows_trans [OF follows_skip_while_right [OF 1] follows_may_parse_ipv4])
    then show ?thesis using nb Some by (auto simp: tokenize_number_def split: prod.splits option.splits)
  qed
qed

lemma follows_tokenize_identifier: "follows c (fst (tokenize_identifier code start c))"
  by (simp add: tokenize_identifier_def Let_def follows_intros)

lemmas follows_parts = follows_refl follows_skip_while follows_two_symbol follows_tokenize_greater
  follows_tokenize_less follows_tokenize_string follows_tokenize_data follows_tokenize_number follows_tokenize_identifier

lemma follows_category_at: "follows c (fst (category_at code start x c))"
proof (cases "map_of one_symbol x")
  case None
  note 1 = None
  show ?thesis
  proof (cases "map_of two_symbols x")
    case None
    with 1 show ?thesis unfolding category_at_def by (simp only: option.case fst_conv follows_parts split: if_split) simp
  next
    case (Some e)
    with 1 show ?thesis unfolding category_at_def
      by (cases e) (simp only: option.case prod.case fst_conv follows_parts split: if_split, simp)
  qed
next
  case (Some cat)
  then show ?thesis by (simp add: category_at_def)
qed

lemma advance_cases:
  "advance c = (None, c) \<and> cur_chars c = [] \<or>
   (\<exists>x xs c'. advance c = (Some x, c') \<and> cur_chars c = x # xs \<and> cur_chars c' = xs \<and> cur_initial_len c' = cur_initial_len c)"
  by (cases "cur_chars c") (simp_all add: advance_def)

lemma tokenizer_next_follows:
  "follows c (fst (tokenizer_next code c)) \<and>
   (snd (tokenizer_next code c) \<noteq> None \<longrightarrow> length (cur_chars (fst (tokenizer_next code c))) < length (cur_chars c))"
proof -
  define d where "d = skip_while uni_whitespace c"
  have d: "follows c d" by (simp add: d_def follows_skip_while)
  from advance_cases [of d] show ?thesis
  proof (elim disjE exE conjE)
    assume "advance d = (None, d)"
    with d show ?thesis by (simp add: tokenizer_next_def Let_def d_def [symmetric])
  next
    fix x xs c'
    assume a: "advance d = (Some x, c')" "cur_chars d = x # xs" "cur_chars c' = xs"
    define e where "e = category_at code (len_consumed d) x c'"
    have e: "follows c' (fst e)" by (simp add: e_def follows_category_at)
    then have "length (cur_chars (fst e)) \<le> length xs" using a by (auto simp: follows_def dest: suffix_length_le)
    moreover have "length (cur_chars d) \<le> length (cur_chars c)" using d by (auto simp: follows_def dest: suffix_length_le)
    ultimately have "length (cur_chars (fst e)) < length (cur_chars c)" using a by simp
    moreover have "follows d c'" using follows_advanced [of d] a by simp
    ultimately show ?thesis using follows_trans [OF follows_trans [OF d] e] a
      by (simp add: tokenizer_next_def Let_def d_def [symmetric] e_def [symmetric] split: prod.split) auto
  qed
qed

text \<open>All tokens of a script: the iterator called until it returns \<^term>\<open>None\<close>.\<close>

function tokenize_from :: "string \<Rightarrow> cursor \<Rightarrow> token list" where
  "tokenize_from code c = (case tokenizer_next code c of
      (_, None) \<Rightarrow> []
    | (c', Some t) \<Rightarrow> t # tokenize_from code c')"
  by pat_completeness auto
termination
proof (relation "measure (\<lambda>(_, c). length (cur_chars c))", goal_cases)
  case (2 code c c' o' t)
  then have "tokenizer_next code c = (c', Some t)" by simp
  then show ?case using tokenizer_next_follows [of c code] by simp
qed simp

declare tokenize_from.simps [simp del]

definition tokenize :: "string \<Rightarrow> token list" where
  "tokenize code = tokenize_from code (cursor_new code)"

subsection \<open>Tokens cover the script\<close>

lemma byte_len_simps [simp]: "byte_len [] = 0" "byte_len (c # s) = len_utf8 c + byte_len s" "byte_len (s @ t) = byte_len s + byte_len t"
  by (simp_all add: byte_len_def)

lemma len_utf8_pos [simp]: "0 < len_utf8 c"
  by (simp add: len_utf8_def)

lemma byte_len_0 [simp]: "byte_len s = 0 \<longleftrightarrow> s = []"
  by (cases s) auto

lemma byte_len_pos [simp]: "0 < byte_len s \<longleftrightarrow> s \<noteq> []"
  by (simp flip: neq0_conv)

lemma byte_drop_app: "byte_drop (byte_len s) (s @ t) = t"
proof (induction s)
  case Nil
  then show ?case by (cases t) auto
qed auto

lemma byte_take_app: "byte_take (byte_len s) (s @ t) = s"
proof (induction s)
  case Nil
  then show ?case by (cases t) auto
qed auto

lemma byte_slice_mid: "byte_slice (byte_len pre) (byte_len pre + byte_len mid) (pre @ mid @ post) = mid"
  by (simp add: byte_slice_def byte_drop_app byte_take_app)

text \<open>A cursor somewhere in a script.\<close>

definition cursor_at :: "string \<Rightarrow> string \<Rightarrow> cursor \<Rightarrow> bool" where
  "cursor_at code pre c = (code = pre @ cur_chars c \<and> cur_initial_len c = byte_len code)"

lemma cursor_at_new: "cursor_at code [] (cursor_new code)"
  by (simp add: cursor_at_def cursor_new_def)

lemma cursor_at_len_consumed: "cursor_at code pre c \<Longrightarrow> len_consumed c = byte_len pre"
  by (simp add: cursor_at_def len_consumed_def)

lemma cursor_at_follows:
  assumes "cursor_at code pre c" "follows c c'"
  obtains mid where "cur_chars c = mid @ cur_chars c'" "cursor_at code (pre @ mid) c'"
    "byte_slice (len_consumed c) (len_consumed c') code = mid"
proof -
  from assms obtain mid where mid: "cur_chars c = mid @ cur_chars c'" by (auto simp: follows_def suffix_def)
  with assms have at: "cursor_at code (pre @ mid) c'" by (auto simp: cursor_at_def follows_def)
  have "byte_slice (len_consumed c) (len_consumed c') code = mid"
    using cursor_at_len_consumed [OF assms(1)] cursor_at_len_consumed [OF at] byte_slice_mid [of pre mid "cur_chars c'"] at
    by (simp add: cursor_at_def)
  with mid at show ?thesis by (rule that)
qed

lemma skip_while_skips: "\<exists>mid. cur_chars c = mid @ cur_chars (skip_while p c) \<and> list_all p mid"
proof (induction "length (cur_chars c)" arbitrary: c rule: less_induct)
  case less
  show ?case
  proof (cases "p (peek_char 0 c) \<and> \<not> is_eof c")
    case True
    then obtain x xs where x: "cur_chars c = x # xs" "p x" by (auto simp: is_eof_def peek_char_def neq_Nil_conv)
    then have a: "cur_chars (advanced c) = xs" by (simp add: advance_def)
    with less [of "advanced c"] x obtain mid where
      "xs = mid @ cur_chars (skip_while p (advanced c))" "list_all p mid" by auto
    then have "cur_chars c = (x # mid) @ cur_chars (skip_while p c) \<and> list_all p (x # mid)"
      using x True by (simp add: skip_while_def skip_state.simps [of _ _ c])
    then show ?thesis by blast
  next
    case False
    then have "skip_while p c = c" by (auto simp: skip_while_def skip_state.simps [of _ _ c])
    then show ?thesis by simp
  qed
qed

text \<open>The script put together again from the texts of its tokens and the texts between them.\<close>

fun rebuild :: "string \<Rightarrow> nat \<Rightarrow> token list \<Rightarrow> string" where
  "rebuild code pos [] = byte_drop pos code"
| "rebuild code pos (t # ts) = byte_slice pos (fst (tok_position t)) code @
     byte_slice (fst (tok_position t)) (snd (tok_position t)) code @ rebuild code (snd (tok_position t)) ts"

fun between_whitespace :: "string \<Rightarrow> nat \<Rightarrow> token list \<Rightarrow> bool" where
  "between_whitespace code pos [] = list_all uni_whitespace (byte_drop pos code)"
| "between_whitespace code pos (t # ts) = (pos \<le> fst (tok_position t) \<and> fst (tok_position t) < snd (tok_position t) \<and>
     list_all uni_whitespace (byte_slice pos (fst (tok_position t)) code) \<and> between_whitespace code (snd (tok_position t)) ts)"

lemma tokenizer_next_None:
  assumes "tokenizer_next code c = (c', None)"
  shows "list_all uni_whitespace (cur_chars c)"
  using assms skip_while_skips [of c uni_whitespace] advance_cases [of "skip_while uni_whitespace c"]
  by (auto simp: tokenizer_next_def Let_def split: prod.splits)

lemma tokenizer_next_Some:
  assumes at: "cursor_at code pre c" and n: "tokenizer_next code c = (c', Some t)"
  obtains gap tx where "cur_chars c = gap @ tx @ cur_chars c'" "list_all uni_whitespace gap" "tx \<noteq> []"
    "tok_position t = (byte_len (pre @ gap), byte_len (pre @ gap @ tx))" "cursor_at code (pre @ gap @ tx) c'"
proof -
  define d where "d = skip_while uni_whitespace c"
  from skip_while_skips [of c uni_whitespace] obtain gap where
    gap: "cur_chars c = gap @ cur_chars d" "list_all uni_whitespace gap" by (auto simp: d_def)
  then have atd: "cursor_at code (pre @ gap) d"
    using at follows_skip_while [of c uni_whitespace] by (auto simp: cursor_at_def follows_def d_def)
  from n obtain x d' where x: "advance d = (Some x, d')"
    by (auto simp: tokenizer_next_def Let_def d_def [symmetric] split: prod.splits option.splits)
  with advance_cases [of d] have d': "cur_chars d = x # cur_chars d'" "cur_initial_len d' = cur_initial_len d" by auto
  define e where "e = category_at code (len_consumed d) x d'"
  from n x have e: "c' = fst e" "tok_position t = (len_consumed d, len_consumed c')"
    by (auto simp: tokenizer_next_def Let_def d_def [symmetric] e_def split: prod.splits)
  have "follows d' c'" by (simp add: e(1) e_def follows_category_at)
  moreover have "cursor_at code (pre @ gap @ [x]) d'" using atd d' by (simp add: cursor_at_def)
  ultimately obtain mid where mid: "cur_chars d' = mid @ cur_chars c'" "cursor_at code ((pre @ gap @ [x]) @ mid) c'"
    by (auto elim: cursor_at_follows)
  show ?thesis
    by (rule that [of gap "x # mid"])
      (use gap d' mid e(2) cursor_at_len_consumed [OF atd] cursor_at_len_consumed [OF mid(2)] in simp_all)
qed

lemma tokenize_from_covers:
  assumes "cursor_at code pre c"
  shows "rebuild code (byte_len pre) (tokenize_from code c) = cur_chars c \<and>
    between_whitespace code (byte_len pre) (tokenize_from code c)"
  using assms
proof (induction "length (cur_chars c)" arbitrary: c pre rule: less_induct)
  case less
  have code: "code = pre @ cur_chars c" using less.prems by (simp add: cursor_at_def)
  obtain c' o' where n: "tokenizer_next code c = (c', o')" by (cases "tokenizer_next code c")
  show ?case
  proof (cases o')
    case None
    then show ?thesis using n tokenizer_next_None [of code c c'] byte_drop_app [of pre "cur_chars c"]
      by (simp add: tokenize_from.simps [of code c] code [symmetric])
  next
    case (Some t)
    with n less.prems obtain gap tx where t: "cur_chars c = gap @ tx @ cur_chars c'" "list_all uni_whitespace gap" "tx \<noteq> []"
      "tok_position t = (byte_len (pre @ gap), byte_len (pre @ gap @ tx))" "cursor_at code (pre @ gap @ tx) c'"
      by (blast elim: tokenizer_next_Some)
    have "length (cur_chars c') < length (cur_chars c)" using t by simp
    note ih = less.hyps [OF this t(5)]
    have "byte_slice (byte_len pre) (byte_len pre + byte_len gap) code = gap"
      "byte_slice (byte_len (pre @ gap)) (byte_len (pre @ gap) + byte_len tx) code = tx"
      using byte_slice_mid [of pre gap "tx @ cur_chars c'"] byte_slice_mid [of "pre @ gap" tx "cur_chars c'"] t(1)
      by (simp_all add: code)
    then show ?thesis using n Some t ih by (simp add: tokenize_from.simps [of code c] add.assoc)
  qed
qed

text \<open>C14: The tokens of a script come in its order and do not overlap, everything between them is white space, and
  their texts and the white space between them are the script: no character is lost.\<close>

theorem tokens_cover_script:
  "rebuild code 0 (tokenize code) = code \<and> between_whitespace code 0 (tokenize code)"
  using tokenize_from_covers [OF cursor_at_new [of code]] by (simp add: tokenize_def cursor_new_def)

end
