(* ===== verification/Nasl_Statement.thy ===== *)
theory Nasl_Statement
  imports Nasl_Token
begin

section \<open>Statements of NASL\<close>

text \<open>
  \<^verbatim>\<open>rust/src/nasl/syntax/statement.rs\<close>, \<^verbatim>\<open>operation.rs\<close> and \<^verbatim>\<open>error.rs\<close>: statements with the tokens they start and
  end with, what may be asked of a statement, the operation a token stands for, and syntax errors. The line and
  the file of the Rust source that a \<^verbatim>\<open>SyntaxError\<close> records are left out.
\<close>

subsection \<open>Statements\<close>

datatype assign_order = AssignReturn | ReturnAssign

datatype (plugins only: code size) statement =
    Statement (stmt_kind: statement_kind) (stmt_start: token) (stmt_end_token: "token option")
and statement_kind =
    SPrimitive | SAttackCategory | SVariable | SArray "statement option" | SCall statement | SExit statement
  | SReturn statement | SBreak | SContinue | SInclude statement | SDeclare "statement list" | SParameter "statement list"
  | SNamedParameter statement | SAssign category assign_order statement statement | SOperator category "statement list"
  | SIf statement statement "token option" "statement option" | SFor statement statement statement statement
  | SWhile statement statement | SRepeat statement statement | SForEach token statement statement
  | SBlock "statement list" | SFunctionDeclaration token statement statement | SNoOp | SEoF

abbreviation with_start_token :: "token \<Rightarrow> statement_kind \<Rightarrow> statement" where
  "with_start_token t k \<equiv> Statement k t None"

abbreviation with_start_end_token :: "token \<Rightarrow> token \<Rightarrow> statement_kind \<Rightarrow> statement" where
  "with_start_end_token s e k \<equiv> Statement k s (Some e)"

definition without_token :: "statement_kind \<Rightarrow> statement" where
  "without_token k = Statement k token_default None"

definition stmt_end :: "statement \<Rightarrow> token" where
  "stmt_end s = (case stmt_end_token s of Some t \<Rightarrow> t | None \<Rightarrow> stmt_start s)"

definition set_end :: "token \<Rightarrow> statement \<Rightarrow> statement" where
  "set_end t s = Statement (stmt_kind s) (stmt_start s) (Some t)"

definition stmt_position :: "statement \<Rightarrow> nat \<times> nat" where
  "stmt_position s = (fst (tok_position (stmt_start s)), case stmt_end_token s of
      Some t \<Rightarrow> snd (tok_position t)
    | None \<Rightarrow> snd (tok_position (stmt_start s)))"

definition is_returnable :: "statement_kind \<Rightarrow> bool" where
  "is_returnable k = (case k of
      SPrimitive \<Rightarrow> True | SVariable \<Rightarrow> True | SCall _ \<Rightarrow> True | SReturn _ \<Rightarrow> True | SAssign _ _ _ _ \<Rightarrow> True
    | SArray _ \<Rightarrow> True | SOperator _ _ \<Rightarrow> True | _ \<Rightarrow> False)"

text \<open>The statements inside a statement, in the order in which the code visits them.\<close>

primrec parts :: "statement_kind \<Rightarrow> statement list" where
  "parts SPrimitive = []"
| "parts SAttackCategory = []"
| "parts SVariable = []"
| "parts (SArray e) = (case e of None \<Rightarrow> [] | Some x \<Rightarrow> [x])"
| "parts (SCall x) = [x]"
| "parts (SExit x) = [x]"
| "parts (SReturn x) = [x]"
| "parts SBreak = []"
| "parts SContinue = []"
| "parts (SInclude x) = [x]"
| "parts (SDeclare xs) = xs"
| "parts (SParameter xs) = xs"
| "parts (SNamedParameter x) = [x]"
| "parts (SAssign _ _ x y) = [x, y]"
| "parts (SOperator _ xs) = xs"
| "parts (SIf r x _ z) = r # x # (case z of None \<Rightarrow> [] | Some z' \<Rightarrow> [z'])"
| "parts (SFor r x y z) = [r, x, y, z]"
| "parts (SWhile x y) = [x, y]"
| "parts (SRepeat x y) = [x, y]"
| "parts (SForEach _ y z) = [y, z]"
| "parts (SBlock xs) = xs"
| "parts (SFunctionDeclaration _ y w) = [y, w]"
| "parts SNoOp = []"
| "parts SEoF = []"

lemma parts_smaller: "x \<in> set (parts k) \<Longrightarrow> size x < size k"
  by (cases k) (auto split: option.splits dest: size_list_estimation' [where f = size] simp: less_Suc_eq_le
      elim!: size_list_estimation' [OF _ order_refl])

lemma size_kind: "size (stmt_kind s) < size s"
  by (cases s) simp

lemma parts_size [termination_simp]: "x \<in> set (parts (stmt_kind s)) \<Longrightarrow> size x < size s"
  using parts_smaller [of x "stmt_kind s"] size_kind [of s] by simp

text \<open>The tokens a statement holds besides those of the statements inside it: \<^verbatim>\<open>else\<close> of a condition, the variable
  of a \<^verbatim>\<open>foreach\<close>, the name of a function.\<close>

fun as_tokens :: "statement \<Rightarrow> token list" where
  "as_tokens s = [stmt_start s] @
     (case stmt_kind s of
        SIf r x y z \<Rightarrow> as_tokens r @ as_tokens x @ (case y of Some t \<Rightarrow> [t] | None \<Rightarrow> []) @
          (case z of Some z' \<Rightarrow> as_tokens z' | None \<Rightarrow> [])
      | SForEach v y z \<Rightarrow> v # concat (map as_tokens (parts (stmt_kind s)))
      | SFunctionDeclaration n y w \<Rightarrow> n # concat (map as_tokens (parts (stmt_kind s)))
      | k \<Rightarrow> concat (map as_tokens (parts (stmt_kind s)))) @
     (case stmt_end_token s of Some t \<Rightarrow> [t] | None \<Rightarrow> [])"

fun children :: "statement \<Rightarrow> statement list" where
  "children (Statement k st en) = (case k of
      SCall x \<Rightarrow> children x
    | SFunctionDeclaration _ x _ \<Rightarrow> children x
    | SBlock xs \<Rightarrow> xs
    | SOperator _ xs \<Rightarrow> xs
    | SParameter xs \<Rightarrow> xs
    | SDeclare xs \<Rightarrow> xs
    | _ \<Rightarrow> [])"

fun find_stmts :: "(statement \<Rightarrow> bool) \<Rightarrow> statement \<Rightarrow> statement list" where
  "find_stmts wanted s = (if wanted s then [s] else concat (map (find_stmts wanted) (parts (stmt_kind s))))"

definition as_str_list :: "string list \<Rightarrow> string" where
  "as_str_list xs = str_join '', '' xs"

definition act_debug :: "act \<Rightarrow> string" where
  "act_debug a = (case a of
      Init \<Rightarrow> ''Init'' | Scanner \<Rightarrow> ''Scanner'' | Settings \<Rightarrow> ''Settings'' | GatherInfo \<Rightarrow> ''GatherInfo''
    | Attack \<Rightarrow> ''Attack'' | MixedAttack \<Rightarrow> ''MixedAttack'' | DestructiveAttack \<Rightarrow> ''DestructiveAttack''
    | Denial \<Rightarrow> ''Denial'' | KillHost \<Rightarrow> ''KillHost'' | Flood \<Rightarrow> ''Flood'' | End \<Rightarrow> ''End'')"

definition pair_debug :: "nat \<times> nat \<Rightarrow> string" where
  "pair_debug p = ''('' @ show_nat (fst p) @ '', '' @ show_nat (snd p) @ '')''"

text \<open>The derived \<^verbatim>\<open>Debug\<close> form of the token of an attack category.\<close>

definition act_token_debug :: "token \<Rightarrow> string" where
  "act_token_debug t = ''Token { category: '' @
     (case tok_category t of Identifier (KwACT a) \<Rightarrow> ''Identifier(ACT('' @ act_debug a @ ''))'' | c \<Rightarrow> category_display c) @
     '', line_column: '' @ pair_debug (tok_line_column t) @ '', position: '' @ pair_debug (tok_position t) @ '' }''"

fun stmt_display :: "statement \<Rightarrow> string" where
  "stmt_display (Statement k x en) = (case k of
      SPrimitive \<Rightarrow> category_display (tok_category x)
    | SAttackCategory \<Rightarrow> act_token_debug x
    | SVariable \<Rightarrow> category_display (tok_category x)
    | SArray e \<Rightarrow> category_display (tok_category x) @ (case e of Some e' \<Rightarrow> ''['' @ stmt_display e' @ '']'' | None \<Rightarrow> [])
    | SCall args \<Rightarrow> category_display (tok_category x) @ stmt_display args @ '';''
    | SExit y \<Rightarrow> ''exit('' @ stmt_display y @ '');''
    | SReturn y \<Rightarrow> ''return '' @ stmt_display y @ '';''
    | SInclude y \<Rightarrow> ''include('' @ stmt_display y @ '');''
    | SDeclare ys \<Rightarrow> token_display x @ '' '' @ as_str_list (map stmt_display ys)
    | SParameter ys \<Rightarrow> ''('' @ as_str_list (map stmt_display ys) @ '')''
    | SNamedParameter y \<Rightarrow> category_display (tok_category x) @ '': '' @ stmt_display y
    | SAssign c o' l r \<Rightarrow> (case (o', stmt_kind r) of
          (AssignReturn, SNoOp) \<Rightarrow> category_display c @ stmt_display l
        | (ReturnAssign, SNoOp) \<Rightarrow> stmt_display l @ category_display c
        | _ \<Rightarrow> stmt_display l @ '' '' @ category_display c @ '' '' @ stmt_display r)
    | SOperator c args \<Rightarrow> (case map stmt_display args of
          [l, r] \<Rightarrow> l @ '' '' @ category_display c @ '' '' @ r
        | [l] \<Rightarrow> category_display c @ l
        | ds \<Rightarrow> ''('' @ category_display c @ '' ('' @ as_str_list ds @ ''))'')
    | SIf c y _ e \<Rightarrow> ''if ('' @ stmt_display c @ '') '' @ stmt_display y @
        (case e of Some e' \<Rightarrow> '' else '' @ stmt_display e' | None \<Rightarrow> [])
    | SFor i c u e \<Rightarrow> ''for ('' @ stmt_display i @ ''; '' @ stmt_display c @ ''; '' @ stmt_display u @ '') { '' @ stmt_display e @ '' }''
    | SWhile c e \<Rightarrow> ''while ('' @ stmt_display c @ '') {'' @ stmt_display e @ ''}''
    | SRepeat e c \<Rightarrow> ''repeat '' @ stmt_display e @ '' until '' @ stmt_display c
    | SForEach v a e \<Rightarrow> ''foreach '' @ category_display (tok_category v) @ ''('' @ stmt_display a @ '') {'' @ stmt_display e @ ''}''
    | SBlock _ \<Rightarrow> ''{ ... }''
    | SFunctionDeclaration n p _ \<Rightarrow> ''function '' @ category_display (tok_category n) @ ''('' @ stmt_display p @ '') { ... }''
    | SNoOp \<Rightarrow> ''NoOp''
    | SEoF \<Rightarrow> ''EoF''
    | SBreak \<Rightarrow> ''break''
    | SContinue \<Rightarrow> ''continue'')"

declare as_tokens.simps [simp del] find_stmts.simps [simp del] stmt_display.simps [simp del]

subsection \<open>Syntax errors\<close>

datatype syntax_error =
    UnexpectedToken token
  | UnclosedToken token
  | UnexpectedStatement statement
  | MissingSemicolon statement
  | UnclosedStatement statement
  | MaxRecursionDepth "8 word"
  | SyntaxEoF
  | SyntaxIOError string

definition error_as_token :: "syntax_error \<Rightarrow> token option" where
  "error_as_token e = (case e of
      UnexpectedToken t \<Rightarrow> Some t
    | UnclosedToken t \<Rightarrow> Some t
    | UnexpectedStatement s \<Rightarrow> Some (stmt_start s)
    | MissingSemicolon s \<Rightarrow> Some (stmt_start s)
    | UnclosedStatement s \<Rightarrow> Some (stmt_start s)
    | MaxRecursionDepth _ \<Rightarrow> None
    | SyntaxEoF \<Rightarrow> None
    | SyntaxIOError _ \<Rightarrow> None)"

definition syntax_error_display :: "syntax_error \<Rightarrow> string" where
  "syntax_error_display e = (case e of
      UnexpectedToken t \<Rightarrow> ''Unexpected token: '' @ token_display t
    | UnclosedToken t \<Rightarrow> ''Unclosed token: '' @ token_display t
    | UnexpectedStatement s \<Rightarrow> ''Unexpected statement: '' @ stmt_display s
    | MissingSemicolon s \<Rightarrow> ''Missing semicolon: '' @ stmt_display s
    | UnclosedStatement s \<Rightarrow> ''Unclosed statement: '' @ stmt_display s
    | MaxRecursionDepth d \<Rightarrow> ''Maximal recursion depth of '' @ show_nat (unat d) @ '' reached, the NASL script is too complex.''
    | SyntaxEoF \<Rightarrow> ''Unexpected end of file.''
    | SyntaxIOError k \<Rightarrow> ''IOError: '' @ k)"

text \<open>\<^verbatim>\<open>unexpected_statement!\<close> makes a \<^verbatim>\<open>MissingSemicolon\<close>.\<close>

definition unexpected_statement :: "statement \<Rightarrow> syntax_error" where
  "unexpected_statement s = MissingSemicolon s"

definition as_returnable_or_err :: "statement \<Rightarrow> syntax_error + statement" where
  "as_returnable_or_err s = (if is_returnable (stmt_kind s) then Inr s else Inl (unexpected_statement s))"

subsection \<open>Operations\<close>

datatype (plugins only: code size) operation =
    OpOperator category | OpAssign category | OpGrouping category | OpVariable | OpPrimitive | OpKeyword identifier_type | OpNoOp

definition operator_categories :: "category list" where
  "operator_categories = [Plus, Star, Slash, Minus, Percent, LessLess, GreaterGreater, GreaterGreaterGreater, Tilde, Ampersand,
     Pipe, Caret, Bang, EqualTilde, BangTilde, GreaterLess, GreaterBangLess, AmpersandAmpersand, PipePipe, EqualEqual,
     BangEqual, GreaterSign, LessSign, GreaterEqual, LessEqual, TimesX, StarStar]"

definition assign_categories :: "category list" where
  "assign_categories = [EqualSign, MinusEqual, PlusEqual, SlashEqual, StarEqual, GreaterGreaterEqual, LessLessEqual,
     GreaterGreaterGreaterEqual, PlusPlus, Semicolon, DoublePoint, PercentEqual, MinusMinus]"

definition operation_new :: "token \<Rightarrow> operation option" where
  "operation_new t =
     (let c = tok_category t in
      if c \<in> set operator_categories then Some (OpOperator c)
      else if c \<in> set assign_categories then Some (OpAssign c)
      else case c of
          StringLit _ \<Rightarrow> Some OpPrimitive
        | DataLit _ \<Rightarrow> Some OpPrimitive
        | NumberLit _ \<Rightarrow> Some OpPrimitive
        | IPv4Address _ \<Rightarrow> Some OpPrimitive
        | LeftParen \<Rightarrow> Some (OpGrouping c)
        | LeftBrace \<Rightarrow> Some (OpGrouping c)
        | LeftCurlyBracket \<Rightarrow> Some (OpGrouping c)
        | Comma \<Rightarrow> Some (OpGrouping c)
        | Identifier (Undefined _) \<Rightarrow> Some OpVariable
        | Identifier k \<Rightarrow> Some (OpKeyword k)
        | Comment \<Rightarrow> Some OpNoOp
        | _ \<Rightarrow> None)"

end
