(* ===== verification/Nasl_Value.thy ===== *)
theory Nasl_Value
  imports Nasl_Statement
begin

section \<open>Values of NASL\<close>

text \<open>
  \<^verbatim>\<open>rust/src/nasl/syntax/naslvalue.rs\<close>: the values of the interpreter and their conversions to texts, bytes,
  numbers and truth values. A dictionary is the list of its entries, in the order in which they are iterated.
\<close>

datatype (plugins only: code size) nasl_value =
    NString string | NData "8 word list" | NNumber "64 word" | NArray "nasl_value list" | NDict "(string \<times> nasl_value) list"
  | NBoolean bool | NAttackCategory act | NNull | NReturn nasl_value | NFork "nasl_value list" | NContinue | NBreak
  | NExit "64 word"

lemma dict_value_smaller [termination_simp]: "(k, v) \<in> set x \<Longrightarrow> size v < Suc (size_list (size_prod (\<lambda>x. 0) size) x)"
  by (induction x) auto

subsection \<open>Conversions\<close>

fun as_primitive :: "nasl_value \<Rightarrow> primitive" where
  "as_primitive (NString s) = PString s"
| "as_primitive (NData x) = PData x"
| "as_primitive (NNumber x) = PNumber x"
| "as_primitive (NArray x) = PArray (map as_primitive x)"
| "as_primitive (NDict x) = PDict (map (\<lambda>(k, v). (k, as_primitive v)) x)"
| "as_primitive (NBoolean x) = PBoolean x"
| "as_primitive _ = PNull"

fun from_primitive :: "primitive \<Rightarrow> nasl_value" where
  "from_primitive (PString x) = NString x"
| "from_primitive (PData x) = NData x"
| "from_primitive (PNumber x) = NNumber x"
| "from_primitive (PArray x) = NArray (map from_primitive x)"
| "from_primitive (PDict x) = NDict (map (\<lambda>(k, v). (k, from_primitive v)) x)"
| "from_primitive (PBoolean x) = NBoolean x"
| "from_primitive PNull = NNull"

text \<open>The derived \<^verbatim>\<open>Debug\<close> form, which the text of a returned value shows.\<close>

definition hex_char :: "nat \<Rightarrow> char" where
  "hex_char n = (if n < 10 then char_of (48 + n) else char_of (87 + n))"

definition escape_debug :: "char \<Rightarrow> string" where
  "escape_debug c =
     (let n = code_of c in
      if n = 0 then [CHR 0x5C, CHR ''0'']
      else if n = 9 then [CHR 0x5C, CHR ''t'']
      else if n = 13 then [CHR 0x5C, CHR ''r'']
      else if n = 10 then [CHR 0x5C, CHR ''n'']
      else if c = CHR 0x22 \<or> c = CHR 0x5C then [CHR 0x5C, c]
      else if n < 32 \<or> 127 \<le> n \<and> n \<le> 160 \<or> n = 173 then
        [CHR 0x5C] @ ''u{'' @ (if n < 16 then [hex_char n] else [hex_char (n div 16), hex_char (n mod 16)]) @ ''}''
      else [c])"

definition str_debug :: "string \<Rightarrow> string" where
  "str_debug s = [CHR 0x22] @ concat (map escape_debug s) @ [CHR 0x22]"

fun value_debug :: "nasl_value \<Rightarrow> string" where
  "value_debug (NString x) = ''String('' @ str_debug x @ '')''"
| "value_debug (NData x) = ''Data(['' @ str_join '', '' (map (\<lambda>b. show_nat (unat b)) x) @ ''])''"
| "value_debug (NNumber x) = ''Number('' @ show_i64 x @ '')''"
| "value_debug (NArray x) = ''Array(['' @ str_join '', '' (map value_debug x) @ ''])''"
| "value_debug (NDict x) = ''Dict({'' @ str_join '', '' (map (\<lambda>(k, v). str_debug k @ '': '' @ value_debug v) x) @ ''})''"
| "value_debug (NBoolean x) = (if x then ''Boolean(true)'' else ''Boolean(false)'')"
| "value_debug (NAttackCategory x) = ''AttackCategory('' @ act_debug x @ '')''"
| "value_debug NNull = ''Null''"
| "value_debug (NReturn x) = ''Return('' @ value_debug x @ '')''"
| "value_debug (NFork x) = ''Fork(['' @ str_join '', '' (map value_debug x) @ ''])''"
| "value_debug NContinue = ''Continue''"
| "value_debug NBreak = ''Break''"
| "value_debug (NExit x) = ''Exit('' @ show_i64 x @ '')''"

fun value_display :: "nasl_value \<Rightarrow> string" where
  "value_display (NString x) = x"
| "value_display (NNumber x) = show_i64 x"
| "value_display (NArray x) = str_join '','' (map (\<lambda>(i, s). show_nat i @ '': '' @ s) (enumerate 0 (map value_display x)))"
| "value_display (NData x) = map (\<lambda>b. char_of (unat b)) x"
| "value_display (NDict x) = str_join '','' (map (\<lambda>(k, v). k @ '': '' @ value_display v) x)"
| "value_display (NBoolean x) = (if x then ''1'' else ''0'')"
| "value_display NNull = [CHR 0x00]"
| "value_display (NExit rc) = ''exit('' @ show_i64 rc @ '')''"
| "value_display (NAttackCategory c) = identifier_display (KwACT c)"
| "value_display (NReturn rc) = ''return('' @ value_debug rc @ '')''"
| "value_display NContinue = ''continue''"
| "value_display NBreak = ''break''"
| "value_display (NFork x) = ''Creates '' @ show_nat (length x) @ '' runs, for '' @ str_join '','' (map value_display x)"

text \<open>\<^verbatim>\<open>From<&NaslValue> for Vec<u8>\<close>, which the order of values uses, and \<^verbatim>\<open>From<NaslValue> for Vec<u8>\<close>.\<close>

definition value_bytes :: "nasl_value \<Rightarrow> 8 word list" where
  "value_bytes v = (case v of
      NString x \<Rightarrow> as_bytes x
    | NNumber x \<Rightarrow> to_ne_bytes x
    | NData x \<Rightarrow> x
    | _ \<Rightarrow> [])"

definition value_into_bytes :: "nasl_value \<Rightarrow> 8 word list" where
  "value_into_bytes v = (case v of
      NString x \<Rightarrow> as_bytes x
    | NData x \<Rightarrow> x
    | NArray x \<Rightarrow> concat (map value_bytes x)
    | NBoolean _ \<Rightarrow> as_bytes (value_display v)
    | NNumber _ \<Rightarrow> as_bytes (value_display v)
    | NDict _ \<Rightarrow> as_bytes (value_display v)
    | _ \<Rightarrow> [])"

definition value_cmp :: "nasl_value \<Rightarrow> nasl_value \<Rightarrow> ordering" where
  "value_cmp a b = list_cmp (map unat (value_bytes a)) (map unat (value_bytes b))"

definition value_bool :: "nasl_value \<Rightarrow> bool" where
  "value_bool v = (case v of
      NString s \<Rightarrow> s \<noteq> [] \<and> s \<noteq> ''0''
    | NArray x \<Rightarrow> x \<noteq> []
    | NData x \<Rightarrow> x \<noteq> []
    | NBoolean b \<Rightarrow> b
    | NNull \<Rightarrow> False
    | NNumber n \<Rightarrow> n \<noteq> 0
    | NExit n \<Rightarrow> n \<noteq> 0
    | NAttackCategory _ \<Rightarrow> True
    | NDict x \<Rightarrow> x \<noteq> []
    | NReturn _ \<Rightarrow> True
    | NContinue \<Rightarrow> False
    | NBreak \<Rightarrow> False
    | NFork x \<Rightarrow> x = [])"

definition act_number :: "act \<Rightarrow> 64 word" where
  "act_number a = (case a of Init \<Rightarrow> 0 | Scanner \<Rightarrow> 1 | Settings \<Rightarrow> 2 | GatherInfo \<Rightarrow> 3 | Attack \<Rightarrow> 4 | MixedAttack \<Rightarrow> 5
     | DestructiveAttack \<Rightarrow> 6 | Denial \<Rightarrow> 7 | KillHost \<Rightarrow> 8 | Flood \<Rightarrow> 9 | End \<Rightarrow> 10)"

definition value_i64 :: "nasl_value \<Rightarrow> 64 word" where
  "value_i64 v = (case v of
      NString _ \<Rightarrow> 1
    | NNumber x \<Rightarrow> x
    | NArray _ \<Rightarrow> 1
    | NData _ \<Rightarrow> 1
    | NDict _ \<Rightarrow> 1
    | NBoolean x \<Rightarrow> (if x then 1 else 0)
    | NAttackCategory x \<Rightarrow> act_number x
    | NNull \<Rightarrow> 0
    | NExit x \<Rightarrow> x
    | NReturn _ \<Rightarrow> -1
    | NContinue \<Rightarrow> 0
    | NBreak \<Rightarrow> 0
    | NFork _ \<Rightarrow> 1)"

definition value_of_token :: "token \<Rightarrow> category + nasl_value" where
  "value_of_token t = (case tok_category t of
      StringLit x \<Rightarrow> Inr (NString x)
    | IPv4Address x \<Rightarrow> Inr (NString x)
    | DataLit x \<Rightarrow> Inr (NData x)
    | Identifier (Undefined x) \<Rightarrow> Inr (NString x)
    | NumberLit n \<Rightarrow> Inr (NNumber n)
    | Identifier KwNull \<Rightarrow> Inr NNull
    | Identifier KwTrue \<Rightarrow> Inr (NBoolean True)
    | Identifier KwFalse \<Rightarrow> Inr (NBoolean False)
    | c \<Rightarrow> Inl c)"

text \<open>The elements a \<^verbatim>\<open>foreach\<close> goes through.\<close>

definition value_elements :: "nasl_value \<Rightarrow> nasl_value list" where
  "value_elements v = (case v of
      NArray x \<Rightarrow> x
    | NDict x \<Rightarrow> map snd x
    | NBoolean _ \<Rightarrow> [v]
    | NNumber _ \<Rightarrow> [v]
    | NData x \<Rightarrow> map (\<lambda>b. NData [b]) x
    | NString s \<Rightarrow> map (\<lambda>c. NString [c]) s
    | _ \<Rightarrow> [])"

text \<open>Equality of values: dictionaries are equal when they map the same keys to equal values.\<close>

fun value_eq :: "nasl_value \<Rightarrow> nasl_value \<Rightarrow> bool" where
  "value_eq (NArray x) w = (case w of NArray y \<Rightarrow> list_all2 value_eq x y | _ \<Rightarrow> False)"
| "value_eq (NDict x) w = (case w of
      NDict y \<Rightarrow> length x = length y \<and> list_all (\<lambda>(k, a). case map_of y k of Some b \<Rightarrow> value_eq a b | None \<Rightarrow> False) x
    | _ \<Rightarrow> False)"
| "value_eq (NReturn x) w = (case w of NReturn y \<Rightarrow> value_eq x y | _ \<Rightarrow> False)"
| "value_eq (NFork x) w = (case w of NFork y \<Rightarrow> list_all2 value_eq x y | _ \<Rightarrow> False)"
| "value_eq (NString x) w = (case w of NString y \<Rightarrow> x = y | _ \<Rightarrow> False)"
| "value_eq (NData x) w = (case w of NData y \<Rightarrow> x = y | _ \<Rightarrow> False)"
| "value_eq (NNumber x) w = (case w of NNumber y \<Rightarrow> x = y | _ \<Rightarrow> False)"
| "value_eq (NBoolean x) w = (case w of NBoolean y \<Rightarrow> x = y | _ \<Rightarrow> False)"
| "value_eq (NAttackCategory x) w = (case w of NAttackCategory y \<Rightarrow> x = y | _ \<Rightarrow> False)"
| "value_eq (NExit x) w = (case w of NExit y \<Rightarrow> x = y | _ \<Rightarrow> False)"
| "value_eq NNull w = (case w of NNull \<Rightarrow> True | _ \<Rightarrow> False)"
| "value_eq NContinue w = (case w of NContinue \<Rightarrow> True | _ \<Rightarrow> False)"
| "value_eq NBreak w = (case w of NBreak \<Rightarrow> True | _ \<Rightarrow> False)"

subsection \<open>Values and primitives\<close>

text \<open>Values that have a primitive: those that do not steer the interpreter, and attack categories are not among them.\<close>

fun storable :: "nasl_value \<Rightarrow> bool" where
  "storable (NArray x) = list_all storable x"
| "storable (NDict x) = list_all (\<lambda>(_, v). storable v) x"
| "storable (NAttackCategory _) = False"
| "storable (NReturn _) = False"
| "storable (NFork _) = False"
| "storable NContinue = False"
| "storable NBreak = False"
| "storable (NExit _) = False"
| "storable _ = True"

lemma from_as_primitive: "from_primitive (as_primitive v) = v \<longleftrightarrow> storable v"
proof (induction v rule: as_primitive.induct)
  case (4 x)
  have "map (\<lambda>v. from_primitive (as_primitive v)) x = x \<longleftrightarrow> list_all (\<lambda>v. from_primitive (as_primitive v) = v) x"
    by (induction x) auto
  also have "\<dots> \<longleftrightarrow> list_all storable x" using 4 by (simp add: list_all_iff)
  finally show ?case by (simp add: comp_def)
next
  case (5 x)
  have "map (\<lambda>e. (fst e, from_primitive (as_primitive (snd e)))) x = x \<longleftrightarrow> list_all (\<lambda>e. from_primitive (as_primitive (snd e)) = snd e) x"
    by (induction x) auto
  also have "\<dots> \<longleftrightarrow> list_all (\<lambda>(_, v). storable v) x" using 5 by (fastforce simp: list_all_iff)
  finally show ?case by (simp add: comp_def case_prod_beta)
qed simp_all

lemma as_from_primitive: "as_primitive (from_primitive p) = p"
proof (induction p rule: from_primitive.induct)
  case (4 x)
  then show ?case by (simp add: map_idI)
next
  case (5 x)
  then show ?case by (auto simp: intro!: map_idI)
qed simp_all

text \<open>
  A value that is stored as a primitive and read back is the same value exactly if it contains no attack category and no
  value that steers the interpreter; a primitive that is read as a value and stored again is unchanged.
\<close>

theorem primitive_round_trip:
  "(from_primitive (as_primitive v) = v \<longleftrightarrow> storable v) \<and> as_primitive (from_primitive p) = p"
  by (simp add: from_as_primitive as_from_primitive)

end
