(* ===== verification/Nasl_Register.thy ===== *)
theory Nasl_Register
  imports Nasl_Value
begin

section \<open>The register of the interpreter\<close>

text \<open>
  \<^verbatim>\<open>rust/src/nasl/utils/context.rs\<close>: the contexts that hold the variables and functions of a running script. A
  context names its parent by the index of the parent in the register; a lookup goes from the last context
  through its parents. An index out of range panics, and so does a lookup that never ends (the stack
  overflows): with as many steps as there are contexts, a lookup that is not over has met a context twice.
\<close>

subsection \<open>Contexts\<close>

datatype (plugins only: code size) context_type = CFunction "string list" statement | CValue nasl_value

record nasl_context =
  ctx_parent :: "nat option"
  ctx_id :: nat
  ctx_defined :: "(string, context_type) hashmap"

type_synonym register = "nasl_context list"

definition FC_ANON_ARGS :: string where
  "FC_ANON_ARGS = ''_FCT_ANON_ARGS''"

definition context_default :: nasl_context where
  "context_default = \<lparr>ctx_parent = None, ctx_id = 0, ctx_defined = []\<rparr>"

definition add_named :: "string \<Rightarrow> context_type \<Rightarrow> nasl_context \<Rightarrow> nasl_context" where
  "add_named name v c = c\<lparr>ctx_defined := hm_insert name v (ctx_defined c)\<rparr>"

fun context_named :: "nat \<Rightarrow> nasl_context \<Rightarrow> register \<Rightarrow> string \<Rightarrow> (nat \<times> context_type) option exec" where
  "context_named 0 c registrat name = Panic"
| "context_named (Suc n) c registrat name = (case hm_get (ctx_defined c) name of
      Some ctx \<Rightarrow> Ret (Some (ctx_id c, ctx))
    | None \<Rightarrow> (case ctx_parent c of
        Some parent \<Rightarrow> (if parent < length registrat then context_named n (registrat ! parent) registrat name else Panic)
      | None \<Rightarrow> Ret None))"

subsection \<open>Operations of the register\<close>

definition register_new :: register where
  "register_new = [context_default]"

definition root_initial :: "(string \<times> context_type) list \<Rightarrow> register" where
  "root_initial initial = [context_default\<lparr>ctx_defined := fold (\<lambda>(k, v). hm_insert k v) initial []\<rparr>]"

definition register_index :: "register \<Rightarrow> nat" where
  "register_index r = length r"

definition create_child :: "(string, context_type) hashmap \<Rightarrow> register \<Rightarrow> register" where
  "create_child defined r =
     (let parent_id = (if r = [] then 0 else ctx_id (last r))
      in r @ [\<lparr>ctx_parent = Some parent_id, ctx_id = register_index r, ctx_defined = defined\<rparr>])"

definition create_root_child :: "(string, context_type) hashmap \<Rightarrow> register \<Rightarrow> register" where
  "create_root_child defined r = r @ [\<lparr>ctx_parent = Some 0, ctx_id = register_index r, ctx_defined = defined\<rparr>]"

definition index_named :: "register \<Rightarrow> string \<Rightarrow> (nat \<times> context_type) option exec" where
  "index_named r name = (if r = [] then Ret None else context_named (Suc (length r)) (last r) r name)"

definition named :: "register \<Rightarrow> string \<Rightarrow> context_type option exec" where
  "named r name = exec_bind (index_named r name) (\<lambda>found. Ret (map_option snd found))"

definition iter_named_args ::
  "((string \<times> context_type) list \<Rightarrow> (string \<times> context_type) list) \<Rightarrow> register \<Rightarrow> string list option" where
  "iter_named_args it r = (if r = [] then None else Some (map fst (it (ctx_defined (last r)))))"

definition add_to_index :: "nat \<Rightarrow> string \<Rightarrow> context_type \<Rightarrow> register \<Rightarrow> register exec" where
  "add_to_index idx name v r = (if idx \<ge> length r then Panic else Ret (r[idx := add_named name v (r ! idx)]))"

definition add_global :: "string \<Rightarrow> context_type \<Rightarrow> register \<Rightarrow> register exec" where
  "add_global name v r = (case r of [] \<Rightarrow> Panic | c # cs \<Rightarrow> Ret (add_named name v c # cs))"

definition add_local :: "string \<Rightarrow> context_type \<Rightarrow> register \<Rightarrow> register" where
  "add_local name v r = (if r = [] then r else butlast r @ [add_named name v (last r)])"

definition positional :: "register \<Rightarrow> nasl_value list exec" where
  "positional r = exec_bind (named r FC_ANON_ARGS) (\<lambda>found. Ret (case found of Some (CValue (NArray arr)) \<Rightarrow> arr | _ \<Rightarrow> []))"

definition drop_last :: "register \<Rightarrow> register" where
  "drop_last r = butlast r"

subsection \<open>Well-formed registers\<close>

named_theorems register_laws

text \<open>The first context is the root, the one without a parent, every context has its index as id, a parent comes before its children, and
  the bodies of the functions satisfy \<open>P\<close>.\<close>

definition context_ok :: "(statement \<Rightarrow> bool) \<Rightarrow> nasl_context \<Rightarrow> bool" where
  "context_ok P c = (\<forall>k ps body. (k, CFunction ps body) \<in> set (ctx_defined c) \<longrightarrow> P body)"

definition register_ok :: "(statement \<Rightarrow> bool) \<Rightarrow> register \<Rightarrow> bool" where
  "register_ok P r = (r \<noteq> [] \<and>
     (\<forall>i < length r. context_ok P (r ! i) \<and> ctx_id (r ! i) = i \<and> (ctx_parent (r ! i) = None \<longleftrightarrow> i = 0) \<and>
       (\<forall>p. ctx_parent (r ! i) = Some p \<longrightarrow> p < i)))"

lemma set_hm_insert: "set (hm_insert k v m) \<subseteq> insert (k, v) (set m)"
  by (induction m) auto

lemma context_ok_add_named [register_laws]:
  "context_ok P c \<Longrightarrow> (\<And>ps body. v = CFunction ps body \<Longrightarrow> P body) \<Longrightarrow> context_ok P (add_named k v c)"
  unfolding context_ok_def add_named_def using set_hm_insert [of k v "ctx_defined c"] by auto

lemma add_named_simps [simp]: "ctx_id (add_named k v c) = ctx_id c" "ctx_parent (add_named k v c) = ctx_parent c"
  by (simp_all add: add_named_def)

lemma register_ok_nonempty: "register_ok P r \<Longrightarrow> r \<noteq> []"
  by (simp add: register_ok_def)

lemma register_ok_update [register_laws]:
  assumes "register_ok P r" and "i < length r" and "\<And>ps body. v = CFunction ps body \<Longrightarrow> P body"
  shows "register_ok P (r[i := add_named k v (r ! i)])"
proof -
  have "context_ok P (add_named k v (r ! i))"
    using assms by (intro context_ok_add_named) (auto simp: register_ok_def)
  with assms show ?thesis
    by (simp add: register_ok_def nth_list_update)
qed

lemma add_to_index_ok [register_laws]:
  assumes "register_ok P r" and "add_to_index i k v r = Ret r'" and "\<And>ps body. v = CFunction ps body \<Longrightarrow> P body"
  shows "register_ok P r'" and "length r' = length r"
  using assms register_ok_update [of P r i v k] by (auto simp: add_to_index_def split: if_splits)

lemma add_global_ok [register_laws]:
  assumes "register_ok P r" and "\<And>ps body. v = CFunction ps body \<Longrightarrow> P body"
  obtains r' where "add_global k v r = Ret r'" "register_ok P r'" "length r' = length r"
proof -
  obtain c cs where r: "r = c # cs" using register_ok_nonempty [OF assms(1)] by (cases r) auto
  have "register_ok P (r[0 := add_named k v (r ! 0)])" using assms r by (intro register_ok_update) auto
  then show thesis by (intro that [of "add_named k v c # cs"]) (simp_all add: add_global_def r)
qed

lemma add_local_update: "r \<noteq> [] \<Longrightarrow> add_local k v r = r[length r - 1 := add_named k v (r ! (length r - 1))]"
  by (cases r rule: rev_cases) (simp_all add: add_local_def)

lemma add_local_ok [register_laws]:
  assumes "register_ok P r" and "\<And>ps body. v = CFunction ps body \<Longrightarrow> P body"
  shows "register_ok P (add_local k v r)" and "length (add_local k v r) = length r"
  using assms register_ok_update [of P r "length r - 1" v k] register_ok_nonempty [OF assms(1)]
  by (simp_all add: add_local_update)

lemma register_ok_push:
  assumes "register_ok P r" and "p < length r" and "\<And>k ps body. (k, CFunction ps body) \<in> set d \<Longrightarrow> P body"
  shows "register_ok P (r @ [\<lparr>ctx_parent = Some p, ctx_id = length r, ctx_defined = d\<rparr>])"
  using assms by (auto simp: register_ok_def nth_append context_ok_def less_Suc_eq)

lemma register_ok_last_id: "register_ok P r \<Longrightarrow> ctx_id (last r) = length r - 1"
  by (simp add: register_ok_def last_conv_nth)

lemma create_child_ok [register_laws]: "register_ok P r \<Longrightarrow> register_ok P (create_child [] r)"
  unfolding create_child_def Let_def register_index_def
  by (rule register_ok_push) (auto simp: register_ok_last_id register_ok_nonempty dest: register_ok_nonempty)

lemma create_root_child_ok [register_laws]:
  "register_ok P r \<Longrightarrow> (\<And>k ps body. (k, CFunction ps body) \<in> set d \<Longrightarrow> P body) \<Longrightarrow> register_ok P (create_root_child d r)"
  unfolding create_root_child_def register_index_def
  by (rule register_ok_push) (auto dest: register_ok_nonempty)

lemma length_register [simp]:
  "length (create_child d r) = Suc (length r)" "length (create_root_child d r) = Suc (length r)" "length (drop_last r) = length r - 1"
  by (simp_all add: create_child_def create_root_child_def drop_last_def Let_def)

lemma drop_last_ok [register_laws]: "register_ok P r \<Longrightarrow> 1 < length r \<Longrightarrow> register_ok P (drop_last r)"
  by (auto simp: register_ok_def drop_last_def nth_butlast butlast_conv_take)

lemma register_new_ok [register_laws]: "register_ok P register_new"
  by (simp add: register_new_def register_ok_def context_default_def context_ok_def)

subsection \<open>What a lookup finds\<close>

text \<open>The contexts visible from context \<open>i\<close>, innermost first.\<close>

function scopes :: "register \<Rightarrow> nat \<Rightarrow> nat list" where
  "scopes r i = i # (case ctx_parent (r ! i) of None \<Rightarrow> [] | Some p \<Rightarrow> if p < i then scopes r p else [])"
  by pat_completeness auto
termination by (relation "measure snd") auto

declare scopes.simps [simp del]

definition lookup_in :: "register \<Rightarrow> nat list \<Rightarrow> string \<Rightarrow> (nat \<times> context_type) option" where
  "lookup_in r is name = (case find (\<lambda>i. hm_contains (ctx_defined (r ! i)) name) is of
      None \<Rightarrow> None
    | Some i \<Rightarrow> map_option (Pair i) (hm_get (ctx_defined (r ! i)) name))"

lemma lookup_in_Cons:
  "lookup_in r (i # is) name = (case hm_get (ctx_defined (r ! i)) name of Some v \<Rightarrow> Some (i, v) | None \<Rightarrow> lookup_in r is name)"
  by (auto simp: lookup_in_def split: option.splits)

lemma context_named_scopes:
  assumes "register_ok P r" and "i < length r" and "i < n"
  shows "context_named n (r ! i) r name = Ret (lookup_in r (scopes r i) name)"
  using assms(2,3)
proof (induction i arbitrary: n rule: less_induct)
  case (less i)
  then obtain m where n: "n = Suc m" by (cases n) auto
  have ok: "ctx_id (r ! i) = i" "\<And>p. ctx_parent (r ! i) = Some p \<Longrightarrow> p < i"
    using assms(1) less.prems by (auto simp: register_ok_def)
  show ?case
  proof (cases "ctx_parent (r ! i)")
    case None
    then show ?thesis by (simp add: n scopes.simps [of r i] lookup_in_Cons ok(1) lookup_in_def split: option.split)
  next
    case (Some p)
    with ok(2) [of p] less.prems have p: "p < i" "p < length r" "p < m" by (auto simp: n)
    show ?thesis
      using less.IH [of p m] p Some by (simp add: n scopes.simps [of r i] lookup_in_Cons ok(1) split: option.split)
  qed
qed

lemma index_named_scopes:
  "register_ok P r \<Longrightarrow> index_named r name = Ret (lookup_in r (scopes r (length r - 1)) name)"
  using context_named_scopes [of P r "length r - 1" "Suc (length r)" name] register_ok_nonempty [of P r]
  by (auto simp: index_named_def last_conv_nth)

lemma named_scopes:
  "register_ok P r \<Longrightarrow> named r name = Ret (map_option snd (lookup_in r (scopes r (length r - 1)) name))"
  by (simp add: named_def index_named_scopes)

lemma scopes_append: "i < length r \<Longrightarrow> scopes (r @ rs) i = scopes r i"
proof (induction i rule: less_induct)
  case (less i)
  then show ?case by (simp add: scopes.simps [of _ i] nth_append split: option.split)
qed

lemma scopes_bounded: "register_ok P r \<Longrightarrow> i < length r \<Longrightarrow> j \<in> set (scopes r i) \<Longrightarrow> j \<le> i"
proof (induction i rule: less_induct)
  case (less i)
  then show ?case by (fastforce simp: scopes.simps [of r i] split: option.splits if_splits)
qed

lemma lookup_in_cong:
  "(\<And>i. i \<in> set is \<Longrightarrow> ctx_defined (r ! i) = ctx_defined (r' ! i)) \<Longrightarrow> lookup_in r is name = lookup_in r' is name"
proof (induction "is")
  case (Cons i "is")
  then show ?case by (simp add: lookup_in_Cons split: option.split)
qed (simp add: lookup_in_def)

lemma lookup_in_append:
  assumes "register_ok P r" and "i < length r"
  shows "lookup_in (r @ rs) (scopes (r @ rs) i) name = lookup_in r (scopes r i) name"
  unfolding scopes_append [OF assms(2)]
  by (rule lookup_in_cong) (use scopes_bounded [OF assms] assms(2) in \<open>fastforce simp: nth_append\<close>)

lemma lookup_pushed:
  assumes "register_ok P r" and "p < length r"
  shows "lookup_in (r @ [\<lparr>ctx_parent = Some p, ctx_id = length r, ctx_defined = d\<rparr>])
           (scopes (r @ [\<lparr>ctx_parent = Some p, ctx_id = length r, ctx_defined = d\<rparr>]) (length r)) name =
         (case hm_get d name of Some v \<Rightarrow> Some (length r, v) | None \<Rightarrow> lookup_in r (scopes r p) name)"
  using lookup_in_append [OF assms] assms(2) by (simp add: scopes.simps [of _ "length r"] lookup_in_Cons split: option.split)

lemma scopes_root: "register_ok P r \<Longrightarrow> scopes r 0 = [0]"
  by (auto simp: scopes.simps [of r 0] split: option.split)

text \<open>An inner block sees what it defines and what is visible around it.\<close>

lemma named_create_child:
  assumes "register_ok P r"
  shows "named (create_child [] r) name = named r name"
proof -
  have ok: "register_ok P (create_child [] r)" by (rule create_child_ok [OF assms])
  have "length r - 1 < length r" using register_ok_nonempty [OF assms] by (cases r) auto
  from lookup_pushed [OF assms this, of "[]" name] show ?thesis
    unfolding named_scopes [OF ok] named_scopes [OF assms]
    by (simp add: create_child_def Let_def register_index_def register_ok_last_id [OF assms] register_ok_nonempty [OF assms])
qed

lemma named_create_root_child:
  assumes "register_ok P r" and "\<And>k ps body. (k, CFunction ps body) \<in> set args \<Longrightarrow> P body"
  shows "named (create_root_child args r) name =
           Ret (case hm_get args name of Some v \<Rightarrow> Some v | None \<Rightarrow> hm_get (ctx_defined (hd r)) name)"
proof -
  have ok: "register_ok P (create_root_child args r)" by (rule create_root_child_ok [OF assms])
  have "0 < length r" using register_ok_nonempty [OF assms(1)] by simp
  from lookup_pushed [OF assms(1) this, of args name] show ?thesis
    unfolding named_scopes [OF ok] using register_ok_nonempty [OF assms(1)]
    by (simp add: create_root_child_def register_index_def scopes_root [OF assms(1)] lookup_in_Cons hd_conv_nth
        lookup_in_def [of _ "[]"] split: option.split)
qed



lemma scopes_to_root: "register_ok P r \<Longrightarrow> i < length r \<Longrightarrow> 0 \<in> set (scopes r i)"
proof (induction i rule: less_induct)
  case (less i)
  then show ?case by (fastforce simp: scopes.simps [of r i] register_ok_def split: option.splits)
qed

lemma scopes_update: "i < length r \<Longrightarrow> scopes (r[i := add_named k v (r ! i)]) j = scopes r j"
proof (induction j rule: less_induct)
  case (less j)
  have "ctx_parent (r[i := add_named k v (r ! i)] ! j) = ctx_parent (r ! j)"
    using less.prems by (simp add: nth_list_update)
  with less show ?case by (simp add: scopes.simps [of _ j] split: option.split)
qed

lemma defined_update:
  "i < length r \<Longrightarrow> hm_get (ctx_defined (r[i := add_named k v (r ! i)] ! j)) x =
     (if j = i \<and> x = k then Some v else hm_get (ctx_defined (r ! j)) x)"
  by (simp add: nth_list_update add_named_def)

lemma lookup_update_other:
  "i < length r \<Longrightarrow> x \<noteq> k \<Longrightarrow> lookup_in (r[i := add_named k v (r ! i)]) is x = lookup_in r is x"
proof (induction "is")
  case (Cons j "is")
  then show ?case by (simp add: lookup_in_Cons defined_update split: option.split)
qed (simp add: lookup_in_def)

lemma lookup_update_same:
  assumes "i < length r" and "i \<in> set is"
    and "(case lookup_in r is k of Some (j, _) \<Rightarrow> j | None \<Rightarrow> i) = i"
  shows "lookup_in (r[i := add_named k v (r ! i)]) is k = Some (i, v)"
  using assms(2,3)
proof (induction "is")
  case (Cons j "is")
  then show ?case using assms(1) by (auto simp: lookup_in_Cons defined_update split: option.splits if_splits)
qed simp

lemma lookup_in_member: "lookup_in r is k = Some (j, v) \<Longrightarrow> j \<in> set is"
  by (auto simp: lookup_in_def find_Some_iff split: option.splits)

lemma add_to_index_lookup:
  assumes "register_ok P r" and "index_named r name = Ret found"
  shows "\<exists>r'. add_to_index (case found of Some (i, _) \<Rightarrow> i | None \<Rightarrow> 0) name (CValue v) r = Ret r' \<and>
           named r' name = Ret (Some (CValue v)) \<and> (\<forall>x. x \<noteq> name \<longrightarrow> named r' x = named r x)"
proof -
  define i where "i = (case found of Some (i, _) \<Rightarrow> i | None \<Rightarrow> 0)"
  define visible where "visible = scopes r (length r - 1)"
  have len: "length r - 1 < length r" using register_ok_nonempty [OF assms(1)] by (cases r) auto
  have found: "found = lookup_in r visible name" using assms(2) index_named_scopes [OF assms(1)] by (simp add: visible_def)
  have i: "i \<in> set visible"
    using scopes_to_root [OF assms(1) len] lookup_in_member [of r visible name]
    by (auto simp: i_def found visible_def split: option.split)
  then have bound: "i < length r" using scopes_bounded [OF assms(1) len, of i] len by (simp add: visible_def)
  let ?r' = "r[i := add_named name (CValue v) (r ! i)]"
  have ok: "register_ok P ?r'" by (rule register_ok_update [OF assms(1) bound]) simp
  have "lookup_in ?r' visible name = Some (i, CValue v)"
    by (rule lookup_update_same [OF bound i]) (auto simp: i_def found split: option.split)
  then show ?thesis
    using bound by (auto simp: add_to_index_def named_scopes [OF ok] named_scopes [OF assms(1)] scopes_update visible_def
        lookup_update_other simp flip: i_def)
qed

text \<open>
  C21: Storing a value where an assignment stores it, in the context in which the name was found, or in the root
  context when it was not, is well behaved: it does not panic, afterwards a lookup of the name gives the value, and a lookup of
  another name gives what it gave before.
\<close>

theorem store_lookup:
  assumes "register_ok P r" and "index_named r name = Ret found"
  shows "\<exists>r'. add_to_index (case found of Some (i, _) \<Rightarrow> i | None \<Rightarrow> 0) name (CValue v) r = Ret r' \<and>
           named r' name = Ret (Some (CValue v)) \<and> (\<forall>x. x \<noteq> name \<longrightarrow> named r' x = named r x)"
  by (rule add_to_index_lookup [OF assms])

theorem store_lookup_witness:
  "\<exists>r'. add_to_index 0 ''a'' (CValue NNull) (create_child [] register_new) = Ret r' \<and> named r' ''a'' = Ret (Some (CValue NNull))"
  using store_lookup [of "\<lambda>_. True" "create_child [] register_new" "''a''" None NNull, OF create_child_ok [OF register_new_ok]]
  by (auto simp: index_named_def create_child_def register_new_def context_default_def register_index_def)

end
