(* ===== verification/Nasl_Error.thy ===== *)
theory Nasl_Error
  imports Nasl_Register
begin

section \<open>Errors of built-in functions and of the interpreter\<close>

text \<open>
  \<^verbatim>\<open>rust/src/nasl/utils/error.rs\<close> and \<^verbatim>\<open>rust/src/nasl/interpreter/error.rs\<close>: why a built-in function fails, why a
  statement fails, and the statement an error is attributed to.
\<close>

datatype (plugins only: code size) function_error_kind =
    MissingPositionalArguments nat nat
  | TrailingPositionalArguments nat nat
  | MissingArguments "string list"
  | UnexpectedArgument string
  | FunctionFMTError
  | FunctionIOError io_error_kind
  | WrongArgument string
  | Authentication
  | Diagnostic string "nasl_value option"
  | GeneralError storage_error
  | FunctionDirty string

record function_error =
  fe_function :: string
  fe_kind :: function_error_kind

datatype (plugins only: code size) interpret_error_kind =
    FunctionExpectedValue
  | ValueExpectedFunction
  | WrongType string
  | WrongCategory category
  | InvalidRegex string
  | IncludeSyntaxError string syntax_error
  | InterpretSyntaxError syntax_error
  | KeyNotFound string
  | InterpretStorageError storage_error
  | InterpretLoadError load_error
  | FMTError
  | IOError io_error_kind
  | FunctionCallError function_error

record interpret_error =
  ie_kind :: interpret_error_kind
  ie_origin :: "statement option"

definition error_new :: "interpret_error_kind \<Rightarrow> statement option \<Rightarrow> interpret_error" where
  "error_new kind origin = \<lparr>ie_kind = kind, ie_origin = origin\<rparr>"

definition from_statement :: "statement \<Rightarrow> interpret_error_kind \<Rightarrow> interpret_error" where
  "from_statement stmt kind = \<lparr>ie_kind = kind, ie_origin = Some stmt\<rparr>"

definition unsupported :: "statement \<Rightarrow> string \<Rightarrow> interpret_error" where
  "unsupported stmt expected = from_statement stmt (WrongType expected)"

definition expected_value :: interpret_error where
  "expected_value = error_new FunctionExpectedValue None"

definition expected_function :: interpret_error where
  "expected_function = error_new ValueExpectedFunction None"

definition wrong_category :: "category \<Rightarrow> interpret_error" where
  "wrong_category cat = error_new (WrongCategory cat) None"

definition error_not_found :: "string \<Rightarrow> interpret_error" where
  "error_not_found name = error_new (KeyNotFound name) None"

definition include_syntax_error :: "string \<Rightarrow> syntax_error \<Rightarrow> interpret_error" where
  "include_syntax_error file se = error_new (IncludeSyntaxError file se) None"

definition unparse_regex :: "string \<Rightarrow> interpret_error" where
  "unparse_regex rx = error_new (InvalidRegex rx) None"

definition error_of_function :: "function_error \<Rightarrow> interpret_error" where
  "error_of_function fe = (case fe_kind fe of
      FunctionFMTError \<Rightarrow> error_new FMTError None
    | FunctionIOError ie \<Rightarrow> error_new (IOError ie) None
    | GeneralError e \<Rightarrow> error_new (InterpretStorageError e) None
    | _ \<Rightarrow> error_new (FunctionCallError fe) None)"

text \<open>The errors after which \<^verbatim>\<open>retry_resolve\<close> tries again.\<close>

definition is_retryable :: "interpret_error \<Rightarrow> bool" where
  "is_retryable e = (case ie_kind e of
      InterpretLoadError (LoadRetry _) \<Rightarrow> True
    | IOError Interrupted \<Rightarrow> True
    | InterpretStorageError (Retry _) \<Rightarrow> True
    | _ \<Rightarrow> False)"

end
