(* ===== verification/Nasl_Parser.thy ===== *)
theory Nasl_Parser
  imports Nasl_Statement
begin

section \<open>Parser of NASL\<close>

text \<open>
  \<^verbatim>\<open>rust/src/nasl/syntax/lexer.rs\<close>, \<^verbatim>\<open>prefix_extension.rs\<close>, \<^verbatim>\<open>grouping_extension.rs\<close> and
  \<^verbatim>\<open>keyword_extension.rs\<close>: the parser that turns tokens into statements. Its state holds the tokens that are
  not read yet, comments included, and the depth counter. Every function of the code is a parser, which returns
  an error or a value with the state after it; \<^term>\<open>None\<close> stands for a parser that has run out of fuel. The
  functions of the extensions take \<open>statement\<close>, which they call back, as their argument.
\<close>

subsection \<open>State\<close>

record lexer =
  lx_tokens :: "token list"
  lx_depth :: "8 word"

type_synonym 'a parser = "lexer \<Rightarrow> ((syntax_error + 'a) \<times> lexer) option"

datatype ending = Done token | Continue

abbreviation (input) is_comment :: "token \<Rightarrow> bool" where
  "is_comment t \<equiv> tok_category t = Comment"

definition lexer_new :: "token list \<Rightarrow> lexer" where
  "lexer_new ts = \<lparr>lx_tokens = ts, lx_depth = 0\<rparr>"

definition lexer_token :: "lexer \<Rightarrow> token option \<times> lexer" where
  "lexer_token l = (case dropWhile is_comment (lx_tokens l) of
      [] \<Rightarrow> (None, l\<lparr>lx_tokens := []\<rparr>)
    | t # ts \<Rightarrow> (Some t, l\<lparr>lx_tokens := ts\<rparr>))"

definition lexer_peek :: "lexer \<Rightarrow> token option" where
  "lexer_peek l = find (\<lambda>t. \<not> is_comment t) (lx_tokens l)"

definition MAX_DEPTH :: "8 word" where
  "MAX_DEPTH = 42"

definition is_done :: "ending \<Rightarrow> bool" where
  "is_done e = (case e of Done _ \<Rightarrow> True | Continue \<Rightarrow> False)"

text \<open>Parsers in sequence: an error ends the sequence, as \<^verbatim>\<open>?\<close> does.\<close>

definition pret :: "'a \<Rightarrow> 'a parser" where
  "pret a = (\<lambda>l. Some (Inr a, l))"

definition perr :: "syntax_error \<Rightarrow> 'a parser" where
  "perr e = (\<lambda>l. Some (Inl e, l))"

definition pbind :: "'a parser \<Rightarrow> ('a \<Rightarrow> 'b parser) \<Rightarrow> 'b parser" where
  "pbind m f = (\<lambda>l. case m l of
      None \<Rightarrow> None
    | Some (Inl e, l') \<Rightarrow> Some (Inl e, l')
    | Some (Inr a, l') \<Rightarrow> f a l')"

definition pmap_err :: "(syntax_error \<Rightarrow> syntax_error) \<Rightarrow> 'a parser \<Rightarrow> 'a parser" where
  "pmap_err g m = (\<lambda>l. case m l of
      None \<Rightarrow> None
    | Some (Inl e, l') \<Rightarrow> Some (Inl (g e), l')
    | Some (Inr a, l') \<Rightarrow> Some (Inr a, l'))"

definition plift :: "syntax_error + 'a \<Rightarrow> 'a parser" where
  "plift r = (\<lambda>l. Some (r, l))"

definition ptoken :: "token option parser" where
  "ptoken l = (case lexer_token l of (t, l') \<Rightarrow> Some (Inr t, l'))"

definition ppeek :: "token option parser" where
  "ppeek l = Some (Inr (lexer_peek l), l)"

definition preset_depth :: "unit parser" where
  "preset_depth l = Some (Inr (), l\<lparr>lx_depth := 0\<rparr>)"

text \<open>The next token, which has to be there.\<close>

definition pexpect :: "token parser" where
  "pexpect = pbind ptoken (\<lambda>t. case t of None \<Rightarrow> perr SyntaxEoF | Some t' \<Rightarrow> pret t')"

definition preturnable :: "statement \<Rightarrow> statement parser" where
  "preturnable s = plift (as_returnable_or_err s)"

type_synonym aborts = "category \<Rightarrow> bool"
type_synonym statement_parser = "nat \<Rightarrow> aborts \<Rightarrow> (ending \<times> statement) parser"

abbreviation (input) until :: "category \<Rightarrow> aborts" where
  "until c \<equiv> (\<lambda>x. x = c)"

subsection \<open>Groups\<close>

fun parse_comma_group :: "nat \<Rightarrow> statement_parser \<Rightarrow> category \<Rightarrow> statement list \<Rightarrow> (ending \<times> statement list) parser" where
  "parse_comma_group 0 S cat params = (\<lambda>_. None)"
| "parse_comma_group (Suc n) S cat params =
     pbind ppeek (\<lambda>p. case p of
         None \<Rightarrow> pret (Continue, params)
       | Some token \<Rightarrow>
           if tok_category token = cat then pbind ptoken (\<lambda>_. pret (Done token, params))
           else pbind (S 0 (\<lambda>c. c = cat \<or> c = Comma)) (\<lambda>(stmtend, param).
             let params' = (case stmt_kind param of SParameter nparams \<Rightarrow> params @ nparams | _ \<Rightarrow> params @ [param])
             in case stmtend of
                 Done endcat \<Rightarrow> if tok_category endcat = cat then pret (Done endcat, params') else parse_comma_group n S cat params'
               | Continue \<Rightarrow> parse_comma_group n S cat params'))"

definition parse_paren :: "statement_parser \<Rightarrow> token \<Rightarrow> statement parser" where
  "parse_paren S token =
     pbind (S 0 (until RightParen)) (\<lambda>(end', right). case end' of
         Done e \<Rightarrow> pbind preset_depth (\<lambda>_. pret (case stmt_kind right of
             SAssign cat _ first second \<Rightarrow> with_start_end_token token e (SAssign cat AssignReturn first second)
           | _ \<Rightarrow> right))
       | Continue \<Rightarrow> perr (UnclosedToken token))"

fun parse_block :: "nat \<Rightarrow> statement_parser \<Rightarrow> token \<Rightarrow> statement list \<Rightarrow> statement parser" where
  "parse_block 0 S kw results = (\<lambda>_. None)"
| "parse_block (Suc n) S kw results =
     pbind ppeek (\<lambda>p. case p of
         None \<Rightarrow> perr (UnclosedToken kw)
       | Some token \<Rightarrow>
           if tok_category token = RightCurlyBracket then
             pbind ptoken (\<lambda>_. pbind preset_depth (\<lambda>_. pret (with_start_end_token kw token (SBlock results))))
           else pbind (S 0 (until Semicolon)) (\<lambda>(end', stmt).
             parse_block n S kw (if is_done end' \<and> stmt_kind stmt \<noteq> SNoOp then results @ [stmt] else results)))"

definition parse_grouping :: "nat \<Rightarrow> statement_parser \<Rightarrow> token \<Rightarrow> (ending \<times> statement) parser" where
  "parse_grouping n S token = (case tok_category token of
      LeftParen \<Rightarrow> pbind (parse_paren S token) (\<lambda>stmt. pret (Continue, stmt))
    | LeftCurlyBracket \<Rightarrow> pbind (parse_block n S token []) (\<lambda>stmt. pret (Done (stmt_end stmt), stmt))
    | LeftBrace \<Rightarrow> pbind (parse_comma_group n S RightBrace []) (\<lambda>(end', right). case end' of
          Done e \<Rightarrow> pret (Continue, with_start_end_token token e (SParameter right))
        | Continue \<Rightarrow> perr (UnclosedToken token))
    | _ \<Rightarrow> perr (UnexpectedToken token))"

subsection \<open>Keywords\<close>

definition parse_declaration :: "nat \<Rightarrow> statement_parser \<Rightarrow> token \<Rightarrow> statement parser" where
  "parse_declaration n S token = pbind (parse_comma_group n S Semicolon []) (\<lambda>(end', params). case end' of
      Done e \<Rightarrow> (case find (\<lambda>stmt. stmt_kind stmt \<noteq> SVariable) params of
          Some errstmt \<Rightarrow> perr (unexpected_statement errstmt)
        | None \<Rightarrow> pret (with_start_end_token token e (SDeclare params)))
    | Continue \<Rightarrow> perr SyntaxEoF)"

definition parse_else :: "statement_parser \<Rightarrow> token \<Rightarrow> (token option \<times> statement option \<times> token) parser" where
  "parse_else S end' = pbind ppeek (\<lambda>p. case p of
      Some token \<Rightarrow>
        if tok_category token = Identifier KwElse then
          pbind ptoken (\<lambda>_. pbind (S 0 (until Semicolon)) (\<lambda>(e, stmt). case e of
              Done e' \<Rightarrow> pret (Some token, Some stmt, e')
            | Continue \<Rightarrow> perr (unexpected_statement stmt)))
        else pret (None, None, end')
    | None \<Rightarrow> pret (None, None, end'))"

definition parse_if :: "statement_parser \<Rightarrow> token \<Rightarrow> statement parser" where
  "parse_if S kw = pbind pexpect (\<lambda>ptok.
     if tok_category ptok = LeftParen then
       pbind (parse_paren S ptok) (\<lambda>cond. pbind (preturnable cond) (\<lambda>condition.
       pbind (S 0 (until Semicolon)) (\<lambda>(end', body). case end' of
           Continue \<Rightarrow> perr (UnclosedToken ptok)
         | Done e \<Rightarrow> pbind (parse_else S e) (\<lambda>(ekw, els, e').
             pret (with_start_end_token kw e' (SIf condition body ekw els))))))
     else perr (UnexpectedToken ptok))"

definition jump_to_left_parenthesis :: "unit parser" where
  "jump_to_left_parenthesis = pbind pexpect (\<lambda>token.
     if tok_category token \<noteq> LeftParen then perr (UnexpectedToken token) else pret ())"

definition parse_call_return_params :: "statement_parser \<Rightarrow> statement parser" where
  "parse_call_return_params S = pbind jump_to_left_parenthesis (\<lambda>_.
     pbind (S 0 (until RightParen)) (\<lambda>(end', par). pbind (preturnable par) (\<lambda>parameter. case end' of
         Done _ \<Rightarrow> pret parameter
       | Continue \<Rightarrow> perr SyntaxEoF)))"

definition parse_exit :: "statement_parser \<Rightarrow> token \<Rightarrow> statement parser" where
  "parse_exit S token = pbind (parse_call_return_params S) (\<lambda>parameter.
     pbind (S 0 (until Semicolon)) (\<lambda>(_, should_be_semicolon).
       if stmt_kind should_be_semicolon \<noteq> SNoOp then perr (unexpected_statement should_be_semicolon)
       else pret (with_start_end_token token (stmt_end should_be_semicolon) (SExit parameter))))"

definition parse_include :: "statement_parser \<Rightarrow> token \<Rightarrow> statement parser" where
  "parse_include S token = pbind (parse_call_return_params S) (\<lambda>parameter.
     pbind (S 0 (until Semicolon)) (\<lambda>(_, should_be_semicolon).
       if stmt_kind should_be_semicolon \<noteq> SNoOp then perr (unexpected_statement should_be_semicolon)
       else pret (with_start_end_token token (stmt_end should_be_semicolon) (SInclude parameter))))"

definition is_undefined :: "category \<Rightarrow> bool" where
  "is_undefined c = (case c of Identifier (Undefined _) \<Rightarrow> True | _ \<Rightarrow> False)"

definition parse_function :: "nat \<Rightarrow> statement_parser \<Rightarrow> token \<Rightarrow> statement parser" where
  "parse_function n S token = pbind pexpect (\<lambda>ident.
     if \<not> is_undefined (tok_category ident) then perr (UnexpectedToken ident)
     else pbind pexpect (\<lambda>paren.
       if tok_category paren \<noteq> LeftParen then perr (UnexpectedToken paren)
       else pbind (parse_comma_group n S RightParen []) (\<lambda>(gend, params). case gend of
           Continue \<Rightarrow> perr (UnclosedToken token)
         | Done parameter_end_token \<Rightarrow> pbind pexpect (\<lambda>block.
             if tok_category block \<noteq> LeftCurlyBracket then perr (UnexpectedToken block)
             else pbind (parse_block n S block []) (\<lambda>blk.
               pret (with_start_end_token token (stmt_end blk)
                 (SFunctionDeclaration ident (with_start_end_token paren parameter_end_token (SParameter params)) blk)))))))"

definition parse_return :: "statement_parser \<Rightarrow> token \<Rightarrow> statement parser" where
  "parse_return S token =
     (let go = pbind (S 0 (until Semicolon)) (\<lambda>(end', par). pbind (preturnable par) (\<lambda>parameter. case end' of
            Done e \<Rightarrow> pret (with_start_end_token token e (SReturn parameter))
          | Continue \<Rightarrow> perr (UnclosedStatement parameter)))
      in pbind ppeek (\<lambda>p. case p of
          Some sc \<Rightarrow>
            if tok_category sc = Semicolon then
              pbind ptoken (\<lambda>_. pret (with_start_end_token token sc (SReturn (without_token SNoOp))))
            else go
        | None \<Rightarrow> go))"

definition parse_jump :: "statement_kind \<Rightarrow> token \<Rightarrow> statement parser" where
  "parse_jump k kw = pbind ppeek (\<lambda>p. case p of
      Some token \<Rightarrow>
        if tok_category token = Semicolon then pbind ptoken (\<lambda>_. pret (with_start_end_token kw token k))
        else perr (UnexpectedToken token)
    | None \<Rightarrow> perr SyntaxEoF)"

definition parse_continue :: "token \<Rightarrow> statement parser" where
  "parse_continue = parse_jump SContinue"

definition parse_break :: "token \<Rightarrow> statement parser" where
  "parse_break = parse_jump SBreak"

definition left_paren_at :: "token \<Rightarrow> token" where
  "left_paren_at k = \<lparr>tok_category = LeftParen, tok_line_column = tok_line_column k, tok_position = tok_position k\<rparr>"

definition map_syntax_error_to_unclosed_left_paren :: "syntax_error \<Rightarrow> syntax_error" where
  "map_syntax_error_to_unclosed_left_paren e = (case e of
      UnexpectedToken k \<Rightarrow> UnclosedToken (left_paren_at k)
    | _ \<Rightarrow> e)"

definition is_end_of_category :: "ending \<Rightarrow> category \<Rightarrow> bool" where
  "is_end_of_category e category = (case e of Done x \<Rightarrow> tok_category x = category | Continue \<Rightarrow> False)"

definition for_update :: "statement_parser \<Rightarrow> (ending \<times> statement) parser" where
  "for_update S =
     (let go = pmap_err map_syntax_error_to_unclosed_left_paren (S 0 (until RightParen))
      in pbind ppeek (\<lambda>p. case p of
          Some t \<Rightarrow>
            if tok_category t = RightParen then pbind ptoken (\<lambda>_. pret (Done t, without_token SNoOp))
            else go
        | None \<Rightarrow> go))"

definition is_assign_or_noop :: "statement_kind \<Rightarrow> bool" where
  "is_assign_or_noop k = (case k of SAssign _ _ _ _ \<Rightarrow> True | SNoOp \<Rightarrow> True | _ \<Rightarrow> False)"

definition parse_for :: "statement_parser \<Rightarrow> token \<Rightarrow> statement parser" where
  "parse_for S kw = pbind jump_to_left_parenthesis (\<lambda>_. pbind (S 0 (until Semicolon)) (\<lambda>(end1, assignment).
     if \<not> is_assign_or_noop (stmt_kind assignment) then perr (unexpected_statement assignment)
     else if end1 = Continue then perr (UnclosedStatement assignment)
     else pbind (S 0 (until Semicolon)) (\<lambda>(end2, cond). pbind (preturnable cond) (\<lambda>condition.
       if end2 = Continue then perr (UnclosedStatement condition)
       else pbind (for_update S) (\<lambda>(end3, update).
         if \<not> is_end_of_category end3 RightParen then perr (UnclosedToken (left_paren_at (stmt_start update)))
         else pbind (S 0 (until Semicolon)) (\<lambda>(end4, body). case end4 of
             Continue \<Rightarrow> perr (UnclosedStatement body)
           | Done e \<Rightarrow> pret (with_start_end_token kw e (SFor assignment condition update body))))))))"

definition parse_while :: "statement_parser \<Rightarrow> token \<Rightarrow> statement parser" where
  "parse_while S token = pbind jump_to_left_parenthesis (\<lambda>_.
     pbind (pmap_err map_syntax_error_to_unclosed_left_paren (S 0 (until RightParen))) (\<lambda>(end1, cond).
       if \<not> is_end_of_category end1 RightParen then perr (UnclosedToken (left_paren_at (stmt_start cond)))
       else pbind (preturnable cond) (\<lambda>condition. pbind (S 0 (until Semicolon)) (\<lambda>(end2, body). case end2 of
           Done e \<Rightarrow> pret (with_start_end_token token e (SWhile condition body))
         | Continue \<Rightarrow> perr (UnclosedToken token)))))"

definition parse_repeat :: "statement_parser \<Rightarrow> token \<Rightarrow> statement parser" where
  "parse_repeat S token = pbind (S 0 (until Semicolon)) (\<lambda>(end1, body).
     if end1 = Continue then perr (UnclosedToken token)
     else pbind pexpect (\<lambda>t.
       if tok_category t = Identifier KwUntil then
         pbind (S 0 (until Semicolon)) (\<lambda>(end2, stmt). case end2 of
             Done e \<Rightarrow> pbind (preturnable stmt) (\<lambda>unt. pret (with_start_end_token token e (SRepeat body unt)))
           | Continue \<Rightarrow> perr (UnclosedToken t))
       else perr (UnexpectedToken t)))"

definition parse_foreach :: "statement_parser \<Rightarrow> token \<Rightarrow> statement parser" where
  "parse_foreach S token = pbind pexpect (\<lambda>variable.
     if \<not> is_undefined (tok_category variable) then perr (UnexpectedToken variable)
     else pbind pexpect (\<lambda>t.
       if tok_category t = LeftParen then
         pbind (pmap_err (\<lambda>_. UnclosedToken t) (parse_paren S t)) (\<lambda>in'.
         pbind (S 0 (until Semicolon)) (\<lambda>(end', block). case end' of
             Done e \<Rightarrow> pret (with_start_end_token token e (SForEach variable in' block))
           | Continue \<Rightarrow> perr (UnclosedToken token)))
       else perr (UnexpectedToken t)))"

definition parse_fct_anon_args :: "statement_parser \<Rightarrow> token \<Rightarrow> statement parser" where
  "parse_fct_anon_args S kw = pbind ppeek (\<lambda>p. case p of
      Some token \<Rightarrow>
        if tok_category token = LeftBrace then
          pbind ptoken (\<lambda>_. pbind (S 0 (until RightBrace)) (\<lambda>(end', look). pbind (preturnable look) (\<lambda>lookup. case end' of
              Done e \<Rightarrow> pret (with_start_end_token kw e (SArray (Some lookup)))
            | Continue \<Rightarrow> perr (UnclosedToken token))))
        else pret (with_start_token kw (SArray None))
    | None \<Rightarrow> perr SyntaxEoF)"

definition as_done :: "statement parser \<Rightarrow> (ending \<times> statement) parser" where
  "as_done m = pbind m (\<lambda>stmt. pret (Done (stmt_end stmt), stmt))"

definition as_con :: "statement parser \<Rightarrow> (ending \<times> statement) parser" where
  "as_con m = pbind m (\<lambda>stmt. pret (Continue, stmt))"

definition parse_keyword :: "nat \<Rightarrow> statement_parser \<Rightarrow> identifier_type \<Rightarrow> token \<Rightarrow> (ending \<times> statement) parser" where
  "parse_keyword n S kw token = (case kw of
      KwFor \<Rightarrow> as_done (parse_for S token)
    | KwForEach \<Rightarrow> as_done (parse_foreach S token)
    | KwIf \<Rightarrow> as_done (parse_if S token)
    | KwElse \<Rightarrow> perr (UnexpectedToken token)
    | KwWhile \<Rightarrow> as_done (parse_while S token)
    | KwRepeat \<Rightarrow> as_done (parse_repeat S token)
    | KwUntil \<Rightarrow> perr (UnexpectedToken token)
    | KwLocalVar \<Rightarrow> as_done (parse_declaration n S token)
    | KwGlobalVar \<Rightarrow> as_done (parse_declaration n S token)
    | KwReturn \<Rightarrow> as_done (parse_return S token)
    | KwInclude \<Rightarrow> as_done (parse_include S token)
    | KwExit \<Rightarrow> as_done (parse_exit S token)
    | KwFCTAnonArgs \<Rightarrow> as_con (parse_fct_anon_args S token)
    | KwNull \<Rightarrow> pret (Continue, with_start_token token SPrimitive)
    | KwTrue \<Rightarrow> pret (Continue, with_start_token token SPrimitive)
    | KwFalse \<Rightarrow> pret (Continue, with_start_token token SPrimitive)
    | KwACT _ \<Rightarrow> pret (Continue, with_start_token token SAttackCategory)
    | KwFunction \<Rightarrow> as_done (parse_function n S token)
    | KwContinue \<Rightarrow> as_done (parse_continue token)
    | KwBreak \<Rightarrow> as_done (parse_break token)
    | Undefined _ \<Rightarrow> perr (UnexpectedToken token))"

subsection \<open>Prefixes\<close>

definition prefix_binding_power :: "token \<Rightarrow> nat parser" where
  "prefix_binding_power token =
     (if tok_category token \<in> {Plus, Minus, Tilde, Bang} then pret 21 else perr (UnexpectedToken token))"

definition parse_variable :: "nat \<Rightarrow> statement_parser \<Rightarrow> token \<Rightarrow> (ending \<times> statement) parser" where
  "parse_variable n S token =
     (let plain = pret (Continue, with_start_end_token token token SVariable)
      in if \<not> is_undefined (tok_category token) then perr (UnexpectedToken token)
      else pbind ppeek (\<lambda>p. case p of
          None \<Rightarrow> plain
        | Some nt \<Rightarrow>
            if tok_category nt = LeftParen then
              pbind ptoken (\<lambda>_. pbind (parse_comma_group n S RightParen []) (\<lambda>(end', params). case end' of
                  Done e \<Rightarrow> pret (Continue, with_start_end_token token e (SCall (with_start_end_token nt e (SParameter params))))
                | Continue \<Rightarrow> perr (UnclosedToken nt)))
            else if tok_category nt = LeftBrace then
              pbind ptoken (\<lambda>_. pbind (S 0 (until RightBrace)) (\<lambda>(end', look). pbind (preturnable look) (\<lambda>lookup. case end' of
                  Done e \<Rightarrow> pret (Continue, with_start_end_token token e (SArray (Some lookup)))
                | Continue \<Rightarrow> perr (UnclosedToken token))))
            else plain))"

definition is_variable_or_array :: "statement_kind \<Rightarrow> bool" where
  "is_variable_or_array k = (case k of SVariable \<Rightarrow> True | SArray _ \<Rightarrow> True | _ \<Rightarrow> False)"

definition parse_prefix_assign_operator :: "nat \<Rightarrow> statement_parser \<Rightarrow> category \<Rightarrow> token \<Rightarrow> statement parser" where
  "parse_prefix_assign_operator n S assign token = pbind pexpect (\<lambda>nxt. pbind (parse_variable n S nxt) (\<lambda>(_, stmt).
     if \<not> is_variable_or_array (stmt_kind stmt) then perr (UnexpectedToken token)
     else pret (with_start_end_token token (stmt_end stmt) (SAssign assign AssignReturn stmt (without_token SNoOp)))))"

definition prefix_statement :: "nat \<Rightarrow> statement_parser \<Rightarrow> token \<Rightarrow> aborts \<Rightarrow> (ending \<times> statement) parser" where
  "prefix_statement n S token abort = (case operation_new token of
      None \<Rightarrow> perr (UnexpectedToken token)
    | Some op \<Rightarrow> (case op of
          OpOperator kind \<Rightarrow> pbind (prefix_binding_power token) (\<lambda>bp. pbind (S bp abort) (\<lambda>(end', right).
            pret (end', with_start_end_token token (stmt_end right) (SOperator kind [right]))))
        | OpPrimitive \<Rightarrow> pret (Continue, with_start_token token SPrimitive)
        | OpVariable \<Rightarrow> parse_variable n S token
        | OpGrouping _ \<Rightarrow> parse_grouping n S token
        | OpAssign c \<Rightarrow>
            if c = MinusMinus \<or> c = PlusPlus then as_con (parse_prefix_assign_operator n S c token)
            else perr (UnexpectedToken token)
        | OpKeyword kw \<Rightarrow> parse_keyword n S kw token
        | OpNoOp \<Rightarrow> pret (Done token, with_start_token token SNoOp)))"

subsection \<open>Infix operators\<close>

definition infix_binding_power :: "operation \<Rightarrow> (nat \<times> nat) option" where
  "infix_binding_power op = (case op of
      OpOperator c \<Rightarrow>
        (if c = StarStar then Some (22, 23)
         else if c \<in> {Star, Slash, Percent} then Some (20, 21)
         else if c \<in> {Plus, Minus} then Some (18, 19)
         else if c \<in> {LessLess, GreaterGreater, GreaterGreaterGreater} then Some (16, 17)
         else if c = Ampersand then Some (14, 15)
         else if c = Caret then Some (12, 13)
         else if c = Pipe then Some (10, 11)
         else if c \<in> {LessSign, LessEqual, GreaterSign, GreaterEqual, EqualEqual, BangEqual, GreaterLess, GreaterBangLess,
           EqualTilde, BangTilde} then Some (8, 9)
         else if c = AmpersandAmpersand then Some (6, 7)
         else if c = PipePipe then Some (4, 5)
         else if c = TimesX then Some (2, 3)
         else None)
    | OpAssign _ \<Rightarrow> Some (2, 3)
    | _ \<Rightarrow> None)"

definition infix_build :: "operation \<Rightarrow> token \<Rightarrow> statement \<Rightarrow> statement \<Rightarrow> (statement_kind \<Rightarrow> statement) \<Rightarrow> syntax_error + statement" where
  "infix_build op token lhs rhs build_stmt = (case op of
      OpAssign c \<Rightarrow>
        if c = DoublePoint then
          (case stmt_kind lhs of
             SVariable \<Rightarrow> Inr (build_stmt (SNamedParameter rhs))
           | _ \<Rightarrow> Inl (unexpected_statement lhs))
        else
          (case stmt_kind lhs of
             SVariable \<Rightarrow>
               let lhs' = (case stmt_kind rhs of
                     SParameter _ \<Rightarrow> with_start_end_token (stmt_start lhs) (stmt_end rhs) (SArray None)
                   | _ \<Rightarrow> lhs)
               in Inr (build_stmt (SAssign c AssignReturn lhs' rhs))
           | SArray _ \<Rightarrow> Inr (build_stmt (SAssign c AssignReturn lhs rhs))
           | _ \<Rightarrow> Inr (build_stmt (SOperator (tok_category token) [lhs, rhs])))
    | _ \<Rightarrow> Inr (build_stmt (SOperator (tok_category token) [lhs, rhs])))"

definition infix_statement :: "statement_parser \<Rightarrow> operation \<Rightarrow> nat \<Rightarrow> token \<Rightarrow> statement \<Rightarrow> aborts \<Rightarrow> (ending \<times> statement) parser" where
  "infix_statement S op right_bp token lhs abort = pbind (S right_bp abort) (\<lambda>(end', rhs).
     if stmt_kind rhs = SEoF then pret (Done token, rhs)
     else
       let end_token = (case end' of Done x \<Rightarrow> if abort (tok_category x) then x else stmt_end rhs | Continue \<Rightarrow> stmt_end rhs)
       in pbind (plift (infix_build op token lhs rhs (with_start_end_token (stmt_start lhs) end_token)))
            (\<lambda>stmt. pret (end', stmt)))"

datatype infix_state = NoInfix | ReturnContinue statement | ReturnEnd token statement | Unfinished statement

definition handle_infix :: "statement_parser \<Rightarrow> operation \<Rightarrow> nat \<Rightarrow> token \<Rightarrow> statement \<Rightarrow> aborts \<Rightarrow> infix_state parser" where
  "handle_infix S op min_bp token left abort = (case infix_binding_power op of
      None \<Rightarrow> pret NoInfix
    | Some (x, y) \<Rightarrow>
        if x < min_bp then pret (ReturnContinue left)
        else pbind ptoken (\<lambda>_. pbind (infix_statement S op y token left abort) (\<lambda>(end', nl). case end' of
            Done cat \<Rightarrow> pbind preset_depth (\<lambda>_. pret (ReturnEnd cat nl))
          | Continue \<Rightarrow> pret (Unfinished nl))))"

definition stmt_done :: "token \<Rightarrow> statement \<Rightarrow> (ending \<times> statement) parser" where
  "stmt_done token left = pret (Done token, set_end token left)"

fun infix_loop :: "nat \<Rightarrow> statement_parser \<Rightarrow> nat \<Rightarrow> aborts \<Rightarrow> statement \<Rightarrow> (ending \<times> statement) parser" where
  "infix_loop 0 S min_bp abort left = (\<lambda>_. None)"
| "infix_loop (Suc n) S min_bp abort left = pbind ppeek (\<lambda>p. case p of
      None \<Rightarrow> pret (Continue, left)
    | Some token \<Rightarrow>
        if abort (tok_category token) then pbind ptoken (\<lambda>_. pbind preset_depth (\<lambda>_. stmt_done token left))
        else (case operation_new token of
            None \<Rightarrow> perr (UnexpectedToken token)
          | Some op \<Rightarrow>
              if op = OpAssign PlusPlus \<or> op = OpAssign MinusMinus then
                pbind ptoken (\<lambda>_.
                  if is_variable_or_array (stmt_kind left) then
                    infix_loop n S min_bp abort (with_start_end_token (stmt_end left) token
                      (SAssign (tok_category token) ReturnAssign left (without_token SNoOp)))
                  else perr (UnexpectedToken token))
              else pbind (handle_infix S op min_bp token left abort) (\<lambda>st. case st of
                  NoInfix \<Rightarrow> perr (UnexpectedToken token)
                | ReturnContinue left' \<Rightarrow> pret (Continue, left')
                | ReturnEnd cat left' \<Rightarrow> stmt_done cat left'
                | Unfinished nl \<Rightarrow> infix_loop n S min_bp abort nl)))"

subsection \<open>Statements\<close>

definition first_statement :: "nat \<Rightarrow> statement_parser \<Rightarrow> aborts \<Rightarrow> (ending \<times> statement) parser" where
  "first_statement n S abort = pbind ptoken (\<lambda>t. case t of
      None \<Rightarrow> pret (Done token_default, without_token SEoF)
    | Some token \<Rightarrow>
        if is_faulty token then perr (UnexpectedToken token)
        else if abort (tok_category token) then stmt_done token (with_start_token token SNoOp)
        else prefix_statement n S token abort)"

definition penter :: "unit parser" where
  "penter l = (let d = lx_depth l + 1; l' = l\<lparr>lx_depth := d\<rparr>
     in Some (if d \<ge> MAX_DEPTH then Inl (MaxRecursionDepth MAX_DEPTH) else Inr (), l'))"

fun statement :: "nat \<Rightarrow> statement_parser" where
  "statement 0 min_bp abort = (\<lambda>_. None)"
| "statement (Suc n) min_bp abort = pbind penter (\<lambda>_.
     pbind (first_statement n (statement n) abort) (\<lambda>(state, left). case state of
         Done x \<Rightarrow> stmt_done x left
       | Continue \<Rightarrow> infix_loop n (statement n) min_bp abort left))"

text \<open>The iterator of the parser. The fuel is one more than there are tokens left.\<close>

definition lexer_next :: "lexer \<Rightarrow> (syntax_error + statement) option \<times> lexer" where
  "lexer_next l = (case statement (Suc (length (lx_tokens l))) 0 (until Semicolon) l of
      None \<Rightarrow> (None, l)
    | Some (result, l') \<Rightarrow>
        (if lx_depth l' \<ge> MAX_DEPTH then None
         else case result of
             Inl x \<Rightarrow> Some (Inl x)
           | Inr (end', stmt) \<Rightarrow>
               if stmt_kind stmt = SEoF then None
               else if stmt_kind stmt = SNoOp then Some (Inr stmt)
               else (case end' of Done _ \<Rightarrow> Some (Inr stmt) | Continue \<Rightarrow> Some (Inl (unexpected_statement stmt))), l'))"

end
