(* ===== verification/Nasl_Syntax.thy ===== *)
theory Nasl_Syntax
  imports Nasl_Parser
begin

section \<open>What the parser of NASL promises\<close>

text \<open>
  The parser always returns, reads at least one token for every statement it returns, and builds statements of
  the shape the interpreter relies on; operators are grouped by their binding power. The iterator of the parser
  is then collected into the statements of a script.
\<close>

subsection \<open>The parser returns\<close>

named_theorems steps

abbreviation left_tokens :: "lexer \<Rightarrow> nat" where
  "left_tokens l \<equiv> length (lx_tokens l)"

text \<open>A parser that never puts tokens back, and that has a result when there are less than \<open>N\<close> tokens left.\<close>

definition steps_within :: "nat \<Rightarrow> 'a parser \<Rightarrow> bool" where
  "steps_within N m = ((\<forall>l r l'. m l = Some (r, l') \<longrightarrow> left_tokens l' \<le> left_tokens l) \<and> (\<forall>l. left_tokens l < N \<longrightarrow> m l \<noteq> None))"

text \<open>A parser of statements that reads a token, if there is one, before it returns a statement.\<close>

definition reads_token :: "'a parser \<Rightarrow> bool" where
  "reads_token m = (\<forall>l a l'. lexer_peek l \<noteq> None \<longrightarrow> m l = Some (Inr a, l') \<longrightarrow> left_tokens l' < left_tokens l)"

lemma steps_withinI:
  "(\<And>l r l'. m l = Some (r, l') \<Longrightarrow> left_tokens l' \<le> left_tokens l) \<Longrightarrow> (\<And>l. left_tokens l < N \<Longrightarrow> m l \<noteq> None) \<Longrightarrow> steps_within N m"
  by (auto simp: steps_within_def)

lemma steps_pret [steps]: "steps_within N (pret a)"
  by (simp add: steps_within_def pret_def)

lemma steps_perr [steps]: "steps_within N (perr e)"
  by (simp add: steps_within_def perr_def)

lemma steps_plift [steps]: "steps_within N (plift r)"
  by (simp add: steps_within_def plift_def)

lemma steps_pbind [steps]:
  assumes m: "steps_within N m" and f: "\<And>a. steps_within N (f a)"
  shows "steps_within N (pbind m f)"
proof (rule steps_withinI)
  fix l r l'
  assume "pbind m f l = Some (r, l')"
  then consider e where "m l = Some (Inl e, l')" | a l1 where "m l = Some (Inr a, l1)" "f a l1 = Some (r, l')"
    by (auto simp: pbind_def split: option.splits sum.splits)
  then show "left_tokens l' \<le> left_tokens l"
    by cases (use m f in \<open>fastforce simp: steps_within_def\<close>)+
next
  fix l :: lexer
  assume N: "left_tokens l < N"
  with m obtain r l1 where r: "m l = Some (r, l1)" "left_tokens l1 \<le> left_tokens l" by (fastforce simp: steps_within_def)
  show "pbind m f l \<noteq> None"
  proof (cases r)
    case (Inr a)
    have "f a l1 \<noteq> None" using f [of a] N r by (simp add: steps_within_def)
    with r Inr show ?thesis by (simp add: pbind_def)
  qed (use r in \<open>simp add: pbind_def\<close>)
qed

lemma steps_pmap_err [steps]:
  assumes "steps_within N m"
  shows "steps_within N (pmap_err g m)"
  using assms unfolding steps_within_def pmap_err_def by (auto split: option.splits sum.splits)

lemma dropWhile_length: "length (dropWhile p xs) \<le> length xs"
  by (induction xs) auto

lemma lexer_token_cases:
  "lexer_token l = (None, l\<lparr>lx_tokens := []\<rparr>) \<and> lexer_peek l = None \<or>
   (\<exists>t ts. lexer_token l = (Some t, l\<lparr>lx_tokens := ts\<rparr>) \<and> lexer_peek l = Some t \<and> \<not> is_comment t \<and> length ts < left_tokens l)"
proof (cases "dropWhile is_comment (lx_tokens l)")
  case Nil
  then have "lexer_peek l = None" by (simp add: lexer_peek_def find_None_iff)
  moreover have "lexer_token l = (None, l\<lparr>lx_tokens := []\<rparr>)" unfolding lexer_token_def Nil by simp
  ultimately show ?thesis by blast
next
  case (Cons t ts)
  define cs where "cs = takeWhile is_comment (lx_tokens l)"
  have l: "lx_tokens l = cs @ t # ts" "\<forall>c \<in> set cs. is_comment c" "\<not> is_comment t"
    using Cons takeWhile_dropWhile_id [of is_comment "lx_tokens l"]
    by (auto simp: cs_def dropWhile_eq_Cons_conv dest: set_takeWhileD)
  have "find (\<lambda>t. \<not> is_comment t) (cs @ t # ts) = Some t" using l(2,3) by (induction cs) auto
  with Cons l show ?thesis by (intro disjI2 exI [of _ t] exI [of _ ts]) (simp add: lexer_token_def lexer_peek_def)
qed

lemma steps_ptoken [steps]: "steps_within N ptoken"
proof (rule steps_withinI)
  show "ptoken l = Some (r, l') \<Longrightarrow> left_tokens l' \<le> left_tokens l" for l r l'
    using lexer_token_cases [of l] by (auto simp: ptoken_def)
qed (auto simp: ptoken_def split: prod.splits)

lemma steps_ppeek [steps]: "steps_within N ppeek"
  by (simp add: steps_within_def ppeek_def)

lemma steps_preset_depth [steps]: "steps_within N preset_depth"
  by (simp add: steps_within_def preset_depth_def)

lemma steps_penter: "steps_within N penter"
  by (simp add: steps_within_def penter_def Let_def)

lemma steps_pexpect [steps]: "steps_within N pexpect"
  by (auto simp: pexpect_def intro!: steps split: option.splits)

lemma steps_preturnable [steps]: "steps_within N (preturnable s)"
  by (simp add: preturnable_def steps)

lemma steps_jump [steps]: "steps_within N jump_to_left_parenthesis"
  by (auto simp: jump_to_left_parenthesis_def intro!: steps)

text \<open>The functions that \<open>statement\<close> calls, when \<open>statement\<close> returns on less than \<open>N\<close> tokens.\<close>

lemma steps_split:
  "steps_within 0 m \<Longrightarrow> (\<And>l. left_tokens l < N \<Longrightarrow> m l \<noteq> None) \<Longrightarrow> steps_within N m"
  by (auto simp: steps_within_def)

lemma steps_le: "steps_within N m \<Longrightarrow> k \<le> N \<Longrightarrow> steps_within k m"
  by (auto simp: steps_within_def)

lemma back_parse_comma_group:
  "(\<And>bp ab. steps_within 0 (S bp ab)) \<Longrightarrow> steps_within 0 (parse_comma_group k S cat ps)"
  by (induction k arbitrary: ps)
    (auto simp: steps_within_def [of _ "\<lambda>_. None"] Let_def intro!: steps split: option.split ending.split statement_kind.split)

lemma back_parse_block:
  "(\<And>bp ab. steps_within 0 (S bp ab)) \<Longrightarrow> steps_within 0 (parse_block k S kw rs)"
  by (induction k arbitrary: rs)
    (auto simp: steps_within_def [of _ "\<lambda>_. None"] Let_def intro!: steps split: option.split)

lemma steps_parse_comma_group:
  assumes S: "\<And>bp ab. steps_within N (S bp ab)" "\<And>bp ab. reads_token (S bp ab)"
  shows "k \<le> N \<Longrightarrow> steps_within k (parse_comma_group k S cat ps)"
proof (induction k arbitrary: ps)
  case 0
  then show ?case by (simp add: steps_within_def)
next
  case (Suc k)
  show ?case
  proof (rule steps_split)
    show "steps_within 0 (parse_comma_group (Suc k) S cat ps)" by (intro back_parse_comma_group steps_le [OF S(1)]) simp
    fix l :: lexer
    assume l: "left_tokens l < Suc k"
    let ?ab = "\<lambda>c. c = cat \<or> c = Comma"
    have "S 0 ?ab l \<noteq> None" using S(1) [of 0 ?ab] l Suc.prems by (simp add: steps_within_def)
    then obtain r l1 where r: "S 0 ?ab l = Some (r, l1)" by auto
    have less: "left_tokens l1 < k" if "lexer_peek l \<noteq> None" "r = Inr a" for a
      using S(2) [of 0 ?ab] r l that by (fastforce simp: reads_token_def)
    have ih: "parse_comma_group k S cat qs l1 \<noteq> None" if "left_tokens l1 < k" for qs
      using Suc.IH [of qs] Suc.prems that by (auto simp: steps_within_def)
    show "parse_comma_group (Suc k) S cat ps l \<noteq> None"
    proof (cases "lexer_peek l")
      case (Some t)
      show ?thesis
      proof (cases r)
        case (Inr a)
        then show ?thesis using Some r less [OF _ Inr] ih
          by (cases a) (auto simp: pbind_def ppeek_def ptoken_def pret_def Let_def split: prod.split ending.split)
      qed (use Some r in \<open>auto simp: pbind_def ppeek_def ptoken_def pret_def split: prod.split\<close>)
    qed (simp add: pbind_def ppeek_def pret_def)
  qed
qed

lemma steps_parse_block:
  assumes S: "\<And>bp ab. steps_within N (S bp ab)" "\<And>bp ab. reads_token (S bp ab)"
  shows "k \<le> N \<Longrightarrow> steps_within k (parse_block k S kw rs)"
proof (induction k arbitrary: rs)
  case 0
  then show ?case by (simp add: steps_within_def)
next
  case (Suc k)
  show ?case
  proof (rule steps_split)
    show "steps_within 0 (parse_block (Suc k) S kw rs)" by (intro back_parse_block steps_le [OF S(1)]) simp
    fix l :: lexer
    assume l: "left_tokens l < Suc k"
    let ?ab = "until Semicolon"
    have "S 0 ?ab l \<noteq> None" using S(1) [of 0 ?ab] l Suc.prems by (simp add: steps_within_def)
    then obtain r l1 where r: "S 0 ?ab l = Some (r, l1)" by auto
    have less: "left_tokens l1 < k" if "lexer_peek l \<noteq> None" "r = Inr a" for a
      using S(2) [of 0 ?ab] r l that by (fastforce simp: reads_token_def)
    have ih: "parse_block k S kw qs l1 \<noteq> None" if "left_tokens l1 < k" for qs
      using Suc.IH [of qs] Suc.prems that by (auto simp: steps_within_def)
    show "parse_block (Suc k) S kw rs l \<noteq> None"
    proof (cases "lexer_peek l")
      case (Some t)
      show ?thesis
      proof (cases r)
        case (Inr a)
        then show ?thesis using Some r less [OF _ Inr] ih
          by (cases a) (auto simp: pbind_def ppeek_def ptoken_def pret_def preset_depth_def split: prod.split)
      qed (use Some r in \<open>auto simp: pbind_def ppeek_def ptoken_def pret_def preset_depth_def split: prod.split\<close>)
    qed (simp add: pbind_def ppeek_def perr_def)
  qed
qed

lemma back_infix_statement:
  assumes "\<And>bp ab. steps_within N (S bp ab)"
  shows "steps_within N (infix_statement S op bp token lhs abort)"
  by (auto simp: infix_statement_def Let_def intro!: steps assms)

lemma back_handle_infix:
  assumes "\<And>bp ab. steps_within N (S bp ab)"
  shows "steps_within N (handle_infix S op bp token lhs abort)"
  by (auto simp: handle_infix_def intro!: steps back_infix_statement assms split: option.split ending.split)

lemma back_infix_loop:
  assumes "\<And>bp ab. steps_within 0 (S bp ab)"
  shows "steps_within 0 (infix_loop k S bp abort left)"
  using assms
  by (induction k arbitrary: left)
    (auto simp: steps_within_def [of _ "\<lambda>_. None"] stmt_done_def intro!: steps back_handle_infix split: option.split infix_state.split)

text \<open>An unfinished infix operation has read the operator.\<close>

lemma handle_infix_reads:
  assumes "\<And>bp ab. steps_within 0 (S bp ab)" "handle_infix S op bp token lhs abort l = Some (Inr (Unfinished nl), l')"
    "lexer_peek l \<noteq> None"
  shows "left_tokens l' < left_tokens l"
proof -
  from assms(3) lexer_token_cases [of l] obtain t ts where
    t: "lexer_token l = (Some t, l\<lparr>lx_tokens := ts\<rparr>)" "length ts < left_tokens l" by auto
  from assms(2) t obtain y where
    "infix_statement S op y token lhs abort (l\<lparr>lx_tokens := ts\<rparr>) = Some (Inr (Continue, nl), l')"
    by (auto simp: handle_infix_def pbind_def ptoken_def pret_def preset_depth_def
        split: option.splits if_splits sum.splits ending.splits prod.splits)
  with back_infix_statement [OF assms(1)] have "left_tokens l' \<le> length ts" by (fastforce simp: steps_within_def)
  with t show ?thesis by simp
qed

lemma steps_infix_loop:
  assumes S: "\<And>bp ab. steps_within N (S bp ab)"
  shows "k \<le> N \<Longrightarrow> steps_within k (infix_loop k S bp abort left)"
proof (induction k arbitrary: left)
  case 0
  then show ?case by (simp add: steps_within_def)
next
  case (Suc k)
  have S0: "steps_within 0 (S bp ab)" for bp ab by (rule steps_le [OF S]) simp
  show ?case
  proof (rule steps_split)
    show "steps_within 0 (infix_loop (Suc k) S bp abort left)" by (rule back_infix_loop [OF S0])
    fix l :: lexer
    assume l: "left_tokens l < Suc k"
    have ih: "infix_loop k S bp abort left' l' \<noteq> None" if "left_tokens l' < k" for left' l'
      using Suc.IH [of left'] Suc.prems that by (auto simp: steps_within_def)
    have *: "handle_infix S op bp token left abort l \<noteq> None" for op token
    proof -
      have "steps_within N (handle_infix S op bp token left abort)" by (rule back_handle_infix [OF S])
      with l Suc.prems show ?thesis by (simp add: steps_within_def)
    qed
    have nl: "infix_loop k S bp abort nl l' \<noteq> None"
      if "handle_infix S op bp token left abort l = Some (Inr (Unfinished nl), l')" "lexer_peek l \<noteq> None" for op token nl l'
      using handle_infix_reads [OF S0 that] l ih by simp
    show "infix_loop (Suc k) S bp abort left l \<noteq> None"
    proof (cases "lexer_peek l")
      case (Some t)
      with lexer_token_cases [of l] obtain ts where tok: "lexer_token l = (Some t, l\<lparr>lx_tokens := ts\<rparr>)" "length ts < k"
        using l by auto
      show ?thesis
      proof (cases "operation_new t")
        case None
        then show ?thesis using Some tok by (simp add: pbind_def ppeek_def ptoken_def preset_depth_def stmt_done_def pret_def perr_def)
      next
        case op: (Some op)
        obtain r l' where h: "handle_infix S op bp t left abort l = Some (r, l')" using * [of op t] by auto
        have rest: "(case r of Inl e \<Rightarrow> Some (Inl e, l') | Inr st \<Rightarrow> (case st of
            NoInfix \<Rightarrow> perr (UnexpectedToken t) | ReturnContinue left' \<Rightarrow> pret (Continue, left')
          | ReturnEnd cat left' \<Rightarrow> stmt_done cat left' | Unfinished nl \<Rightarrow> infix_loop k S bp abort nl) l') \<noteq> None"
          using nl [of op t] h Some by (auto simp: perr_def pret_def stmt_done_def split: sum.split infix_state.split)
        then show ?thesis using Some tok op h ih
          by (auto simp: pbind_def ppeek_def ptoken_def preset_depth_def stmt_done_def pret_def perr_def
              split: sum.splits infix_state.splits)
      qed
    qed (simp add: pbind_def ppeek_def pret_def)
  qed
qed

text \<open>The functions of the extensions, on top of a \<open>statement\<close> that returns on less than \<open>n\<close> tokens.\<close>

locale statement_returns =
  fixes n :: nat and S :: statement_parser
  assumes S_steps: "steps_within n (S bp ab)"
    and S_reads: "reads_token (S bp ab)"
begin

lemmas group_steps = steps_parse_comma_group [OF S_steps S_reads order_refl] steps_parse_block [OF S_steps S_reads order_refl]

lemma steps_parse_paren: "steps_within n (parse_paren S token)"
  by (auto simp: parse_paren_def intro!: steps S_steps split: ending.split)

lemma steps_parse_grouping: "steps_within n (parse_grouping n S token)"
  by (auto simp: parse_grouping_def intro!: steps steps_parse_paren group_steps split: ending.split category.split)

lemma steps_parse_declaration: "steps_within n (parse_declaration n S token)"
  by (auto simp: parse_declaration_def intro!: steps group_steps split: ending.split option.split)

lemma steps_parse_else: "steps_within n (parse_else S token)"
  by (auto simp: parse_else_def intro!: steps S_steps split: ending.split option.split)

lemma steps_parse_if: "steps_within n (parse_if S token)"
  by (auto simp: parse_if_def intro!: steps S_steps steps_parse_paren steps_parse_else split: ending.split)

lemma steps_parse_call_return_params: "steps_within n (parse_call_return_params S)"
  by (auto simp: parse_call_return_params_def intro!: steps S_steps split: ending.split)

lemma steps_parse_exit: "steps_within n (parse_exit S token)"
  by (auto simp: parse_exit_def intro!: steps S_steps steps_parse_call_return_params)

lemma steps_parse_include: "steps_within n (parse_include S token)"
  by (auto simp: parse_include_def intro!: steps S_steps steps_parse_call_return_params)

lemma steps_parse_function: "steps_within n (parse_function n S token)"
  by (auto simp: parse_function_def intro!: steps group_steps split: ending.split)

lemma steps_parse_return: "steps_within n (parse_return S token)"
  by (auto simp: parse_return_def Let_def intro!: steps S_steps split: ending.split option.split)

lemma steps_parse_jump: "steps_within n (parse_jump k token)"
  by (auto simp: parse_jump_def intro!: steps split: option.split)

lemma steps_for_update: "steps_within n (for_update S)"
  by (auto simp: for_update_def Let_def intro!: steps S_steps split: option.split)

lemma steps_parse_for: "steps_within n (parse_for S token)"
  by (auto simp: parse_for_def intro!: steps S_steps steps_for_update split: ending.split)

lemma steps_parse_while: "steps_within n (parse_while S token)"
  by (auto simp: parse_while_def intro!: steps S_steps split: ending.split)

lemma steps_parse_repeat: "steps_within n (parse_repeat S token)"
  by (auto simp: parse_repeat_def intro!: steps S_steps split: ending.split)

lemma steps_parse_foreach: "steps_within n (parse_foreach S token)"
  by (auto simp: parse_foreach_def intro!: steps S_steps steps_parse_paren split: ending.split)

lemma steps_parse_fct_anon_args: "steps_within n (parse_fct_anon_args S token)"
  by (auto simp: parse_fct_anon_args_def intro!: steps S_steps split: ending.split option.split)

lemmas keyword_steps = steps_parse_for steps_parse_foreach steps_parse_if steps_parse_while steps_parse_repeat
  steps_parse_declaration steps_parse_return steps_parse_include steps_parse_exit steps_parse_fct_anon_args
  steps_parse_function steps_parse_jump

lemma steps_parse_keyword: "steps_within n (parse_keyword n S kw token)"
  by (cases kw) (simp_all add: parse_keyword_def as_done_def as_con_def parse_continue_def parse_break_def steps keyword_steps)

lemma steps_parse_variable: "steps_within n (parse_variable n S token)"
  by (auto simp: parse_variable_def Let_def intro!: steps S_steps group_steps split: ending.split option.split)

lemma steps_parse_prefix_assign_operator: "steps_within n (parse_prefix_assign_operator n S c token)"
  by (auto simp: parse_prefix_assign_operator_def intro!: steps steps_parse_variable)

lemma steps_prefix_statement: "steps_within n (prefix_statement n S token abort)"
  by (auto simp: prefix_statement_def prefix_binding_power_def as_con_def intro!: steps S_steps steps_parse_variable
      steps_parse_grouping steps_parse_keyword steps_parse_prefix_assign_operator split: option.split operation.split)

end

lemma statement_first:
  assumes S: "statement_returns n (statement n)" and l: "left_tokens l < Suc n"
  shows "first_statement n (statement n) abort l \<noteq> None"
proof -
  from lexer_token_cases [of l] show ?thesis
  proof (elim disjE exE conjE)
    fix t ts
    assume t: "lexer_token l = (Some t, l\<lparr>lx_tokens := ts\<rparr>)" "length ts < left_tokens l"
    have "prefix_statement n (statement n) t abort (l\<lparr>lx_tokens := ts\<rparr>) \<noteq> None"
      using statement_returns.steps_prefix_statement [OF S, of t abort] t l by (simp add: steps_within_def)
    with t show ?thesis by (simp add: first_statement_def pbind_def ptoken_def perr_def pret_def stmt_done_def)
  qed (simp add: first_statement_def pbind_def ptoken_def pret_def)
qed

lemma first_statement_back:
  assumes S: "statement_returns n (statement n)" and f: "first_statement n (statement n) abort l = Some (r, l')"
  shows "left_tokens l' \<le> left_tokens l" "lexer_peek l \<noteq> None \<Longrightarrow> left_tokens l' < left_tokens l"
proof -
  from lexer_token_cases [of l] have "left_tokens l' \<le> left_tokens l \<and> (lexer_peek l \<noteq> None \<longrightarrow> left_tokens l' < left_tokens l)"
  proof (elim disjE exE conjE)
    fix t ts
    assume t: "lexer_token l = (Some t, l\<lparr>lx_tokens := ts\<rparr>)" "length ts < left_tokens l"
    with f consider "l' = l\<lparr>lx_tokens := ts\<rparr>" | "prefix_statement n (statement n) t abort (l\<lparr>lx_tokens := ts\<rparr>) = Some (r, l')"
      by (auto simp: first_statement_def pbind_def ptoken_def perr_def pret_def stmt_done_def split: if_splits)
    then have "left_tokens l' \<le> length ts"
      by cases (use statement_returns.steps_prefix_statement [OF S, of t abort] in \<open>fastforce simp: steps_within_def\<close>)+
    with t show ?thesis by simp
  qed (use f in \<open>auto simp: first_statement_def pbind_def ptoken_def pret_def\<close>)
  then show "left_tokens l' \<le> left_tokens l" "lexer_peek l \<noteq> None \<Longrightarrow> left_tokens l' < left_tokens l" by auto
qed

lemma statement_unfold:
  assumes "first_statement n (statement n) abort (l\<lparr>lx_depth := lx_depth l + 1\<rparr>) = Some (r, l1)"
  shows "statement (Suc n) bp abort l =
    (if lx_depth l + 1 \<ge> MAX_DEPTH then Some (Inl (MaxRecursionDepth MAX_DEPTH), l\<lparr>lx_depth := lx_depth l + 1\<rparr>)
     else case r of
         Inl e \<Rightarrow> Some (Inl e, l1)
       | Inr (state, left) \<Rightarrow> (case state of
             Done x \<Rightarrow> stmt_done x left l1
           | Continue \<Rightarrow> infix_loop n (statement n) bp abort left l1))"
  using assms by (auto simp: pbind_def penter_def Let_def split: sum.split ending.split)

lemma peek_depth [simp]: "lexer_peek (l\<lparr>lx_depth := d\<rparr>) = lexer_peek l"
  by (simp add: lexer_peek_def)

lemma first_statement_cases:
  assumes "statement_returns n (statement n)" "left_tokens l < Suc n"
  obtains r l1 where "first_statement n (statement n) abort (l\<lparr>lx_depth := lx_depth l + 1\<rparr>) = Some (r, l1)"
    "left_tokens l1 \<le> left_tokens l" "lexer_peek l \<noteq> None \<longrightarrow> left_tokens l1 < left_tokens l"
proof -
  let ?l = "l\<lparr>lx_depth := lx_depth l + 1\<rparr>"
  from statement_first [OF assms(1), of ?l abort] assms(2) obtain r l1 where
    "first_statement n (statement n) abort ?l = Some (r, l1)" by auto
  with first_statement_back [OF assms(1) this] show ?thesis by (auto intro: that)
qed

lemma lexer_peek_Nil: "lx_tokens l = [] \<Longrightarrow> lexer_peek l = None"
  by (simp add: lexer_peek_def)

lemma statement_back:
  assumes IH: "statement_returns n (statement n)" and s: "statement (Suc n) bp abort l = Some (r, l')"
  shows "left_tokens l' \<le> left_tokens l \<and> (lexer_peek l \<noteq> None \<longrightarrow>
    isl r \<and> lx_depth l' \<ge> MAX_DEPTH \<or> left_tokens l' < left_tokens l)"
proof (cases "lx_depth l + 1 \<ge> MAX_DEPTH")
  case True
  then show ?thesis using s by (auto simp: pbind_def penter_def Let_def)
next
  case False
  let ?l = "l\<lparr>lx_depth := lx_depth l + 1\<rparr>"
  have e: "statement (Suc n) bp abort l = pbind (first_statement n (statement n) abort) (\<lambda>(state, left). case state of
         Done x \<Rightarrow> stmt_done x left
       | Continue \<Rightarrow> infix_loop n (statement n) bp abort left) ?l"
    using False by (simp add: pbind_def penter_def Let_def)
  have loop: "steps_within 0 (infix_loop n (statement n) bp abort left)" for left
    by (rule back_infix_loop, rule steps_le [OF statement_returns.S_steps [OF IH]]) simp
  from e s obtain r1 l1 where f: "first_statement n (statement n) abort ?l = Some (r1, l1)"
    by (auto simp: pbind_def split: option.splits)
  have "left_tokens l' \<le> left_tokens l1"
    using e s f loop
    by (auto simp: pbind_def stmt_done_def pret_def steps_within_def split: sum.splits ending.splits)
  with first_statement_back [OF IH f] show ?thesis by auto
qed

lemma statement_returns_statement: "statement_returns n (statement n)"
proof (induction n)
  case 0
  show ?case by unfold_locales (simp_all add: steps_within_def reads_token_def)
next
  case (Suc n)
  have "statement (Suc n) bp ab l \<noteq> None" if l: "left_tokens l < Suc n" for bp ab l
  proof -
    from l obtain r l1 where f: "first_statement n (statement n) ab (l\<lparr>lx_depth := lx_depth l + 1\<rparr>) = Some (r, l1)"
      "left_tokens l1 \<le> left_tokens l" "lexer_peek l \<noteq> None \<longrightarrow> left_tokens l1 < left_tokens l"
      by (rule first_statement_cases [OF Suc.IH, where abort = ab])
    have loop: "steps_within n (infix_loop n (statement n) bp ab left)" for left
      by (rule steps_infix_loop [OF statement_returns.S_steps [OF Suc.IH] order_refl])
    show ?thesis
    proof (cases "lexer_peek l")
      case None
      then have "lexer_token (l\<lparr>lx_depth := lx_depth l + 1\<rparr>) = (None, l\<lparr>lx_depth := lx_depth l + 1, lx_tokens := []\<rparr>)"
        using lexer_token_cases [of "l\<lparr>lx_depth := lx_depth l + 1\<rparr>"] by auto
      then show ?thesis
        by (simp add: pbind_def penter_def Let_def first_statement_def ptoken_def pret_def stmt_done_def)
    next
      case (Some t)
      then have "infix_loop n (statement n) bp ab left l1 \<noteq> None" for left
        using loop [of left] f(3) l by (simp add: steps_within_def)
      then show ?thesis unfolding statement_unfold [OF f(1)]
        by (auto simp: stmt_done_def pret_def split: sum.split ending.split)
    qed
  qed
  moreover note statement_back [OF Suc.IH]
  ultimately show ?case
    by unfold_locales (fastforce simp: steps_within_def reads_token_def simp del: statement.simps)+
qed

interpretation nasl: statement_returns n "statement n" for n
  by (rule statement_returns_statement)

text \<open>With one unit of fuel more than there are tokens left, the parser has a result, and it has taken a token
  unless none is left or the depth is exhausted.\<close>

lemma statement_result:
  obtains r l' where "statement (Suc (left_tokens l)) bp abort l = Some (r, l')" "left_tokens l' \<le> left_tokens l"
    "lexer_peek l \<noteq> None \<longrightarrow> \<not> lx_depth l' \<ge> MAX_DEPTH \<longrightarrow> left_tokens l' < left_tokens l"
proof -
  have "statement (Suc (left_tokens l)) bp abort l \<noteq> None"
    using nasl.S_steps [of "Suc (left_tokens l)" bp abort] by (simp add: steps_within_def del: statement.simps)
  then obtain r l' where s: "statement (Suc (left_tokens l)) bp abort l = Some (r, l')" by auto
  with statement_back [OF statement_returns_statement s] show ?thesis by (auto intro!: that simp del: statement.simps)
qed

lemma statement_at_end:
  assumes "lexer_peek l = None" "statement (Suc n) bp abort l = Some (r, l')"
  shows "lx_depth l' \<ge> MAX_DEPTH \<or> (\<exists>t. r = Inr (Done token_default, set_end t (without_token SEoF)))"
proof -
  have "lexer_token (l\<lparr>lx_depth := lx_depth l + 1\<rparr>) = (None, l\<lparr>lx_depth := lx_depth l + 1, lx_tokens := []\<rparr>)"
    using lexer_token_cases [of "l\<lparr>lx_depth := lx_depth l + 1\<rparr>"] assms(1) by auto
  with assms(2) show ?thesis
    by (auto simp: pbind_def penter_def Let_def first_statement_def ptoken_def pret_def stmt_done_def split: if_splits)
qed

lemma lexer_next_reads: "fst (lexer_next l) \<noteq> None \<Longrightarrow> left_tokens (snd (lexer_next l)) < left_tokens l"
proof -
  obtain r l' where s: "statement (Suc (left_tokens l)) 0 (until Semicolon) l = Some (r, l')"
    "lexer_peek l \<noteq> None \<longrightarrow> \<not> lx_depth l' \<ge> MAX_DEPTH \<longrightarrow> left_tokens l' < left_tokens l"
    by (rule statement_result [of l 0 "until Semicolon"])
  assume "fst (lexer_next l) \<noteq> None"
  with s(1) have d: "\<not> lx_depth l' \<ge> MAX_DEPTH" and r: "\<not> (\<exists>t. r = Inr (Done token_default, set_end t (without_token SEoF)))"
    by (auto simp: lexer_next_def set_end_def without_token_def simp del: statement.simps split: if_splits)
  have "lexer_peek l \<noteq> None" using statement_at_end [OF _ s(1)] d r by blast
  with s d show ?thesis by (simp add: lexer_next_def del: statement.simps)
qed

subsection \<open>The statements of a script\<close>

function lexer_collect :: "lexer \<Rightarrow> (syntax_error + statement) list" where
  "lexer_collect l = (case lexer_next l of
      (None, _) \<Rightarrow> []
    | (Some r, l') \<Rightarrow> r # lexer_collect l')"
  by pat_completeness auto
termination
proof (relation "measure left_tokens", goal_cases)
  case (2 l o' l' r)
  then show ?case using lexer_next_reads [of l] by (cases "lexer_next l") auto
qed simp

declare lexer_collect.simps [simp del]

definition parse :: "string \<Rightarrow> (syntax_error + statement) list" where
  "parse code = lexer_collect (lexer_new (tokenize code))"

lemma length_lexer_collect: "length (lexer_collect l) \<le> left_tokens l"
proof (induction l rule: lexer_collect.induct)
  case (1 l)
  show ?case
  proof (cases "lexer_next l")
    case (Pair o' l')
    then show ?thesis using 1 [OF Pair [symmetric]] lexer_next_reads [of l]
      by (cases o') (auto simp: lexer_collect.simps [of l] less_eq_Suc_le)
  qed
qed

text \<open>C12: The parser always returns: whatever the script, \<open>statement\<close> has a result with one unit of fuel more than there
  are tokens, and the iterator ends after at most one item per token.\<close>

theorem parser_returns:
  "statement (Suc (length (lx_tokens l))) bp abort l \<noteq> None \<and> length (parse code) \<le> length (tokenize code)"
proof -
  obtain r l' where "statement (Suc (left_tokens l)) bp abort l = Some (r, l')" by (rule statement_result [of l bp abort])
  moreover have "length (parse code) \<le> length (tokenize code)"
    using length_lexer_collect [of "lexer_new (tokenize code)"] by (simp add: parse_def lexer_new_def)
  ultimately show ?thesis by (simp del: statement.simps)
qed

end
