(* ===== verification/Nasl_Interpreter.thy ===== *)
theory Nasl_Interpreter
  imports Nasl_Error Nasl_Syntax "HOL-Library.Sublist"
begin

section \<open>The interpreter of NASL\<close>

text \<open>
  \<^verbatim>\<open>rust/src/nasl/interpreter\<close>: \<^verbatim>\<open>interpreter.rs\<close>, \<^verbatim>\<open>operator.rs\<close>, \<^verbatim>\<open>assign.rs\<close>, \<^verbatim>\<open>loop_extension.rs\<close>, \<^verbatim>\<open>call.rs\<close>,
  \<^verbatim>\<open>declare.rs\<close> and \<^verbatim>\<open>code_interpreter.rs\<close>, and \<^verbatim>\<open>Executor\<close> of \<^verbatim>\<open>utils/executor/mod.rs\<close>. A run is a function of the
  state of the interpreter: its outcome is a value, an error, or a panic. The built-in functions, the loader of
  scripts and the \<^verbatim>\<open>regex\<close> crate are in the record \<open>context_config\<close>; what the built-in functions change (storage,
  connections) is the component \<open>world\<close> of the state.

  A script may run forever, so \<^verbatim>\<open>resolve\<close> is a function of the depth of the recursion and of the iterations it may
  make; \<^const>\<open>None\<close> stands for a run that has not ended then. Integer arithmetic is that of a release build: it
  wraps, a shift uses the low bits of its right side, and only a division panics.
\<close>

unbundle bit_operations_syntax

subsection \<open>Runs\<close>

text \<open>A panic: an \<^verbatim>\<open>unreachable!\<close>, a division, the index of an array, an index into the data of the interpreter, or a
  built-in function that panics.\<close>

datatype crash = Unreachable | Arithmetic | ArrayIndex | OutOfRange | BuiltinPanic

datatype (plugins only: code size) 'a outcome = Crash crash | Fail interpret_error | Value 'a

type_synonym position = "nat list"

record run_specific =
  rs_register :: register
  rs_position :: position
  rs_skip :: "(position \<times> nasl_value) option"

record 'w interpreter =
  run_specifics :: "run_specific list"
  run_index :: nat
  world :: 'w

type_synonym ('w, 'a) run = "'w interpreter \<Rightarrow> ('a outcome \<times> 'w interpreter) option"

type_synonym 'w builtin = "register \<Rightarrow> 'w \<Rightarrow> (function_error_kind + nasl_value) exec \<times> 'w"

record 'w context_config =
  cx_sets :: "(string \<Rightarrow> 'w builtin option) list"
  cx_load :: "string \<Rightarrow> load_error + string"
  cx_regex :: "string \<Rightarrow> (string \<Rightarrow> bool) option"

definition rret :: "'a \<Rightarrow> ('w, 'a) run" where
  "rret a = (\<lambda>s. Some (Value a, s))"

definition rfail :: "interpret_error \<Rightarrow> ('w, 'a) run" where
  "rfail e = (\<lambda>s. Some (Fail e, s))"

definition rcrash :: "crash \<Rightarrow> ('w, 'a) run" where
  "rcrash c = (\<lambda>s. Some (Crash c, s))"

definition rbind :: "('w, 'a) run \<Rightarrow> ('a \<Rightarrow> ('w, 'b) run) \<Rightarrow> ('w, 'b) run" where
  "rbind m f = (\<lambda>s. case m s of
      None \<Rightarrow> None
    | Some (Value a, s') \<Rightarrow> f a s'
    | Some (Fail e, s') \<Rightarrow> Some (Fail e, s')
    | Some (Crash c, s') \<Rightarrow> Some (Crash c, s'))"

text \<open>Runs \<open>m\<close>, changes an error, and then runs \<open>k\<close> whether there was an error or not.\<close>

definition rensure :: "(interpret_error \<Rightarrow> interpret_error) \<Rightarrow> ('w, 'a) run \<Rightarrow> ('w, unit) run \<Rightarrow> ('w, 'a) run" where
  "rensure g m k = (\<lambda>s. case m s of
      None \<Rightarrow> None
    | Some (Value a, s') \<Rightarrow> rbind k (\<lambda>_. rret a) s'
    | Some (Fail e, s') \<Rightarrow> rbind k (\<lambda>_. rfail (g e)) s'
    | Some (Crash c, s') \<Rightarrow> Some (Crash c, s'))"

definition rlift :: "crash \<Rightarrow> 'a exec \<Rightarrow> ('w, 'a) run" where
  "rlift c x = (case x of Panic \<Rightarrow> rcrash c | Ret a \<Rightarrow> rret a)"

definition rresult :: "(interpret_error + 'a) \<Rightarrow> ('w, 'a) run" where
  "rresult r = (case r of Inl e \<Rightarrow> rfail e | Inr a \<Rightarrow> rret a)"

text \<open>The data of the current run, \<^verbatim>\<open>self.run_specific[self.index]\<close>.\<close>

definition get_run :: "('w, run_specific) run" where
  "get_run = (\<lambda>s. if run_index s < length (run_specifics s) then Some (Value (run_specifics s ! run_index s), s)
     else Some (Crash OutOfRange, s))"

definition put_run :: "run_specific \<Rightarrow> ('w, unit) run" where
  "put_run rs = (\<lambda>s. if run_index s < length (run_specifics s)
     then Some (Value (), s\<lparr>run_specifics := (run_specifics s)[run_index s := rs]\<rparr>) else Some (Crash OutOfRange, s))"

definition change_run :: "(run_specific \<Rightarrow> run_specific) \<Rightarrow> ('w, unit) run" where
  "change_run f = rbind get_run (\<lambda>rs. put_run (f rs))"

definition change_register :: "(register \<Rightarrow> register) \<Rightarrow> ('w, unit) run" where
  "change_register f = change_run (\<lambda>rs. rs\<lparr>rs_register := f (rs_register rs)\<rparr>)"

definition try_register :: "(register \<Rightarrow> register exec) \<Rightarrow> ('w, unit) run" where
  "try_register f = rbind get_run (\<lambda>rs. rbind (rlift OutOfRange (f (rs_register rs))) (\<lambda>r. put_run (rs\<lparr>rs_register := r\<rparr>)))"

definition read_register :: "(register \<Rightarrow> 'a exec) \<Rightarrow> ('w, 'a) run" where
  "read_register f = rbind get_run (\<lambda>rs. rlift OutOfRange (f (rs_register rs)))"

subsection \<open>Positions\<close>

definition position_new :: "nat \<Rightarrow> position" where
  "position_new index = [index]"

definition position_up :: "position \<Rightarrow> position" where
  "position_up p = p @ [0]"

definition position_down :: "position \<Rightarrow> position" where
  "position_down p = butlast p"

definition root_index :: "position \<Rightarrow> nat" where
  "root_index p = (case p of [] \<Rightarrow> 0 | i # _ \<Rightarrow> i)"

definition current_init_statement :: "position \<Rightarrow> position" where
  "current_init_statement p = [root_index p]"

definition interpreter_new :: "register \<Rightarrow> 'w \<Rightarrow> 'w interpreter" where
  "interpreter_new r w = \<lparr>run_specifics = [\<lparr>rs_register = r, rs_position = position_new 0, rs_skip = None\<rparr>], run_index = 0, world = w\<rparr>"

definition up :: "('w, unit) run" where
  "up = change_run (\<lambda>rs. rs\<lparr>rs_position := position_up (rs_position rs)\<rparr>)"

definition down :: "('w, unit) run" where
  "down = change_run (\<lambda>rs. rs\<lparr>rs_position := position_down (rs_position rs)\<rparr>)"

definition identifier_of :: "token \<Rightarrow> interpret_error + string" where
  "identifier_of t = (case tok_category t of
      Identifier (Undefined x) \<Rightarrow> Inr x
    | cat \<Rightarrow> Inl (wrong_category cat))"

type_synonym 'w resolver = "statement \<Rightarrow> ('w, nasl_value) run"

subsection \<open>Operators\<close>

text \<open>Division and remainder of \<^verbatim>\<open>i64\<close>: towards zero, with a panic for a zero divisor and for an overflow.\<close>

definition i64_division :: "(int \<Rightarrow> int \<Rightarrow> int) \<Rightarrow> 64 word \<Rightarrow> 64 word \<Rightarrow> 64 word exec" where
  "i64_division f a b =
     (if b = 0 \<or> sint a = - (2 ^ 63) \<and> sint b = -1 then Panic else Ret (word_of_int (f (sint a) (sint b))))"

definition trunc_div :: "int \<Rightarrow> int \<Rightarrow> int" where
  "trunc_div a b = sgn a * sgn b * (\<bar>a\<bar> div \<bar>b\<bar>)"

definition trunc_rem :: "int \<Rightarrow> int \<Rightarrow> int" where
  "trunc_rem a b = sgn a * (\<bar>a\<bar> mod \<bar>b\<bar>)"

definition i64_shl :: "64 word \<Rightarrow> 64 word \<Rightarrow> 64 word" where
  "i64_shl a b = push_bit (unat b mod 64) a"

definition i64_shr :: "64 word \<Rightarrow> 64 word \<Rightarrow> 64 word" where
  "i64_shr a b = signed_drop_bit (unat b mod 64) a"

definition i64_less :: "64 word \<Rightarrow> 64 word \<Rightarrow> bool" where
  "i64_less a b = (sint a < sint b)"

definition as_i64 :: "nasl_value \<Rightarrow> nasl_value option \<Rightarrow> 64 word \<times> 64 word" where
  "as_i64 left right = (value_i64 left, case right of Some x \<Rightarrow> value_i64 x | None \<Rightarrow> 0)"

definition text_or_empty :: "nasl_value option \<Rightarrow> string" where
  "text_or_empty v = (case v of Some x \<Rightarrow> value_display x | None \<Rightarrow> [])"

definition bool_or_false :: "nasl_value option \<Rightarrow> bool" where
  "bool_or_false v = (case v of Some x \<Rightarrow> value_bool x | None \<Rightarrow> False)"

text \<open>\<^verbatim>\<open>replacen(pattern, "", 1)\<close>\<close>

fun remove_first :: "string \<Rightarrow> string \<Rightarrow> string" where
  "remove_first p [] = []"
| "remove_first p (c # s) = (if prefix p (c # s) then drop (length p) (c # s) else c # remove_first p s)"

definition chars_of_bytes :: "8 word list \<Rightarrow> string" where
  "chars_of_bytes x = map (\<lambda>b. char_of (unat b)) x"

definition add_left_right_string :: "string \<Rightarrow> nasl_value option \<Rightarrow> nasl_value" where
  "add_left_right_string left right = NString (left @ text_or_empty right)"

definition minus_left_right_string :: "string \<Rightarrow> nasl_value option \<Rightarrow> nasl_value" where
  "minus_left_right_string left right = NString (remove_first (text_or_empty right) left)"

definition add_left_right_data :: "8 word list \<Rightarrow> nasl_value option \<Rightarrow> nasl_value" where
  "add_left_right_data left right = NData (as_bytes (chars_of_bytes left @ text_or_empty right))"

definition minus_left_right_data :: "8 word list \<Rightarrow> nasl_value option \<Rightarrow> nasl_value" where
  "minus_left_right_data left right = NData (as_bytes (remove_first (text_or_empty right) (chars_of_bytes left)))"

definition op_plus :: "nasl_value \<Rightarrow> nasl_value option \<Rightarrow> nasl_value" where
  "op_plus a b = (case a of
      NString x \<Rightarrow> add_left_right_string x b
    | NData x \<Rightarrow> add_left_right_data x b
    | left \<Rightarrow> (case b of
        Some (NString _) \<Rightarrow> add_left_right_string (value_display left) b
      | Some (NData _) \<Rightarrow> add_left_right_data (value_into_bytes left) b
      | _ \<Rightarrow> NNumber (value_i64 left + (case b of Some x \<Rightarrow> value_i64 x | None \<Rightarrow> 0))))"

definition op_minus :: "nasl_value \<Rightarrow> nasl_value option \<Rightarrow> nasl_value" where
  "op_minus a b = (case a of
      NString x \<Rightarrow> minus_left_right_string x b
    | NData x \<Rightarrow> minus_left_right_data x b
    | left \<Rightarrow> (case b of
        Some (NString _) \<Rightarrow> minus_left_right_string (value_display left) b
      | Some (NData _) \<Rightarrow> minus_left_right_data (value_into_bytes left) b
      | Some right \<Rightarrow> NNumber (value_i64 left - value_i64 right)
      | None \<Rightarrow> NNumber (- value_i64 left)))"

definition match_regex :: "'w context_config \<Rightarrow> nasl_value \<Rightarrow> nasl_value option \<Rightarrow> interpret_error + nasl_value" where
  "match_regex C a matches = (case cx_regex C (text_or_empty matches) of
      Some c \<Rightarrow> Inr (NBoolean (c (value_display a)))
    | None \<Rightarrow> Inl (unparse_regex (text_or_empty matches)))"

definition not_match_regex :: "'w context_config \<Rightarrow> nasl_value \<Rightarrow> nasl_value option \<Rightarrow> interpret_error + nasl_value" where
  "not_match_regex C a matches = (case match_regex C a matches of
      Inl e \<Rightarrow> Inl e
    | Inr result \<Rightarrow> Inr (NBoolean (\<not> value_bool result)))"

type_synonym op_result = "(interpret_error + nasl_value) exec"

abbreviation op_value :: "nasl_value \<Rightarrow> op_result" where
  "op_value v \<equiv> Ret (Inr v)"

definition num_expr :: "(64 word \<Rightarrow> 64 word \<Rightarrow> 64 word) \<Rightarrow> nasl_value \<Rightarrow> nasl_value option \<Rightarrow> op_result" where
  "num_expr f a b = (case as_i64 a b of (left, right) \<Rightarrow> op_value (NNumber (f left right)))"

definition num_division :: "(int \<Rightarrow> int \<Rightarrow> int) \<Rightarrow> nasl_value \<Rightarrow> nasl_value option \<Rightarrow> op_result" where
  "num_division f a b = (case as_i64 a b of (left, right) \<Rightarrow>
     exec_bind (i64_division f left right) (\<lambda>v. op_value (NNumber v)))"

definition num_test :: "(64 word \<Rightarrow> 64 word \<Rightarrow> bool) \<Rightarrow> nasl_value \<Rightarrow> nasl_value option \<Rightarrow> op_result" where
  "num_test f a b = (case as_i64 a b of (left, right) \<Rightarrow> op_value (NBoolean (f left right)))"

definition u32_shr :: "64 word \<Rightarrow> 64 word \<Rightarrow> 64 word" where
  "u32_shr a b = scast (drop_bit (unat b mod 32) (ucast a :: 32 word))"

definition u32_pow :: "64 word \<Rightarrow> 64 word \<Rightarrow> 64 word" where
  "u32_pow a b = ucast ((ucast a :: 32 word) ^ unat (ucast b :: 32 word))"

text \<open>What an operator does with the values of its sides; the operator \<^verbatim>\<open>x\<close> is not among them.\<close>

definition operation_of :: "'w context_config \<Rightarrow> category \<Rightarrow> (nasl_value \<Rightarrow> nasl_value option \<Rightarrow> op_result) option" where
  "operation_of C cat = (case cat of
      Plus \<Rightarrow> Some (\<lambda>a b. op_value (op_plus a b))
    | Minus \<Rightarrow> Some (\<lambda>a b. op_value (op_minus a b))
    | Star \<Rightarrow> Some (num_expr (*))
    | Slash \<Rightarrow> Some (num_division trunc_div)
    | Percent \<Rightarrow> Some (num_division trunc_rem)
    | LessLess \<Rightarrow> Some (num_expr i64_shl)
    | GreaterGreater \<Rightarrow> Some (num_expr i64_shr)
    | GreaterGreaterGreater \<Rightarrow> Some (num_expr u32_shr)
    | Ampersand \<Rightarrow> Some (num_expr (AND))
    | Pipe \<Rightarrow> Some (num_expr (OR))
    | Caret \<Rightarrow> Some (num_expr (XOR))
    | StarStar \<Rightarrow> Some (num_expr u32_pow)
    | Tilde \<Rightarrow> Some (\<lambda>a _. op_value (NNumber (NOT (value_i64 a))))
    | EqualTilde \<Rightarrow> Some (\<lambda>a b. Ret (match_regex C a b))
    | BangTilde \<Rightarrow> Some (\<lambda>a b. Ret (not_match_regex C a b))
    | GreaterLess \<Rightarrow> Some (\<lambda>a b. op_value (NBoolean (sublist (text_or_empty b) (value_display a))))
    | GreaterBangLess \<Rightarrow> Some (\<lambda>a b. op_value (NBoolean (\<not> sublist (text_or_empty b) (value_display a))))
    | Bang \<Rightarrow> Some (\<lambda>a _. op_value (NBoolean (\<not> value_bool a)))
    | AmpersandAmpersand \<Rightarrow> Some (\<lambda>a b. op_value (NBoolean (value_bool a \<and> bool_or_false b)))
    | PipePipe \<Rightarrow> Some (\<lambda>a b. op_value (NBoolean (value_bool a \<or> bool_or_false b)))
    | EqualEqual \<Rightarrow> Some (\<lambda>a b. op_value (NBoolean (value_eq a (case b of Some x \<Rightarrow> x | None \<Rightarrow> NNull))))
    | BangEqual \<Rightarrow> Some (\<lambda>a b. op_value (NBoolean (\<not> value_eq a (case b of Some x \<Rightarrow> x | None \<Rightarrow> NNull))))
    | GreaterSign \<Rightarrow> Some (num_test (\<lambda>a b. i64_less b a))
    | LessSign \<Rightarrow> Some (num_test i64_less)
    | GreaterEqual \<Rightarrow> Some (num_test (\<lambda>a b. \<not> i64_less a b))
    | LessEqual \<Rightarrow> Some (num_test (\<lambda>a b. \<not> i64_less b a))
    | _ \<Rightarrow> None)"

definition rop :: "op_result \<Rightarrow> ('w, nasl_value) run" where
  "rop x = rbind (rlift Arithmetic x) rresult"

definition stmt_at :: "statement list \<Rightarrow> nat \<Rightarrow> ('w, statement) run" where
  "stmt_at stmts i = (if i < length stmts then rret (stmts ! i) else rcrash OutOfRange)"

definition execute :: "'w resolver \<Rightarrow> statement list \<Rightarrow> (nasl_value \<Rightarrow> nasl_value option \<Rightarrow> op_result) \<Rightarrow> ('w, nasl_value) run" where
  "execute res stmts result =
     rbind (stmt_at stmts 0) (\<lambda>s0. rbind (res s0) (\<lambda>first.
       if length stmts = 1 then rop (result first None)
       else rbind (stmt_at stmts 1) (\<lambda>s1. rbind (res s1) (\<lambda>second. rop (result first (Some second))))))"

fun resolve_times :: "'w resolver \<Rightarrow> nat \<Rightarrow> statement \<Rightarrow> ('w, unit) run" where
  "resolve_times res 0 stmt = rret ()"
| "resolve_times res (Suc k) stmt = rbind (res stmt) (\<lambda>_. resolve_times res k stmt)"

text \<open>The operator \<^verbatim>\<open>x\<close>: the loop is over \<^verbatim>\<open>1..repeat - 1\<close>, and one more execution follows.\<close>

definition op_times :: "'w resolver \<Rightarrow> statement list \<Rightarrow> ('w, nasl_value) run" where
  "op_times res stmts =
     rbind (stmt_at stmts 1) (\<lambda>s1. rbind (res s1) (\<lambda>last_value.
       let repeat = value_i64 last_value
       in if repeat = 0 then rret NNull
          else rbind (stmt_at stmts 0) (\<lambda>repeatable.
            rbind (resolve_times res (nat (sint (repeat - 1) - 1)) repeatable) (\<lambda>_. res repeatable))))"

definition operator :: "'w context_config \<Rightarrow> 'w resolver \<Rightarrow> category \<Rightarrow> statement list \<Rightarrow> ('w, nasl_value) run" where
  "operator C res cat stmts =
     (if cat = TimesX then op_times res stmts
      else case operation_of C cat of
        Some f \<Rightarrow> execute res stmts f
      | None \<Rightarrow> rfail (wrong_category cat))"

subsection \<open>Assignments\<close>

text \<open>
  The vector is extended to hold the index; the index of a negative number is at the end of the address space. That a
  vector may be too big for the memory is not modelled.
\<close>

definition prepare_array :: "nasl_value \<Rightarrow> nasl_value \<Rightarrow> nat \<times> nasl_value list" where
  "prepare_array idx left =
     (let idx = value_i64 idx;
          arr = (case left of NArray x \<Rightarrow> x | _ \<Rightarrow> [left])
      in (unat idx, arr @ replicate (unat (idx + 1) - length arr) NNull))"

definition prepare_dict :: "nasl_value \<Rightarrow> (string, nasl_value) hashmap" where
  "prepare_dict left = (case left of
      NArray x \<Rightarrow> map (\<lambda>(i, v). (show_nat i, v)) (enumerate 0 x)
    | NDict x \<Rightarrow> x
    | NNull \<Rightarrow> []
    | x \<Rightarrow> [(''0'', x)])"

definition save :: "nat \<Rightarrow> string \<Rightarrow> nasl_value \<Rightarrow> ('w, unit) run" where
  "save idx key v = try_register (add_to_index idx key (CValue v))"

definition named_value :: "string \<Rightarrow> ('w, nat \<times> nasl_value) run" where
  "named_value key = rbind (read_register (\<lambda>r. index_named r key)) (\<lambda>found. case found of
      None \<Rightarrow> rret (0, NNull)
    | Some (_, CFunction _ _) \<Rightarrow> rfail expected_value
    | Some (idx, CValue v) \<Rightarrow> rret (idx, v))"

type_synonym assign_fun = "nasl_value \<Rightarrow> nasl_value \<Rightarrow> nasl_value exec"

definition assigned :: "assign_order \<Rightarrow> nasl_value \<Rightarrow> nasl_value \<Rightarrow> nasl_value" where
  "assigned order original result = (case order of ReturnAssign \<Rightarrow> original | AssignReturn \<Rightarrow> result)"

definition handle_dict ::
  "nat \<Rightarrow> string \<Rightarrow> string \<Rightarrow> nasl_value \<Rightarrow> nasl_value \<Rightarrow> assign_order \<Rightarrow> assign_fun \<Rightarrow> ('w, nasl_value) run" where
  "handle_dict ridx key idx left right order result =
     (let dict = prepare_dict left;
          original = (case hm_get dict idx of Some v \<Rightarrow> v | None \<Rightarrow> NNull)
      in rbind (rlift Arithmetic (result original right)) (\<lambda>v.
           rbind (save ridx key (NDict (hm_insert idx v dict))) (\<lambda>_. rret (assigned order original v))))"

definition handle_array ::
  "nat \<Rightarrow> string \<Rightarrow> nasl_value \<Rightarrow> nasl_value \<Rightarrow> nasl_value \<Rightarrow> assign_order \<Rightarrow> assign_fun \<Rightarrow> ('w, nasl_value) run" where
  "handle_array ridx key idx left right order result =
     (case prepare_array idx left of (idx, arr) \<Rightarrow>
        if idx < length arr then
          rbind (rlift Arithmetic (result (arr ! idx) right)) (\<lambda>v.
            rbind (save ridx key (NArray (arr[idx := v]))) (\<lambda>_. rret (assigned order (arr ! idx) v)))
        else rcrash ArrayIndex)"

definition dynamic_return ::
  "string \<Rightarrow> assign_order \<Rightarrow> nasl_value option \<Rightarrow> nasl_value \<Rightarrow> assign_fun \<Rightarrow> ('w, nasl_value) run" where
  "dynamic_return key order lookup right result =
     rbind (named_value key) (\<lambda>(ridx, left). case lookup of
         None \<Rightarrow> rbind (rlift Arithmetic (result left right)) (\<lambda>v.
           rbind (save ridx key v) (\<lambda>_. rret (assigned order left v)))
       | Some (NString idx) \<Rightarrow> handle_dict ridx key idx left right order result
       | Some (NData idx) \<Rightarrow> handle_dict ridx key (chars_of_bytes idx) left right order result
       | Some idx \<Rightarrow> (case left of
           NDict _ \<Rightarrow> handle_dict ridx key (value_display idx) left right order result
         | _ \<Rightarrow> handle_array ridx key idx left right order result))"

definition store_return :: "string \<Rightarrow> nasl_value option \<Rightarrow> nasl_value \<Rightarrow> assign_fun \<Rightarrow> ('w, nasl_value) run" where
  "store_return key lookup right result = dynamic_return key AssignReturn lookup right result"

definition without_right :: "assign_order \<Rightarrow> string \<Rightarrow> nasl_value option \<Rightarrow> assign_fun \<Rightarrow> ('w, nasl_value) run" where
  "without_right order key lookup result = dynamic_return key order lookup NNull result"

definition assign_num :: "(64 word \<Rightarrow> 64 word \<Rightarrow> 64 word) \<Rightarrow> assign_fun" where
  "assign_num f left right = Ret (NNumber (f (value_i64 left) (value_i64 right)))"

definition assign_division :: "(int \<Rightarrow> int \<Rightarrow> int) \<Rightarrow> assign_fun" where
  "assign_division f left right = exec_bind (i64_division f (value_i64 left) (value_i64 right)) (\<lambda>v. Ret (NNumber v))"

definition u32_shl :: "64 word \<Rightarrow> 64 word \<Rightarrow> 64 word" where
  "u32_shl a b = ucast (push_bit (unat (ucast b :: 32 word) mod 32) (ucast a :: 32 word))"

definition assign_target :: "'w resolver \<Rightarrow> statement \<Rightarrow> ('w, string \<times> nasl_value option) run" where
  "assign_target res left = (case stmt_kind left of
      SVariable \<Rightarrow> rbind (rresult (identifier_of (stmt_start left))) (\<lambda>key. rret (key, None))
    | SArray (Some stmt) \<Rightarrow> rbind (rresult (identifier_of (stmt_start left))) (\<lambda>key.
        rbind (res stmt) (\<lambda>v. rret (key, Some v)))
    | SArray None \<Rightarrow> rbind (rresult (identifier_of (stmt_start left))) (\<lambda>key. rret (key, None))
    | _ \<Rightarrow> rfail (unsupported left ''Array or Variable''))"

definition assign_value :: "category \<Rightarrow> assign_order \<Rightarrow> string \<Rightarrow> nasl_value option \<Rightarrow> nasl_value \<Rightarrow> ('w, nasl_value) run" where
  "assign_value cat order key lookup v = (case cat of
      EqualSign \<Rightarrow> store_return key lookup v (\<lambda>_ right. Ret right)
    | PlusEqual \<Rightarrow> store_return key lookup v (assign_num (+))
    | MinusEqual \<Rightarrow> store_return key lookup v (assign_num (-))
    | SlashEqual \<Rightarrow> store_return key lookup v (assign_division trunc_div)
    | StarEqual \<Rightarrow> store_return key lookup v (assign_num (*))
    | GreaterGreaterEqual \<Rightarrow> store_return key lookup v (assign_num i64_shr)
    | LessLessEqual \<Rightarrow> store_return key lookup v (assign_num i64_shl)
    | GreaterGreaterGreaterEqual \<Rightarrow> store_return key lookup v (assign_num u32_shl)
    | PercentEqual \<Rightarrow> store_return key lookup v (assign_division trunc_rem)
    | PlusPlus \<Rightarrow> without_right order key lookup (assign_num (\<lambda>left _. left + 1))
    | MinusMinus \<Rightarrow> without_right order key lookup (assign_num (\<lambda>left _. left - 1))
    | _ \<Rightarrow> rfail (wrong_category cat))"

definition assign :: "'w resolver \<Rightarrow> category \<Rightarrow> assign_order \<Rightarrow> statement \<Rightarrow> statement \<Rightarrow> ('w, nasl_value) run" where
  "assign res cat order left right =
     rbind (assign_target res left) (\<lambda>(key, lookup). rbind (res right) (\<lambda>v. assign_value cat order key lookup v))"

subsection \<open>Loops\<close>

text \<open>The value a loop returns at once, when the body has returned \<open>v\<close>.\<close>

definition loop_exit :: "nasl_value \<Rightarrow> nasl_value option" where
  "loop_exit v = (case v of
      NBreak \<Rightarrow> Some NNull
    | NExit code \<Rightarrow> Some (NExit code)
    | NReturn x \<Rightarrow> Some (NReturn x)
    | _ \<Rightarrow> None)"

fun for_iter :: "'w resolver \<Rightarrow> nat \<Rightarrow> statement \<Rightarrow> statement \<Rightarrow> statement \<Rightarrow> ('w, nasl_value) run" where
  "for_iter res 0 condition update body = (\<lambda>_. None)"
| "for_iter res (Suc n) condition update body =
     rbind (res condition) (\<lambda>c.
       if \<not> value_bool c then rret NNull
       else rbind (res body) (\<lambda>ret. case loop_exit ret of
           Some v \<Rightarrow> rret v
         | None \<Rightarrow> rbind (res update) (\<lambda>_. for_iter res n condition update body)))"

definition for_loop :: "'w resolver \<Rightarrow> nat \<Rightarrow> statement \<Rightarrow> statement \<Rightarrow> statement \<Rightarrow> statement \<Rightarrow> ('w, nasl_value) run" where
  "for_loop res n assignment condition update body =
     rbind (res assignment) (\<lambda>_. for_iter res n condition update body)"

fun for_each_iter :: "'w resolver \<Rightarrow> string \<Rightarrow> statement \<Rightarrow> nasl_value list \<Rightarrow> ('w, nasl_value) run" where
  "for_each_iter res iter_name body [] = rret NNull"
| "for_each_iter res iter_name body (v # vs) =
     rbind (change_register (add_local iter_name (CValue v))) (\<lambda>_.
       rbind (res body) (\<lambda>ret. case loop_exit ret of
           Some v \<Rightarrow> rret v
         | None \<Rightarrow> for_each_iter res iter_name body vs))"

definition for_each_loop :: "'w resolver \<Rightarrow> token \<Rightarrow> statement \<Rightarrow> statement \<Rightarrow> ('w, nasl_value) run" where
  "for_each_loop res variable iterable body =
     rbind (rresult (identifier_of variable)) (\<lambda>iter_name.
       rbind (res iterable) (\<lambda>v. for_each_iter res iter_name body (value_elements v)))"

fun while_loop :: "'w resolver \<Rightarrow> nat \<Rightarrow> statement \<Rightarrow> statement \<Rightarrow> ('w, nasl_value) run" where
  "while_loop res 0 condition body = (\<lambda>_. None)"
| "while_loop res (Suc n) condition body =
     rbind (res condition) (\<lambda>c.
       if value_bool c then rbind (res body) (\<lambda>ret. case loop_exit ret of
           Some v \<Rightarrow> rret v
         | None \<Rightarrow> while_loop res n condition body)
       else rret NNull)"

fun repeat_loop :: "'w resolver \<Rightarrow> nat \<Rightarrow> statement \<Rightarrow> statement \<Rightarrow> ('w, nasl_value) run" where
  "repeat_loop res 0 body condition = (\<lambda>_. None)"
| "repeat_loop res (Suc n) body condition =
     rbind (res body) (\<lambda>ret. case loop_exit ret of
         Some v \<Rightarrow> rret v
       | None \<Rightarrow> rbind (res condition) (\<lambda>c. if value_bool c then rret NNull else repeat_loop res n body condition))"

subsection \<open>Declarations\<close>

fun parameter_names :: "statement list \<Rightarrow> interpret_error + string list" where
  "parameter_names [] = Inr []"
| "parameter_names (a # as) = (case stmt_kind a of
      SVariable \<Rightarrow> (case identifier_of (stmt_start a) of
          Inl e \<Rightarrow> Inl e
        | Inr param_name \<Rightarrow> (case parameter_names as of Inl e \<Rightarrow> Inl e | Inr names \<Rightarrow> Inr (param_name # names)))
    | _ \<Rightarrow> Inl (unsupported a ''variable''))"

definition declare_function :: "token \<Rightarrow> statement list \<Rightarrow> statement \<Rightarrow> ('w, nasl_value) run" where
  "declare_function name arguments execution =
     rbind (rresult (identifier_of name)) (\<lambda>n.
       rbind (rresult (parameter_names arguments)) (\<lambda>names.
         rbind (try_register (add_global n (CFunction names execution))) (\<lambda>_. rret NNull)))"

definition declare_add :: "token \<Rightarrow> string \<Rightarrow> ('w, unit) run" where
  "declare_add scope key = (case tok_category scope of
      Identifier KwGlobalVar \<Rightarrow> try_register (add_global key (CValue NNull))
    | Identifier KwLocalVar \<Rightarrow> change_register (add_local key (CValue NNull))
    | _ \<Rightarrow> rcrash Unreachable)"

fun declare_all :: "token \<Rightarrow> statement list \<Rightarrow> ('w, unit) run" where
  "declare_all scope [] = rret ()"
| "declare_all scope (stmt # stmts) = rbind
     (case stmt_kind stmt of
        SVariable \<Rightarrow> (case tok_category (stmt_start stmt) of
            Identifier name \<Rightarrow> declare_add scope (identifier_display name)
          | _ \<Rightarrow> rret ())
      | _ \<Rightarrow> rret ()) (\<lambda>_. declare_all scope stmts)"

definition declare_variable :: "token \<Rightarrow> statement list \<Rightarrow> ('w, nasl_value) run" where
  "declare_variable scope stmts = rbind (declare_all scope stmts) (\<lambda>_. rret NNull)"

subsection \<open>Calls\<close>

fun executor_exec :: "(string \<Rightarrow> 'w builtin option) list \<Rightarrow> string \<Rightarrow> 'w builtin option" where
  "executor_exec [] k = None"
| "executor_exec (st # sets) k = (case st k of Some f \<Rightarrow> Some f | None \<Rightarrow> executor_exec sets k)"

definition nasl_fn_execute :: "'w builtin \<Rightarrow> ('w, function_error_kind + nasl_value) run" where
  "nasl_fn_execute f = rbind get_run (\<lambda>rs s. case f (rs_register rs) (world s) of
      (Panic, w) \<Rightarrow> Some (Crash BuiltinPanic, s\<lparr>world := w\<rparr>)
    | (Ret r, w) \<Rightarrow> Some (Value r, s\<lparr>world := w\<rparr>))"

fun call_arguments ::
  "'w resolver \<Rightarrow> statement list \<Rightarrow> (string, context_type) hashmap \<Rightarrow> nasl_value list \<Rightarrow>
     ('w, (string, context_type) hashmap \<times> nasl_value list) run" where
  "call_arguments res [] nameds pos_args = rret (nameds, pos_args)"
| "call_arguments res (p # ps) nameds pos_args = (case stmt_kind p of
      SNamedParameter v \<Rightarrow> rbind (res v) (\<lambda>x. rbind (rresult (identifier_of (stmt_start p))) (\<lambda>name.
        call_arguments res ps (hm_insert name (CValue x) nameds) pos_args))
    | _ \<Rightarrow> rbind (res p) (\<lambda>x. call_arguments res ps nameds (pos_args @ [x])))"

text \<open>A fork adds, for the root run, a run for every value but the last, which returns that value at this position.\<close>

definition fork_runs :: "nasl_value list \<Rightarrow> ('w, unit) run" where
  "fork_runs x = rbind get_run (\<lambda>rs s.
     if run_index s = 0 then
       Some (Value (), s\<lparr>run_specifics := run_specifics s @ map (\<lambda>i. \<lparr>rs_register = rs_register rs,
         rs_position = current_init_statement (rs_position rs), rs_skip = Some (rs_position rs, i)\<rparr>) x\<rparr>)
     else Some (Value (), s))"

definition call_builtin :: "string \<Rightarrow> 'w builtin \<Rightarrow> ('w, interpret_error + nasl_value) run" where
  "call_builtin name f = rbind (nasl_fn_execute f) (\<lambda>r. case r of
      Inr (NFork x) \<Rightarrow> (if x = [] then rret (Inr NNull) else rbind (fork_runs (butlast x)) (\<lambda>_. rret (Inr (last x))))
    | Inr v \<Rightarrow> rret (Inr v)
    | Inl e \<Rightarrow> rret (Inl (error_of_function \<lparr>fe_function = name, fe_kind = e\<rparr>)))"

fun add_defaults :: "string list \<Rightarrow> ('w, unit) run" where
  "add_defaults [] = rret ()"
| "add_defaults (p # ps) = rbind (read_register (\<lambda>r. named r p)) (\<lambda>found.
     rbind (case found of None \<Rightarrow> change_register (add_local p (CValue NNull)) | Some _ \<Rightarrow> rret ()) (\<lambda>_. add_defaults ps))"

definition call_declared :: "'w resolver \<Rightarrow> string \<Rightarrow> ('w, interpret_error + nasl_value) run" where
  "call_declared res name = rbind (read_register (\<lambda>r. named r name)) (\<lambda>found. case found of
      None \<Rightarrow> rfail (error_not_found name)
    | Some (CFunction params stmt) \<Rightarrow> rbind (add_defaults params) (\<lambda>_. rbind (res stmt) (\<lambda>v. case v of
        NReturn x \<Rightarrow> rret (Inr x)
      | a \<Rightarrow> rret (Inr a)))
    | Some (CValue _) \<Rightarrow> rret (Inl expected_function))"

definition call :: "'w context_config \<Rightarrow> 'w resolver \<Rightarrow> token \<Rightarrow> statement list \<Rightarrow> ('w, nasl_value) run" where
  "call C res name_token arguments =
     rbind (rresult (identifier_of name_token)) (\<lambda>name.
       rbind (call_arguments res arguments [] []) (\<lambda>(nameds, pos_args).
         rbind (change_register (create_root_child (hm_insert FC_ANON_ARGS (CValue (NArray pos_args)) nameds))) (\<lambda>_.
           rbind (case executor_exec (cx_sets C) name of
               Some f \<Rightarrow> call_builtin name f
             | None \<Rightarrow> call_declared res name) (\<lambda>result.
             rbind (change_register drop_last) (\<lambda>_. rresult result)))))"

subsection \<open>Statements\<close>

definition execute_statements :: "'w resolver \<Rightarrow> string \<Rightarrow> syntax_error + statement \<Rightarrow> ('w, nasl_value) run" where
  "execute_statements res key stmt = (case stmt of
      Inr stmt \<Rightarrow> res stmt
    | Inl err \<Rightarrow> rfail (include_syntax_error key err))"

fun execute_included :: "'w resolver \<Rightarrow> string \<Rightarrow> (syntax_error + statement) list \<Rightarrow> ('w, unit) run" where
  "execute_included res key [] = rret ()"
| "execute_included res key (stmt # stmts) = rbind (execute_statements res key stmt) (\<lambda>_. execute_included res key stmts)"

text \<open>Runs \<open>m\<close> in a new interpreter that works on the same world.\<close>

definition with_interpreter :: "register \<Rightarrow> ('w, 'a) run \<Rightarrow> ('w, 'a) run" where
  "with_interpreter r m = (\<lambda>s. case m (interpreter_new r (world s)) of
      None \<Rightarrow> None
    | Some (x, fresh) \<Rightarrow> Some (x, s\<lparr>world := world fresh\<rparr>))"

definition set_register :: "register \<Rightarrow> ('w, unit) run" where
  "set_register v = change_run (\<lambda>rs. rs\<lparr>rs_register := v\<rparr>)"

definition include_script :: "'w context_config \<Rightarrow> 'w resolver \<Rightarrow> statement \<Rightarrow> ('w, nasl_value) run" where
  "include_script C res name = rbind (res name) (\<lambda>v. case v of
      NString key \<Rightarrow> (case cx_load C key of
          Inl e \<Rightarrow> rfail (error_new (InterpretLoadError e) None)
        | Inr code \<Rightarrow> rbind get_run (\<lambda>rs.
            rbind (with_interpreter (rs_register rs) (rbind (execute_included res key (parse code)) (\<lambda>_. get_run))) (\<lambda>fresh.
              rbind (set_register (rs_register fresh)) (\<lambda>_. rret NNull))))
    | _ \<Rightarrow> rfail (unsupported name ''string''))"

definition resolve_array :: "'w resolver \<Rightarrow> statement \<Rightarrow> statement option \<Rightarrow> ('w, nasl_value) run" where
  "resolve_array res stmt elem =
     rbind (rresult (identifier_of (stmt_start stmt))) (\<lambda>name.
       rbind (read_register (\<lambda>r. named r name)) (\<lambda>found.
         case (elem, case found of Some v \<Rightarrow> v | None \<Rightarrow> CValue NNull) of
           (None, CValue v) \<Rightarrow> rret v
         | (Some p, CValue (NArray x)) \<Rightarrow> rbind (res p) (\<lambda>i.
             let i = unat (value_i64 i) in rret (if i < length x then x ! i else NNull))
         | (Some p, CValue (NDict x)) \<Rightarrow> rbind (res p) (\<lambda>i.
             rret (case hm_get x (value_display i) of Some v \<Rightarrow> v | None \<Rightarrow> NNull))
         | (Some p, CValue NNull) \<Rightarrow> rret NNull
         | (Some p, _) \<Rightarrow> rfail (unsupported p ''array'')
         | (None, CFunction _ _) \<Rightarrow> rfail (unsupported stmt ''variable'')))"

definition resolve_exit :: "'w resolver \<Rightarrow> statement \<Rightarrow> ('w, nasl_value) run" where
  "resolve_exit res stmt = rbind (res stmt) (\<lambda>rc. case rc of
      NNumber rc \<Rightarrow> rret (NExit rc)
    | _ \<Rightarrow> rfail (unsupported stmt ''numeric''))"

definition resolve_return :: "'w resolver \<Rightarrow> statement \<Rightarrow> ('w, nasl_value) run" where
  "resolve_return res stmt = rbind (res stmt) (\<lambda>rc. rret (NReturn rc))"

definition resolve_primitive :: "statement \<Rightarrow> ('w, nasl_value) run" where
  "resolve_primitive stmt = (case value_of_token (stmt_start stmt) of Inl c \<Rightarrow> rfail (wrong_category c) | Inr v \<Rightarrow> rret v)"

definition resolve_variable :: "statement \<Rightarrow> ('w, nasl_value) run" where
  "resolve_variable stmt = (case value_of_token (stmt_start stmt) of
      Inl c \<Rightarrow> rfail (wrong_category c)
    | Inr name \<Rightarrow> rbind (read_register (\<lambda>r. named r (value_display name))) (\<lambda>found. case found of
        Some (CValue result) \<Rightarrow> rret result
      | None \<Rightarrow> rret NNull
      | Some (CFunction _ _) \<Rightarrow> rfail (unsupported stmt ''variable'')))"

fun resolve_all :: "'w resolver \<Rightarrow> statement list \<Rightarrow> ('w, nasl_value list) run" where
  "resolve_all res [] = rret []"
| "resolve_all res (stmt # stmts) = rbind (res stmt) (\<lambda>v. rbind (resolve_all res stmts) (\<lambda>vs. rret (v # vs)))"

definition resolve_parameter :: "'w resolver \<Rightarrow> statement list \<Rightarrow> ('w, nasl_value) run" where
  "resolve_parameter res x = rbind (resolve_all res x) (\<lambda>result. rret (NArray result))"

definition resolve_if :: "'w resolver \<Rightarrow> statement \<Rightarrow> statement \<Rightarrow> statement option \<Rightarrow> ('w, nasl_value) run" where
  "resolve_if res condition if_block else_block = rbind (res condition) (\<lambda>v.
     if value_bool v then res if_block
     else case else_block of Some e \<Rightarrow> res e | None \<Rightarrow> rret NNull)"

definition leaves_block :: "nasl_value \<Rightarrow> bool" where
  "leaves_block v = (case v of NExit _ \<Rightarrow> True | NReturn _ \<Rightarrow> True | NBreak \<Rightarrow> True | NContinue \<Rightarrow> True | _ \<Rightarrow> False)"

fun block_items :: "'w resolver \<Rightarrow> statement list \<Rightarrow> ('w, nasl_value) run" where
  "block_items res [] = rbind (change_register drop_last) (\<lambda>_. rret NNull)"
| "block_items res (stmt # stmts) = rbind (res stmt) (\<lambda>x.
     if leaves_block x then rbind (change_register drop_last) (\<lambda>_. rret x) else block_items res stmts)"

definition resolve_block :: "'w resolver \<Rightarrow> statement list \<Rightarrow> ('w, nasl_value) run" where
  "resolve_block res stmts = rbind (change_register (create_child [])) (\<lambda>_. block_items res stmts)"

definition resolve_attack_category :: "statement \<Rightarrow> ('w, nasl_value) run" where
  "resolve_attack_category stmt = (case tok_category (stmt_start stmt) of
      Identifier (KwACT cat) \<Rightarrow> rret (NAttackCategory cat)
    | _ \<Rightarrow> rcrash Unreachable)"

definition resolve_kind :: "'w context_config \<Rightarrow> nat \<Rightarrow> 'w resolver \<Rightarrow> statement \<Rightarrow> ('w, nasl_value) run" where
  "resolve_kind C n res stmt = (case stmt_kind stmt of
      SInclude inc \<Rightarrow> include_script C res inc
    | SArray elem \<Rightarrow> resolve_array res stmt elem
    | SExit x \<Rightarrow> resolve_exit res x
    | SReturn x \<Rightarrow> resolve_return res x
    | SNamedParameter _ \<Rightarrow> rcrash Unreachable
    | SFor assignment condition update body \<Rightarrow> for_loop res n assignment condition update body
    | SWhile condition body \<Rightarrow> while_loop res n condition body
    | SRepeat body condition \<Rightarrow> repeat_loop res n body condition
    | SForEach variable iterable body \<Rightarrow> for_each_loop res variable iterable body
    | SFunctionDeclaration name args exec \<Rightarrow> declare_function name (children args) exec
    | SPrimitive \<Rightarrow> resolve_primitive stmt
    | SVariable \<Rightarrow> resolve_variable stmt
    | SCall arguments \<Rightarrow> call C res (stmt_start stmt) (children arguments)
    | SDeclare stmts \<Rightarrow> declare_variable (stmt_start stmt) stmts
    | SParameter x \<Rightarrow> resolve_parameter res x
    | SAssign cat order left right \<Rightarrow> assign res cat order left right
    | SOperator sign stmts \<Rightarrow> operator C res sign stmts
    | SIf condition if_block _ else_block \<Rightarrow> resolve_if res condition if_block else_block
    | SBlock blocks \<Rightarrow> resolve_block res blocks
    | SNoOp \<Rightarrow> rret NNull
    | SEoF \<Rightarrow> rret NNull
    | SAttackCategory \<Rightarrow> resolve_attack_category stmt
    | SContinue \<Rightarrow> rret NContinue
    | SBreak \<Rightarrow> rret NBreak)"

definition with_origin :: "statement \<Rightarrow> interpret_error \<Rightarrow> interpret_error" where
  "with_origin stmt e = (if ie_origin e = None then from_statement stmt (ie_kind e) else e)"

fun resolve :: "'w context_config \<Rightarrow> nat \<Rightarrow> 'w resolver" where
  "resolve C 0 stmt = (\<lambda>_. None)"
| "resolve C (Suc n) stmt =
     rbind up (\<lambda>_. rbind get_run (\<lambda>rs.
       let execute_it = rensure (with_origin stmt) (resolve_kind C n (resolve C n) stmt) down
       in case rs_skip rs of
           Some (cp, rv) \<Rightarrow>
             (if root_index (rs_position rs) < root_index cp then rbind down (\<lambda>_. rret NNull)
              else if cp = rs_position rs then
                rbind (put_run (rs\<lparr>rs_skip := None\<rparr>)) (\<lambda>_. rbind down (\<lambda>_. rret rv))
              else execute_it)
         | None \<Rightarrow> execute_it))"

declare resolve.simps [simp del]

subsection \<open>Retries, runs and the stream of results\<close>

definition next_position :: "('w, unit) run" where
  "next_position = rbind (change_run (\<lambda>rs. rs\<lparr>rs_position := (case rs_position rs of
       [] \<Rightarrow> []
     | p \<Rightarrow> butlast p @ [Suc (last p)])\<rparr>)) (\<lambda>_ s. Some (Value (), s\<lparr>run_index := 0\<rparr>))"

fun retry_resolve :: "'w context_config \<Rightarrow> nat \<Rightarrow> nat \<Rightarrow> 'w resolver" where
  "retry_resolve C n 0 stmt = resolve C n stmt"
| "retry_resolve C n (Suc max_attempts) stmt = (\<lambda>s. case resolve C n stmt s of
      Some (Fail e, s') \<Rightarrow> (if is_retryable e then rbind next_position (\<lambda>_. retry_resolve C n max_attempts stmt) s'
        else Some (Fail e, s'))
    | r \<Rightarrow> r)"

definition retry_resolve_next :: "'w context_config \<Rightarrow> nat \<Rightarrow> nat \<Rightarrow> 'w resolver" where
  "retry_resolve_next C n max_attempts stmt = rbind next_position (\<lambda>_. retry_resolve C n max_attempts stmt)"

definition next_interpreter :: "'w interpreter \<Rightarrow> 'w interpreter option" where
  "next_interpreter s = (if length (run_specifics s) = 1 \<or> run_index s + 1 = length (run_specifics s) then None
     else Some (s\<lparr>run_index := run_index s + 1\<rparr>))"

record 'w code_interpreter =
  ci_lexer :: lexer
  ci_interpreter :: "'w interpreter"
  ci_statement :: "statement option"

definition code_interpreter_new :: "string \<Rightarrow> register \<Rightarrow> 'w \<Rightarrow> 'w code_interpreter" where
  "code_interpreter_new code r w =
     \<lparr>ci_lexer = lexer_new (tokenize code), ci_interpreter = interpreter_new r w, ci_statement = None\<rparr>"

definition next_statement ::
  "'w context_config \<Rightarrow> nat \<Rightarrow> 'w code_interpreter \<Rightarrow> (nasl_value outcome option \<times> 'w code_interpreter) option" where
  "next_statement C n ci = (case lexer_next (ci_lexer ci) of
      (Some (Inr nstmt), l) \<Rightarrow> (case retry_resolve_next C n 5 nstmt (ci_interpreter ci) of
          None \<Rightarrow> None
        | Some (r, s) \<Rightarrow> Some (Some r, \<lparr>ci_lexer = l, ci_interpreter = s, ci_statement = Some nstmt\<rparr>))
    | (Some (Inl err), l) \<Rightarrow>
        Some (Some (Fail (error_new (InterpretSyntaxError err) None)), ci\<lparr>ci_lexer := l, ci_statement := None\<rparr>)
    | (None, l) \<Rightarrow> Some (None, ci\<lparr>ci_lexer := l, ci_statement := None\<rparr>))"

definition code_next ::
  "'w context_config \<Rightarrow> nat \<Rightarrow> 'w code_interpreter \<Rightarrow> (nasl_value outcome option \<times> 'w code_interpreter) option" where
  "code_next C n ci = (case ci_statement ci of
      Some stmt \<Rightarrow> (case next_interpreter (ci_interpreter ci) of
          Some s0 \<Rightarrow> (case retry_resolve C n 5 stmt s0 of
              None \<Rightarrow> None
            | Some (r, s) \<Rightarrow> Some (Some r, ci\<lparr>ci_interpreter := s\<rparr>))
        | None \<Rightarrow> next_statement C n ci)
    | None \<Rightarrow> next_statement C n ci)"

text \<open>The results of the stream until it ends or a panic ends the task; at most \<open>m\<close> results are taken.\<close>

fun code_stream ::
  "'w context_config \<Rightarrow> nat \<Rightarrow> nat \<Rightarrow> 'w code_interpreter \<Rightarrow> (nasl_value outcome list \<times> 'w code_interpreter) option" where
  "code_stream C n 0 ci = None"
| "code_stream C n (Suc m) ci = (case code_next C n ci of
      None \<Rightarrow> None
    | Some (None, ci') \<Rightarrow> Some ([], ci')
    | Some (Some (Crash c), ci') \<Rightarrow> Some ([Crash c], ci')
    | Some (Some r, ci') \<Rightarrow> map_option (\<lambda>(rs, ci''). (r # rs, ci'')) (code_stream C n m ci'))"

end
