(* ===== verification/Nasl_Wellformed.thy ===== *)
theory Nasl_Wellformed
  imports Nasl_Syntax
begin

section \<open>Statements of the parser are well formed\<close>

text \<open>
  The statements the parser returns have the shape that the interpreter takes for granted: the tokens they
  start with are of the right kind, conditions may return a value, what is assigned to is a variable or an
  element of one, and so on for all statements inside.
\<close>

subsection \<open>Well-formed statements\<close>

definition is_literal :: "category \<Rightarrow> bool" where
  "is_literal c = (case c of
      StringLit _ \<Rightarrow> True | DataLit _ \<Rightarrow> True | NumberLit _ \<Rightarrow> True | IPv4Address _ \<Rightarrow> True
    | Identifier k \<Rightarrow> k = KwNull \<or> k = KwTrue \<or> k = KwFalse
    | _ \<Rightarrow> False)"

definition is_attack_category :: "category \<Rightarrow> bool" where
  "is_attack_category c = (case c of Identifier (KwACT _) \<Rightarrow> True | _ \<Rightarrow> False)"

definition is_parameter :: "statement_kind \<Rightarrow> bool" where
  "is_parameter k = (case k of SParameter _ \<Rightarrow> True | _ \<Rightarrow> False)"

definition is_block :: "statement_kind \<Rightarrow> bool" where
  "is_block k = (case k of SBlock _ \<Rightarrow> True | _ \<Rightarrow> False)"

abbreviation returnable :: "statement \<Rightarrow> bool" where
  "returnable s \<equiv> is_returnable (stmt_kind s)"

definition kind_wf :: "category \<Rightarrow> statement_kind \<Rightarrow> bool" where
  "kind_wf c k = (case k of
      SPrimitive \<Rightarrow> is_literal c
    | SAttackCategory \<Rightarrow> is_attack_category c
    | SVariable \<Rightarrow> is_undefined c
    | SArray e \<Rightarrow> (is_undefined c \<or> c = Identifier KwFCTAnonArgs) \<and> (case e of Some x \<Rightarrow> returnable x | None \<Rightarrow> True)
    | SCall x \<Rightarrow> is_undefined c \<and> is_parameter (stmt_kind x)
    | SExit x \<Rightarrow> returnable x
    | SInclude x \<Rightarrow> returnable x
    | SReturn x \<Rightarrow> returnable x \<or> stmt_kind x = SNoOp
    | SDeclare xs \<Rightarrow> (c = Identifier KwLocalVar \<or> c = Identifier KwGlobalVar) \<and> list_all (\<lambda>x. stmt_kind x = SVariable) xs
    | SNamedParameter x \<Rightarrow> is_undefined c
    | SAssign a _ l r \<Rightarrow> a \<in> set assign_categories \<and> is_variable_or_array (stmt_kind l)
    | SOperator op xs \<Rightarrow> length xs = 1 \<and> op \<in> {Plus, Minus, Tilde, Bang} \<or> length xs = 2
    | SIf x _ t e \<Rightarrow> returnable x \<and> (t = None \<longleftrightarrow> e = None)
    | SFor a x _ _ \<Rightarrow> is_assign_or_noop (stmt_kind a) \<and> returnable x
    | SWhile x _ \<Rightarrow> returnable x
    | SRepeat _ x \<Rightarrow> returnable x
    | SForEach v _ _ \<Rightarrow> is_undefined (tok_category v)
    | SBlock xs \<Rightarrow> list_all (\<lambda>x. stmt_kind x \<noteq> SNoOp) xs
    | SFunctionDeclaration n p b \<Rightarrow> is_undefined (tok_category n) \<and> is_parameter (stmt_kind p) \<and> is_block (stmt_kind b)
    | _ \<Rightarrow> True)"

fun stmt_wf :: "statement \<Rightarrow> bool" where
  "stmt_wf s = (kind_wf (tok_category (stmt_start s)) (stmt_kind s) \<and> list_all stmt_wf (parts (stmt_kind s)))"

declare stmt_wf.simps [simp del]

lemma stmt_wf_Statement: "stmt_wf (Statement k st en) \<longleftrightarrow> kind_wf (tok_category st) k \<and> list_all stmt_wf (parts k)"
  by (simp add: stmt_wf.simps)

lemma stmt_wf_set_end [simp]: "stmt_wf (set_end t s) = stmt_wf s"
  by (cases s) (simp add: set_end_def stmt_wf_Statement)

lemma stmt_wf_without_token [simp]: "stmt_wf (without_token SNoOp)" "stmt_wf (without_token SEoF)"
  by (simp_all add: without_token_def stmt_wf_Statement kind_wf_def)

subsection \<open>What parsers yield\<close>

named_theorems yields

definition yields_only :: "('a \<Rightarrow> bool) \<Rightarrow> 'a parser \<Rightarrow> bool" where
  "yields_only Q m = (\<forall>l a l'. m l = Some (Inr a, l') \<longrightarrow> Q a)"

abbreviation stmt_yields :: "(ending \<times> statement) parser \<Rightarrow> bool" where
  "stmt_yields \<equiv> yields_only (\<lambda>(_, s). stmt_wf s)"

lemma yields_bind:
  "yields_only P m \<Longrightarrow> (\<And>a. P a \<Longrightarrow> yields_only Q (f a)) \<Longrightarrow> yields_only Q (pbind m f)"
  unfolding yields_only_def pbind_def by (fastforce split: option.splits sum.splits)

lemma yields_pret [yields]: "Q a \<Longrightarrow> yields_only Q (pret a)"
  by (simp add: yields_only_def pret_def)

lemma yields_perr [yields]: "yields_only Q (perr e)"
  by (simp add: yields_only_def perr_def)

lemma yields_out_of_fuel [yields]: "yields_only Q (\<lambda>_. None)"
  by (simp add: yields_only_def)

lemma yields_bind_any: "(\<And>a. yields_only Q (f a)) \<Longrightarrow> yields_only Q (pbind m f)"
  by (rule yields_bind [where P = "\<lambda>_. True"]) (simp_all add: yields_only_def)

lemmas yields_any [yields] = yields_bind_any [where m = ptoken] yields_bind_any [where m = ppeek] yields_bind_any [where m = preset_depth]
  yields_bind_any [where m = pexpect] yields_bind_any [where m = jump_to_left_parenthesis] yields_bind_any [where m = penter]

lemma yields_preturnable [yields]:
  "(is_returnable (stmt_kind s) \<Longrightarrow> yields_only Q (f s)) \<Longrightarrow> yields_only Q (pbind (preturnable s) f)"
  by (rule yields_bind [where P = "\<lambda>s'. s' = s \<and> is_returnable (stmt_kind s)"])
    (auto simp: yields_only_def preturnable_def plift_def as_returnable_or_err_def split: if_splits)

lemma yields_pmap_err [yields]: "yields_only Q m \<Longrightarrow> yields_only Q (pmap_err g m)"
  by (auto simp: yields_only_def pmap_err_def split: option.splits sum.splits)

lemma stmt_yields_done [yields]: "stmt_wf s \<Longrightarrow> stmt_yields (stmt_done t s)"
  by (simp add: stmt_done_def yields_only_def pret_def)

lemma as_done_yields: "yields_only stmt_wf m \<Longrightarrow> stmt_yields (as_done m)"
  unfolding as_done_def by (rule yields_bind [where P = stmt_wf]) (auto intro: yields)

lemma as_con_yields: "yields_only stmt_wf m \<Longrightarrow> stmt_yields (as_con m)"
  unfolding as_con_def by (rule yields_bind [where P = stmt_wf]) (auto intro: yields)

lemma operation_new_simps:
  "operation_new t = Some OpPrimitive \<Longrightarrow> is_literal (tok_category t)"
  "operation_new t = Some (OpKeyword kw) \<Longrightarrow> tok_category t = Identifier kw"
  "operation_new t = Some (OpAssign c) \<Longrightarrow> tok_category t = c \<and> c \<in> set assign_categories"
  "operation_new t = Some (OpOperator c) \<Longrightarrow> tok_category t = c"
  by (auto simp: operation_new_def Let_def is_literal_def split: if_splits category.splits identifier_type.splits)

text \<open>The functions of the parser, when \<open>statement\<close> yields well-formed statements.\<close>

locale statement_yields =
  fixes S :: statement_parser
  assumes S_yields: "stmt_yields (S bp ab)"
begin

lemma S_bind: "(\<And>e s. stmt_wf s \<Longrightarrow> yields_only Q (f (e, s))) \<Longrightarrow> yields_only Q (pbind (S bp ab) f)"
  by (rule yields_bind [OF S_yields]) auto

lemma S_err_bind: "(\<And>e s. stmt_wf s \<Longrightarrow> yields_only Q (f (e, s))) \<Longrightarrow> yields_only Q (pbind (pmap_err g (S bp ab)) f)"
  by (rule yields_bind [OF yields_pmap_err [OF S_yields]]) auto

lemma wf_parse_comma_group:
  "list_all stmt_wf ps \<Longrightarrow> yields_only (\<lambda>(_, qs). list_all stmt_wf qs) (parse_comma_group k S cat ps)"
proof (induction k arbitrary: ps)
  case (Suc k)
  have "list_all stmt_wf (case stmt_kind s of SParameter qs \<Rightarrow> ps @ qs | _ \<Rightarrow> ps @ [s])" if "stmt_wf s" for s
    using that Suc.prems by (auto simp: stmt_wf.simps [of s] split: statement_kind.split)
  then show ?case using Suc
    by (auto simp: Let_def intro!: yields S_bind split: option.split ending.split)
qed (simp add: yields)

lemma group_bind:
  "(\<And>e qs. list_all stmt_wf qs \<Longrightarrow> yields_only Q (f (e, qs))) \<Longrightarrow> yields_only Q (pbind (parse_comma_group k S cat []) f)"
  by (rule yields_bind [OF wf_parse_comma_group]) auto

lemma wf_parse_paren: "yields_only stmt_wf (parse_paren S token)"
  unfolding parse_paren_def
  by (auto intro!: yields S_bind split: ending.split statement_kind.split simp: stmt_wf.simps kind_wf_def)

lemma wf_parse_block:
  "list_all (\<lambda>s. stmt_wf s \<and> stmt_kind s \<noteq> SNoOp) rs \<Longrightarrow>
   yields_only (\<lambda>s. stmt_wf s \<and> is_block (stmt_kind s)) (parse_block k S kw rs)"
proof (induction k arbitrary: rs)
  case (Suc k)
  then show ?case
    by (auto intro!: yields S_bind split: option.split simp: stmt_wf_Statement kind_wf_def is_block_def list_all_iff)
qed (simp add: yields)

lemma block_bind:
  "(\<And>s. stmt_wf s \<Longrightarrow> is_block (stmt_kind s) \<Longrightarrow> yields_only Q (f s)) \<Longrightarrow> yields_only Q (pbind (parse_block k S kw []) f)"
  by (rule yields_bind [OF wf_parse_block]) auto

lemma paren_bind: "(\<And>s. stmt_wf s \<Longrightarrow> yields_only Q (f s)) \<Longrightarrow> yields_only Q (pbind (parse_paren S token) f)"
  by (rule yields_bind [OF wf_parse_paren]) auto

lemmas wf_simps = stmt_wf_Statement kind_wf_def is_parameter_def
lemmas wf_intros = yields S_bind S_err_bind group_bind block_bind paren_bind

lemma wf_parse_grouping: "stmt_yields (parse_grouping n S token)"
  unfolding parse_grouping_def
  by (auto intro!: wf_intros split: ending.split category.split simp: wf_simps)

lemma wf_parse_declaration:
  "tok_category token = Identifier KwLocalVar \<or> tok_category token = Identifier KwGlobalVar \<Longrightarrow>
   yields_only stmt_wf (parse_declaration n S token)"
  unfolding parse_declaration_def
  by (auto intro!: wf_intros split: ending.split option.split simp: wf_simps find_None_iff list_all_iff)

lemma wf_parse_else: "yields_only (\<lambda>(t, e, _). (t = None \<longleftrightarrow> e = None) \<and> (\<forall>s. e = Some s \<longrightarrow> stmt_wf s)) (parse_else S token)"
  unfolding parse_else_def by (auto intro!: wf_intros split: ending.split option.split)

lemma wf_parse_if: "yields_only stmt_wf (parse_if S token)"
  unfolding parse_if_def
  by (auto intro!: wf_intros yields_bind [OF wf_parse_else] split: ending.split option.split simp: wf_simps)

lemma wf_parse_call_return_params: "yields_only (\<lambda>s. stmt_wf s \<and> returnable s) (parse_call_return_params S)"
  unfolding parse_call_return_params_def by (auto intro!: wf_intros split: ending.split)

lemma wf_parse_exit: "yields_only stmt_wf (parse_exit S token)"
  unfolding parse_exit_def by (auto intro!: yields_bind [OF wf_parse_call_return_params] wf_intros simp: wf_simps)

lemma wf_parse_include: "yields_only stmt_wf (parse_include S token)"
  unfolding parse_include_def by (auto intro!: yields_bind [OF wf_parse_call_return_params] wf_intros simp: wf_simps)

lemma wf_parse_function: "yields_only stmt_wf (parse_function n S token)"
  unfolding parse_function_def by (auto intro!: wf_intros split: ending.split simp: wf_simps)

lemma wf_parse_return: "yields_only stmt_wf (parse_return S token)"
  unfolding parse_return_def Let_def
  by (auto intro!: wf_intros split: ending.split option.split simp: wf_simps) (simp_all add: without_token_def)

lemma wf_parse_jump: "k = SBreak \<or> k = SContinue \<Longrightarrow> yields_only stmt_wf (parse_jump k token)"
  unfolding parse_jump_def by (auto intro!: wf_intros split: option.split simp: wf_simps)

lemma wf_for_update: "stmt_yields (for_update S)"
  unfolding for_update_def Let_def by (auto intro!: wf_intros S_yields split: option.split)

lemma wf_parse_for: "yields_only stmt_wf (parse_for S token)"
  unfolding parse_for_def
  by (auto intro!: wf_intros yields_bind [OF wf_for_update] split: ending.split simp: wf_simps)

lemma wf_parse_while: "yields_only stmt_wf (parse_while S token)"
  unfolding parse_while_def by (auto intro!: wf_intros split: ending.split simp: wf_simps)

lemma wf_parse_repeat: "yields_only stmt_wf (parse_repeat S token)"
  unfolding parse_repeat_def by (auto intro!: wf_intros split: ending.split simp: wf_simps)

lemma wf_parse_foreach: "yields_only stmt_wf (parse_foreach S token)"
  unfolding parse_foreach_def
  by (auto intro!: yields_bind [OF yields_pmap_err [OF wf_parse_paren]] wf_intros split: ending.split simp: wf_simps)

lemma wf_parse_fct_anon_args:
  "tok_category token = Identifier KwFCTAnonArgs \<Longrightarrow> yields_only stmt_wf (parse_fct_anon_args S token)"
  unfolding parse_fct_anon_args_def by (auto intro!: wf_intros split: ending.split option.split simp: wf_simps)

lemmas keyword_wf = wf_parse_for wf_parse_foreach wf_parse_if wf_parse_while wf_parse_repeat wf_parse_return
  wf_parse_include wf_parse_exit wf_parse_function

lemma wf_parse_keyword:
  assumes "tok_category token = Identifier kw"
  shows "stmt_yields (parse_keyword n S kw token)"
  using assms
  by (cases kw) (simp_all add: parse_keyword_def as_done_yields as_con_yields keyword_wf wf_parse_declaration wf_parse_fct_anon_args wf_parse_jump
      parse_continue_def parse_break_def yields wf_simps is_literal_def is_attack_category_def)

lemma wf_parse_variable: "stmt_yields (parse_variable n S token)"
  unfolding parse_variable_def Let_def by (auto intro!: wf_intros split: ending.split option.split simp: wf_simps)

lemma wf_parse_prefix_assign_operator:
  "c \<in> set assign_categories \<Longrightarrow> yields_only stmt_wf (parse_prefix_assign_operator n S c token)"
  unfolding parse_prefix_assign_operator_def
  by (auto intro!: wf_intros yields_bind [OF wf_parse_variable] simp: wf_simps)

lemma prefix_power_bind:
  "(\<And>bp. tok_category token \<in> {Plus, Minus, Tilde, Bang} \<Longrightarrow> yields_only Q (f bp)) \<Longrightarrow> yields_only Q (pbind (prefix_binding_power token) f)"
  by (rule yields_bind [where P = "\<lambda>_. tok_category token \<in> {Plus, Minus, Tilde, Bang}"])
    (auto simp: yields_only_def prefix_binding_power_def pret_def perr_def split: if_splits category.splits)

lemma wf_prefix_statement:
  assumes "\<not> is_comment token"
  shows "stmt_yields (prefix_statement n S token abort)"
proof (cases "operation_new token")
  case (Some op)
  show ?thesis
  proof (cases op)
    case (OpAssign c)
    then show ?thesis using Some operation_new_simps(3) [of token c]
      by (auto simp: prefix_statement_def intro!: as_con_yields wf_parse_prefix_assign_operator yields)
  qed (use Some operation_new_simps [of token] in \<open>auto simp: prefix_statement_def wf_simps
      intro!: wf_intros prefix_power_bind wf_parse_variable wf_parse_grouping wf_parse_keyword\<close>)
qed (simp add: prefix_statement_def yields)

lemma wf_infix_build:
  assumes "infix_build op token lhs rhs (with_start_end_token (stmt_start lhs) e) = Inr s" "stmt_wf lhs" "stmt_wf rhs"
    "operation_new token = Some op"
  shows "stmt_wf s"
  using assms operation_new_simps(3) [of token]
  by (cases lhs; cases op)
    (auto simp: infix_build_def wf_simps is_variable_or_array_def Let_def split: if_splits statement_kind.splits)

lemma wf_infix_statement:
  assumes "stmt_wf lhs" "operation_new token = Some op"
  shows "stmt_yields (infix_statement S op bp token lhs abort)"
proof -
  have *: "yields_only stmt_wf (plift (infix_build op token lhs rhs (with_start_end_token (stmt_start lhs) e)))"
    if "stmt_wf rhs" for rhs e
    using wf_infix_build [OF _ assms(1) that assms(2)] by (auto simp: yields_only_def plift_def)
  show ?thesis unfolding infix_statement_def Let_def by (auto intro!: wf_intros yields_bind [OF *])
qed

lemma wf_handle_infix:
  assumes "stmt_wf left" "operation_new token = Some op"
  shows "yields_only (\<lambda>st. case st of NoInfix \<Rightarrow> True | ReturnContinue s \<Rightarrow> stmt_wf s | ReturnEnd t s \<Rightarrow> stmt_wf s
    | Unfinished s \<Rightarrow> stmt_wf s) (handle_infix S op bp token left abort)"
  unfolding handle_infix_def using assms
  by (auto intro!: yields yields_bind [OF wf_infix_statement] split: option.split ending.split)

lemma wf_infix_loop: "stmt_wf left \<Longrightarrow> stmt_yields (infix_loop k S bp abort left)"
proof (induction k arbitrary: left)
  case (Suc k)
  have "stmt_yields (infix_loop k S bp abort (with_start_end_token (stmt_end left) t
      (SAssign (tok_category t) ReturnAssign left (without_token SNoOp))))"
    if "operation_new t = Some (OpAssign PlusPlus) \<or> operation_new t = Some (OpAssign MinusMinus)"
      "is_variable_or_array (stmt_kind left)" for t
    using that operation_new_simps(3) [of t] Suc.prems by (intro Suc.IH) (auto simp: wf_simps)
  with Suc show ?case
    by (auto intro!: yields yields_bind [OF wf_handle_infix] split: option.split infix_state.splits)
qed (simp add: yields)

end

lemma first_statement_wf:
  assumes "statement_yields (statement n)"
  shows "stmt_yields (first_statement n (statement n) abort)"
  unfolding yields_only_def
proof (intro allI impI)
  fix l p l'
  assume f: "first_statement n (statement n) abort l = Some (Inr p, l')"
  from lexer_token_cases [of l] show "case p of (_, s) \<Rightarrow> stmt_wf s"
  proof (elim disjE exE conjE)
    fix t ts
    assume t: "lexer_token l = (Some t, l\<lparr>lx_tokens := ts\<rparr>)" "\<not> is_comment t"
    have "case p of (_, s) \<Rightarrow> stmt_wf s" if "prefix_statement n (statement n) t abort l1 = Some (Inr p, l')" for l1
      using statement_yields.wf_prefix_statement [OF assms t(2), of n abort] that unfolding yields_only_def by blast
    with f t show ?thesis
      by (auto simp: first_statement_def pbind_def ptoken_def perr_def stmt_done_def pret_def
          stmt_wf_Statement kind_wf_def split: if_splits)
  qed (use f in \<open>auto simp: first_statement_def pbind_def ptoken_def pret_def\<close>)
qed

lemma statement_yields_statement: "statement_yields (statement n)"
proof (induction n)
  case 0
  show ?case by unfold_locales (simp add: yields)
next
  case (Suc n)
  show ?case
  proof
    show "stmt_yields (statement (Suc n) bp ab)" for bp ab
      unfolding statement.simps
      by (auto intro!: yields yields_bind [OF first_statement_wf [OF Suc]] statement_yields.wf_infix_loop [OF Suc] split: ending.split)
  qed
qed

interpretation nasl_wf: statement_yields "statement n" for n
  by (rule statement_yields_statement)

lemma lexer_next_wf:
  assumes "fst (lexer_next l) = Some (Inr s)"
  shows "stmt_wf s"
proof -
  from assms obtain e l' where "statement (Suc (left_tokens l)) 0 (until Semicolon) l = Some (Inr (e, s), l')"
    by (auto simp: lexer_next_def simp del: statement.simps split: option.splits if_splits sum.splits ending.splits)
  then show ?thesis using nasl_wf.S_yields [of "Suc (left_tokens l)" 0 "until Semicolon"] unfolding yields_only_def by blast
qed

lemma lexer_collect_wf: "list_all (\<lambda>r. case r of Inl _ \<Rightarrow> True | Inr s \<Rightarrow> stmt_wf s) (lexer_collect l)"
proof (induction l rule: lexer_collect.induct)
  case (1 l)
  show ?case
  proof (cases "lexer_next l")
    case (Pair o' l')
    then show ?thesis using 1 [OF Pair [symmetric]] lexer_next_wf [of l]
      by (cases o') (auto simp: lexer_collect.simps [of l] split: sum.split)
  qed
qed

text \<open>C8: Every statement the parser returns for a script is well formed, with all statements inside it: variables, calls
  and arrays start with an identifier, literals with a literal, conditions may return a value, only variables are
  declared, by one of the two keywords for it, what is assigned to is a variable or an array, and operators have one or two operands.\<close>

theorem parse_well_formed: "list_all (\<lambda>r. case r of Inl _ \<Rightarrow> True | Inr s \<Rightarrow> stmt_wf s) (parse code)"
  by (simp add: parse_def lexer_collect_wf)

end
