(* ===== verification/Nasl_Run.thy ===== *)
theory Nasl_Run
  imports Nasl_Interpreter Nasl_Wellformed
begin

section \<open>What the interpreter of NASL promises\<close>

text \<open>
  The statements the parser returns run without an internal panic of the interpreter, contexts are pushed and
  popped in pairs, the position is restored, and the runs of other forks are left alone. The laws are proved for a
  resolver, and hold then for \<^const>\<open>resolve\<close> by induction on its fuel.
\<close>

subsection \<open>Executable statements\<close>

lemma children_smaller: "p \<in> set (children x) \<Longrightarrow> size p < size x"
proof (induction x rule: children.induct)
  case (1 k st en)
  then show ?case
    by (cases k) (auto dest: size_list_estimation' [where f = size] simp: less_Suc_eq_le elim!: size_list_estimation' [OF _ order_refl])
qed

lemma named_parameter_smaller: "stmt_kind p = SNamedParameter y \<Longrightarrow> size y < size p"
  by (cases p) simp

lemma kind_part_smaller [termination_simp]:
  "stmt_kind s = SCall x \<Longrightarrow> p \<in> set (children x) \<Longrightarrow> size p < size s"
  "stmt_kind s = SCall x \<Longrightarrow> p \<in> set (children x) \<Longrightarrow> stmt_kind p = SNamedParameter y \<Longrightarrow> size y < size s"
  "stmt_kind s = SFunctionDeclaration t a body \<Longrightarrow> size body < size s"
  using children_smaller [of p x] named_parameter_smaller [of p y] by (cases s; auto)+

text \<open>A named parameter is an argument of a call, and is nowhere else.\<close>

fun stray_free :: "statement \<Rightarrow> bool" where
  "stray_free s = (case stmt_kind s of
      SNamedParameter _ \<Rightarrow> False
    | SCall x \<Rightarrow> list_all (\<lambda>p. case stmt_kind p of SNamedParameter y \<Rightarrow> stray_free y | _ \<Rightarrow> stray_free p) (children x)
    | SFunctionDeclaration _ _ body \<Rightarrow> stray_free body
    | SDeclare _ \<Rightarrow> True
    | _ \<Rightarrow> list_all stray_free (parts (stmt_kind s)))"

declare stray_free.simps [simp del]

definition executable :: "statement \<Rightarrow> bool" where
  "executable s = (stmt_wf s \<and> stray_free s)"

lemma stmt_wf_children: "stmt_wf s \<Longrightarrow> list_all stmt_wf (children s)"
proof (induction s rule: children.induct)
  case (1 k st en)
  then show ?case by (cases k) (auto simp: stmt_wf_Statement)
qed

lemma executable_kind: "executable s \<Longrightarrow> kind_wf (tok_category (stmt_start s)) (stmt_kind s)"
  by (simp add: executable_def stmt_wf.simps [of s])

definition runs_parts :: "statement_kind \<Rightarrow> bool" where
  "runs_parts k = (case k of SCall _ \<Rightarrow> False | SFunctionDeclaration _ _ _ \<Rightarrow> False | SDeclare _ \<Rightarrow> False | _ \<Rightarrow> True)"

lemma executable_parts: "executable s \<Longrightarrow> runs_parts (stmt_kind s) \<Longrightarrow> list_all executable (parts (stmt_kind s))"
  by (cases "stmt_kind s")
    (simp_all add: executable_def stmt_wf.simps [of s] stray_free.simps [of s] runs_parts_def list_all_iff split: option.splits)

lemma executable_arguments:
  assumes "executable s" and "stmt_kind s = SCall x" and "p \<in> set (children x)"
  shows "if \<exists>y. stmt_kind p = SNamedParameter y then \<forall>y. stmt_kind p = SNamedParameter y \<longrightarrow> executable y else executable p"
proof -
  have "stmt_wf x" using assms by (simp add: executable_def stmt_wf.simps [of s])
  then have wf: "stmt_wf p" using stmt_wf_children [of x] assms(3) by (simp add: list_all_iff)
  have "case stmt_kind p of SNamedParameter y \<Rightarrow> stray_free y | _ \<Rightarrow> stray_free p"
    using assms by (simp add: executable_def stray_free.simps [of s] list_all_iff)
  with wf show ?thesis
    by (cases "stmt_kind p") (simp_all add: executable_def stmt_wf.simps [of p])
qed

lemma executable_body: "executable s \<Longrightarrow> stmt_kind s = SFunctionDeclaration n a body \<Longrightarrow> executable body"
  by (simp add: executable_def stmt_wf.simps [of s] stray_free.simps [of s])

subsection \<open>The invariant of the interpreter\<close>

named_theorems run_safe

definition interpreter_ok :: "'w interpreter \<Rightarrow> bool" where
  "interpreter_ok s = (run_index s < length (run_specifics s) \<and>
     (\<forall>rs \<in> set (run_specifics s). register_ok executable (rs_register rs)))"

abbreviation current :: "'w interpreter \<Rightarrow> run_specific" where
  "current s \<equiv> run_specifics s ! run_index s"

abbreviation depth :: "'w interpreter \<Rightarrow> nat" where
  "depth s \<equiv> length (rs_register (current s))"

text \<open>From \<open>s\<close> to \<open>s'\<close> only the current run has changed, at the same position; runs were added by the root run at most.\<close>

definition leads_to :: "'w interpreter \<Rightarrow> 'w interpreter \<Rightarrow> bool" where
  "leads_to s s' = (run_index s' = run_index s \<and> rs_position (current s') = rs_position (current s) \<and>
     (\<exists>rs more_runs. run_specifics s' = (run_specifics s)[run_index s := rs] @ more_runs \<and>
        (run_index s \<noteq> 0 \<longrightarrow> more_runs = [])))"

definition includes_ok :: "'w context_config \<Rightarrow> bool" where
  "includes_ok C = (\<forall>key code stmt. cx_load C key = Inr code \<longrightarrow> Inr stmt \<in> set (parse code) \<longrightarrow> stray_free stmt)"

definition tolerated :: "crash \<Rightarrow> bool" where
  "tolerated c = (c = Arithmetic \<or> c = ArrayIndex \<or> c = BuiltinPanic)"

text \<open>
  From a depth of \<open>k\<close> contexts, \<open>m\<close> reaches the depth \<open>k'\<close> with a value that satisfies \<open>Q\<close>, or fails at a depth of at
  least \<open>b\<close>, and keeps the invariant; it may panic only where a script can make it.
\<close>

definition safe_end :: "'w interpreter \<Rightarrow> nat \<Rightarrow> nat \<Rightarrow> ('a \<Rightarrow> bool) \<Rightarrow> ('a outcome \<times> 'w interpreter) option \<Rightarrow> bool" where
  "safe_end s b k' Q x = (case x of
      None \<Rightarrow> True
    | Some (Crash c, _) \<Rightarrow> tolerated c
    | Some (Fail e, s') \<Rightarrow> interpreter_ok s' \<and> leads_to s s' \<and> b \<le> depth s'
    | Some (Value a, s') \<Rightarrow> interpreter_ok s' \<and> leads_to s s' \<and> depth s' = k' \<and> Q a)"

lemma safe_end_simps [simp]:
  "safe_end s b k' Q None"
  "safe_end s b k' Q (Some (Crash c, s')) = tolerated c"
  "safe_end s b k' Q (Some (Fail e, s')) = (interpreter_ok s' \<and> leads_to s s' \<and> b \<le> depth s')"
  "safe_end s b k' Q (Some (Value a, s')) = (interpreter_ok s' \<and> leads_to s s' \<and> depth s' = k' \<and> Q a)"
  by (simp_all add: safe_end_def)

definition safe :: "'w context_config \<Rightarrow> nat \<Rightarrow> nat \<Rightarrow> ('w, 'a) run \<Rightarrow> nat \<Rightarrow> ('a \<Rightarrow> bool) \<Rightarrow> bool" where
  "safe C b k m k' Q = (includes_ok C \<longrightarrow> (\<forall>s. interpreter_ok s \<longrightarrow> depth s = k \<longrightarrow> safe_end s b k' Q (m s)))"

lemma leads_to_refl: "interpreter_ok s \<Longrightarrow> leads_to s s"
  unfolding leads_to_def interpreter_ok_def by (metis append_Nil2 list_update_id)

lemma leads_to_trans: "interpreter_ok s \<Longrightarrow> leads_to s s1 \<Longrightarrow> leads_to s1 s2 \<Longrightarrow> leads_to s s2"
  unfolding leads_to_def interpreter_ok_def by (elim conjE exE) (simp add: list_update_append, blast)

lemma leads_to_update:
  "interpreter_ok s \<Longrightarrow> rs_position rs = rs_position (current s) \<Longrightarrow>
   leads_to s (s\<lparr>run_specifics := (run_specifics s)[run_index s := rs]\<rparr>)"
  unfolding leads_to_def interpreter_ok_def by auto

lemma current_update:
  "interpreter_ok s \<Longrightarrow> current (s\<lparr>run_specifics := (run_specifics s)[run_index s := rs]\<rparr>) = rs"
  by (simp add: interpreter_ok_def)

lemma interpreter_ok_update:
  "interpreter_ok s \<Longrightarrow> register_ok executable (rs_register rs) \<Longrightarrow>
   interpreter_ok (s\<lparr>run_specifics := (run_specifics s)[run_index s := rs]\<rparr>)"
  unfolding interpreter_ok_def by (auto simp: in_set_conv_nth nth_list_update) (metis nth_mem)

lemma current_ok: "interpreter_ok s \<Longrightarrow> register_ok executable (rs_register (current s))"
  by (simp add: interpreter_ok_def)

lemma safeI:
  fixes C :: "'w context_config"
  assumes "\<And>s. includes_ok C \<Longrightarrow> interpreter_ok s \<Longrightarrow> depth s = k \<Longrightarrow> safe_end s b k' Q (m s)"
  shows "safe C b k m k' Q"
  using assms unfolding safe_def by blast

lemma safeD:
  "safe C b k m k' Q \<Longrightarrow> includes_ok C \<Longrightarrow> interpreter_ok s \<Longrightarrow> depth s = k \<Longrightarrow> safe_end s b k' Q (m s)"
  unfolding safe_def by blast

lemma safe_includes: "(includes_ok C \<Longrightarrow> safe C b k m k' Q) \<Longrightarrow> safe C b k m k' Q"
  unfolding safe_def by blast

lemma safe_weaken:
  fixes C :: "'w context_config"
  assumes "safe C b k m k' Q" and "b' \<le> b" and "\<And>a. Q a \<Longrightarrow> Q' a"
  shows "safe C b' k m k' Q'"
proof (rule safeI)
  fix s :: "'w interpreter"
  assume s: "includes_ok C" "interpreter_ok s" "depth s = k"
  from safeD [OF assms(1) s] assms(2,3)
  show "safe_end s b' k' Q' (m s)"
    by (auto simp: safe_end_def split: option.splits outcome.splits)
qed

lemma rbind_simps [simp]: "rbind (rret a) f = f a" "rbind (rfail e) f = rfail e" "rbind (rcrash c) f = rcrash c"
  by (simp_all add: rbind_def rret_def rfail_def rcrash_def fun_eq_iff)

lemma safe_rret [run_safe]: "Q a \<Longrightarrow> safe C b k (rret a) k Q"
  by (rule safeI) (simp add: rret_def leads_to_refl)

lemma safe_rfail [run_safe]: "b \<le> k \<Longrightarrow> safe C b k (rfail e) k' Q"
  by (rule safeI) (simp add: rfail_def leads_to_refl)

lemma safe_rcrash [run_safe]: "tolerated c \<Longrightarrow> safe C b k (rcrash c) k' Q"
  by (rule safeI) (simp add: rcrash_def)

lemma safe_none [run_safe]: "safe C b k (\<lambda>_. None) k' Q"
  by (rule safeI) simp

lemma safe_rbind:
  fixes C :: "'w context_config"
  assumes m: "safe C b k m k1 P" and f: "\<And>a. P a \<Longrightarrow> safe C b k1 (f a) k2 Q"
  shows "safe C b k (rbind m f) k2 Q"
proof (rule safeI)
  fix s :: "'w interpreter"
  assume s: "includes_ok C" "interpreter_ok s" "depth s = k"
  note m' = safeD [OF m s]
  show "safe_end s b k2 Q (rbind m f s)"
  proof (cases "m s")
    case (Some p)
    obtain r s1 where p: "p = (r, s1)" by (cases p)
    show ?thesis
    proof (cases r)
      case (Value a)
      with m' Some p have *: "interpreter_ok s1" "leads_to s s1" "depth s1 = k1" "P a" by auto
      have "rbind m f s = f a s1" using Some p Value by (simp add: rbind_def)
      with safeD [OF f [OF *(4)] s(1) *(1,3)] leads_to_trans [OF s(2) *(2)] show ?thesis
        by (auto simp: safe_end_def split: option.splits outcome.splits)
    qed (use m' Some p in \<open>simp_all add: rbind_def\<close>)
  qed (simp add: rbind_def)
qed

lemma safe_get_run: "safe C b k get_run k (\<lambda>rs. register_ok executable (rs_register rs) \<and> length (rs_register rs) = k)"
  by (rule safeI) (simp add: get_run_def interpreter_ok_def leads_to_refl [unfolded interpreter_ok_def])

lemma safe_change_register [run_safe]:
  fixes C :: "'w context_config"
  assumes "\<And>r. register_ok executable r \<Longrightarrow> length r = k \<Longrightarrow> register_ok executable (f r) \<and> length (f r) = k'" and "\<And>a. Q a"
  shows "safe C b k (change_register f) k' Q"
proof (rule safeI)
  fix s :: "'w interpreter"
  assume s: "includes_ok C" "interpreter_ok s" "depth s = k"
  let ?rs = "(current s)\<lparr>rs_register := f (rs_register (current s))\<rparr>"
  have "change_register f s = Some (Value (), s\<lparr>run_specifics := (run_specifics s)[run_index s := ?rs]\<rparr>)"
    using s(2) by (simp add: change_register_def change_run_def rbind_def get_run_def put_run_def interpreter_ok_def)
  with assms(1) [OF current_ok [OF s(2)] s(3)] assms(2) interpreter_ok_update [OF s(2), of ?rs] leads_to_update [OF s(2), of ?rs]
    current_update [OF s(2), of ?rs]
  show "safe_end s b k' Q (change_register f s)" by simp
qed

lemma safe_try_register [run_safe]:
  fixes C :: "'w context_config"
  assumes "\<And>r. register_ok executable r \<Longrightarrow> length r = k \<Longrightarrow> \<exists>r'. f r = Ret r' \<and> register_ok executable r' \<and> length r' = k" and "\<And>a. Q a"
  shows "safe C b k (try_register f) k Q"
proof (rule safeI)
  fix s :: "'w interpreter"
  assume s: "includes_ok C" "interpreter_ok s" "depth s = k"
  obtain r' where r': "f (rs_register (current s)) = Ret r'" "register_ok executable r'" "length r' = k"
    using assms(1) [OF current_ok [OF s(2)] s(3)] by blast
  let ?rs = "(current s)\<lparr>rs_register := r'\<rparr>"
  have "try_register f s = Some (Value (), s\<lparr>run_specifics := (run_specifics s)[run_index s := ?rs]\<rparr>)"
    using s(2) r'(1) by (simp add: try_register_def rbind_def get_run_def put_run_def rlift_def rret_def interpreter_ok_def)
  with r' assms(2) interpreter_ok_update [OF s(2), of ?rs] leads_to_update [OF s(2), of ?rs] current_update [OF s(2), of ?rs]
  show "safe_end s b k Q (try_register f s)" by simp
qed

lemma safe_read_register [run_safe]:
  assumes "\<And>r. register_ok executable r \<Longrightarrow> length r = k \<Longrightarrow> \<exists>a. f r = Ret a \<and> Q a"
  shows "safe C b k (read_register f) k Q"
  unfolding read_register_def
  by (rule safe_rbind [OF safe_get_run]) (use assms in \<open>fastforce simp: rlift_def intro: safe_rret\<close>)

lemma safe_rresult [run_safe]: "b \<le> k \<Longrightarrow> (\<And>a. r = Inr a \<Longrightarrow> Q a) \<Longrightarrow> safe C b k (rresult r) k Q"
  unfolding rresult_def by (auto split: sum.split intro: run_safe)

lemma safe_rlift [run_safe]: "tolerated c \<Longrightarrow> (\<And>a. x = Ret a \<Longrightarrow> Q a) \<Longrightarrow> safe C b k (rlift c x) k Q"
  unfolding rlift_def by (auto split: exec.split intro: run_safe)

lemma tolerated_simps [simp]: "tolerated Arithmetic" "tolerated ArrayIndex" "tolerated BuiltinPanic"
  by (simp_all add: tolerated_def)

lemma safe_rop [run_safe]: "b \<le> k \<Longrightarrow> safe C b k (rop x) k (\<lambda>_. True)"
  unfolding rop_def by (rule safe_rbind [where P = "\<lambda>_. True"]) (auto intro: run_safe)

text \<open>What a lookup returns in a register that is well formed.\<close>

lemma lookup_in_defined:
  "lookup_in r is name = Some (i, v) \<Longrightarrow> i \<in> set is \<and> (name, v) \<in> set (ctx_defined (r ! i))"
  by (auto simp: lookup_in_def find_Some_iff split: option.splits dest: map_of_SomeD)

lemma index_named_ok:
  assumes "register_ok P r"
  obtains found where "index_named r name = Ret found" and "\<forall>i v. found = Some (i, v) \<longrightarrow> i < length r"
    and "\<forall>i ps body. found = Some (i, CFunction ps body) \<longrightarrow> P body"
proof
  have len: "length r - 1 < length r" using register_ok_nonempty [OF assms] by (cases r) auto
  show "index_named r name = Ret (lookup_in r (scopes r (length r - 1)) name)" by (rule index_named_scopes [OF assms])
  show bound: "\<forall>i v. lookup_in r (scopes r (length r - 1)) name = Some (i, v) \<longrightarrow> i < length r"
  proof (intro allI impI)
    fix i v
    assume "lookup_in r (scopes r (length r - 1)) name = Some (i, v)"
    from scopes_bounded [OF assms len conjunct1 [OF lookup_in_defined [OF this]]] len show "i < length r" by linarith
  qed
  show "\<forall>i ps body. lookup_in r (scopes r (length r - 1)) name = Some (i, CFunction ps body) \<longrightarrow> P body"
  proof (intro allI impI)
    fix i ps body
    assume l: "lookup_in r (scopes r (length r - 1)) name = Some (i, CFunction ps body)"
    then have "i < length r" using bound by blast
    then have "context_ok P (r ! i)" using assms by (simp add: register_ok_def)
    with conjunct2 [OF lookup_in_defined [OF l]] show "P body" unfolding context_ok_def by blast
  qed
qed

lemma safe_index_named [run_safe]:
  "safe C b k (read_register (\<lambda>r. index_named r name)) k (\<lambda>found. \<forall>i v. found = Some (i, v) \<longrightarrow> i < k)"
  by (rule safe_read_register) (erule index_named_ok [of executable _ name], auto)

lemma safe_named [run_safe]:
  "safe C b k (read_register (\<lambda>r. named r name)) k (\<lambda>found. \<forall>ps body. found = Some (CFunction ps body) \<longrightarrow> executable body)"
  by (rule safe_read_register) (erule index_named_ok [of executable _ name], auto simp: named_def)

lemma safe_save [run_safe]: "i < k \<Longrightarrow> safe C b k (save i key v) k (\<lambda>_. True)"
  unfolding save_def
  by (rule safe_try_register) (auto simp: add_to_index_def intro!: register_ok_update)

lemma safe_add_global [run_safe]:
  "(\<And>ps body. v = CFunction ps body \<Longrightarrow> executable body) \<Longrightarrow> safe C b k (try_register (add_global key v)) k (\<lambda>_. True)"
  by (rule safe_try_register) (metis add_global_ok, simp)

lemma safe_add_local [run_safe]: "safe C b k (change_register (add_local key (CValue v))) k (\<lambda>_. True)"
  by (rule safe_change_register) (auto intro: add_local_ok)

lemma safe_create_child: "safe C b k (change_register (create_child [])) (Suc k) (\<lambda>_. True)"
  by (rule safe_change_register) (auto intro: create_child_ok)

lemma safe_drop_last: "1 \<le> k \<Longrightarrow> safe C b (Suc k) (change_register drop_last) k (\<lambda>_. True)"
  by (rule safe_change_register) (auto intro: drop_last_ok)

lemma safe_create_root_child:
  "(\<And>k ps body. (k, CFunction ps body) \<notin> set d) \<Longrightarrow> safe C b k (change_register (create_root_child d)) (Suc k) (\<lambda>_. True)"
  by (rule safe_change_register) (auto intro: create_root_child_ok)

lemma safe_nasl_fn_execute [run_safe]: "safe C b k (nasl_fn_execute f) k (\<lambda>_. True)"
proof (rule safeI)
  fix s :: "'a interpreter"
  assume s: "interpreter_ok s" "depth s = k"
  have "interpreter_ok (s\<lparr>world := w\<rparr>)" "leads_to s (s\<lparr>world := w\<rparr>)" for w
    using s(1) leads_to_refl [OF s(1)] by (simp_all add: interpreter_ok_def leads_to_def)
  with s show "safe_end s b k (\<lambda>_. True) (nasl_fn_execute f s)"
    by (simp add: nasl_fn_execute_def rbind_def get_run_def interpreter_ok_def split: prod.split exec.split)
qed

lemma safe_fork_runs [run_safe]: "safe C b k (fork_runs x) k (\<lambda>_. True)"
proof (rule safeI)
  fix s :: "'a interpreter"
  assume s: "interpreter_ok s" "depth s = k"
  have "leads_to s (s\<lparr>run_specifics := run_specifics s @ rss\<rparr>)" if "run_index s = 0" for rss
    using s(1) that unfolding leads_to_def interpreter_ok_def by (auto simp: nth_append intro: list_update_id [symmetric])
  with s leads_to_refl [OF s(1)] show "safe_end s b k (\<lambda>_. True) (fork_runs x s)"
    by (auto simp: fork_runs_def rbind_def get_run_def interpreter_ok_def nth_append)
qed

subsection \<open>Operations on top of a resolver\<close>

text \<open>What the operations of the interpreter rely on: an executable statement is resolved at the depth it started with.\<close>

locale safe_resolver =
  fixes C :: "'w context_config" and res :: "'w resolver"
  assumes res_safe: "executable stmt \<Longrightarrow> 1 \<le> k \<Longrightarrow> safe C k k (res stmt) k (\<lambda>_. True)"
begin

lemma res_bind [run_safe]:
  "executable stmt \<Longrightarrow> 1 \<le> k \<Longrightarrow> b \<le> k \<Longrightarrow> (\<And>v. safe C b k (f v) k' Q) \<Longrightarrow> safe C b k (rbind (res stmt) f) k' Q"
  by (rule safe_rbind [OF safe_weaken [OF res_safe]]) auto

lemma res_last [run_safe]: "executable stmt \<Longrightarrow> 1 \<le> k \<Longrightarrow> b \<le> k \<Longrightarrow> safe C b k (res stmt) k (\<lambda>_. True)"
  by (rule safe_weaken [OF res_safe]) auto

lemma safe_execute:
  "list_all executable stmts \<Longrightarrow> length stmts = 1 \<or> length stmts = 2 \<Longrightarrow> 1 \<le> k \<Longrightarrow>
   safe C k k (execute res stmts f) k (\<lambda>_. True)"
  unfolding execute_def stmt_at_def
  by (auto simp: list_all_length intro!: run_safe)

end

context safe_resolver
begin

lemma safe_resolve_times: "executable stmt \<Longrightarrow> 1 \<le> k \<Longrightarrow> safe C k k (resolve_times res n stmt) k (\<lambda>_. True)"
  by (induction n) (auto intro!: run_safe)

lemma safe_op_times:
  "list_all executable stmts \<Longrightarrow> length stmts = 2 \<Longrightarrow> 1 \<le> k \<Longrightarrow> safe C k k (op_times res stmts) k (\<lambda>_. True)"
  unfolding op_times_def stmt_at_def Let_def
  by (auto simp: list_all_length intro!: run_safe safe_rbind [OF safe_resolve_times])

lemma safe_operator:
  "list_all executable stmts \<Longrightarrow> length stmts = 1 \<and> cat \<in> {Plus, Minus, Tilde, Bang} \<or> length stmts = 2 \<Longrightarrow> 1 \<le> k \<Longrightarrow>
   safe C k k (operator C res cat stmts) k (\<lambda>_. True)"
  unfolding operator_def by (auto split: option.split intro!: safe_op_times safe_execute run_safe)

lemma safe_named_value:
  "1 \<le> k \<Longrightarrow> safe C k k (named_value key) k (\<lambda>(i, _). i < k)"
  unfolding named_value_def
  by (rule safe_rbind [OF safe_index_named]) (auto split: option.split context_type.split intro!: run_safe)

lemma lift_bind: "(\<And>v. safe C b k (f v) k' Q) \<Longrightarrow> safe C b k (rbind (rlift Arithmetic x) f) k' Q"
  by (rule safe_rbind [OF safe_rlift [where Q = "\<lambda>_. True"]]) auto

lemma save_bind: "i < k \<Longrightarrow> safe C b k f k' Q \<Longrightarrow> safe C b k (rbind (save i key v) (\<lambda>_. f)) k' Q"
  by (rule safe_rbind [OF safe_save]) auto

lemma result_bind: "b \<le> k \<Longrightarrow> (\<And>v. r = Inr v \<Longrightarrow> safe C b k (f v) k' Q) \<Longrightarrow> safe C b k (rbind (rresult r) f) k' Q"
  by (rule safe_rbind [OF safe_rresult [where Q = "\<lambda>a. r = Inr a"]]) auto

lemma safe_handle_dict: "i < k \<Longrightarrow> safe C k k (handle_dict i key idx l r order f) k (\<lambda>_. True)"
  unfolding handle_dict_def Let_def by (auto intro!: lift_bind save_bind run_safe)

lemma safe_handle_array: "i < k \<Longrightarrow> safe C k k (handle_array i key idx l r order f) k (\<lambda>_. True)"
  unfolding handle_array_def by (auto split: prod.split intro!: lift_bind save_bind run_safe)

lemma safe_dynamic_return: "1 \<le> k \<Longrightarrow> safe C k k (dynamic_return key order lookup right f) k (\<lambda>_. True)"
  unfolding dynamic_return_def
  by (rule safe_rbind [OF safe_named_value])
    (auto split: option.split nasl_value.split intro!: lift_bind save_bind run_safe safe_handle_dict safe_handle_array)

lemma safe_assign_target:
  assumes "executable left" and "is_variable_or_array (stmt_kind left)" and "1 \<le> k"
  shows "safe C k k (assign_target res left) k (\<lambda>_. True)"
proof -
  have "executable i" if "stmt_kind left = SArray (Some i)" for i
    using executable_parts [OF assms(1)] that by (simp add: runs_parts_def)
  with assms show ?thesis
    unfolding assign_target_def is_variable_or_array_def
    by (auto split: statement_kind.splits option.split intro!: result_bind run_safe)
qed

lemma safe_assign_value: "1 \<le> k \<Longrightarrow> safe C k k (assign_value cat order key lookup v) k (\<lambda>_. True)"
  by (cases cat) (simp_all add: assign_value_def store_return_def without_right_def safe_dynamic_return safe_rfail)

lemma safe_assign:
  assumes "executable left" and "is_variable_or_array (stmt_kind left)" and "executable right" and "1 \<le> k"
  shows "safe C k k (assign res cat order left right) k (\<lambda>_. True)"
  unfolding assign_def
  by (rule safe_rbind [OF safe_assign_target [OF assms(1,2,4)]])
    (use assms(3,4) in \<open>auto intro!: res_bind safe_assign_value\<close>)

end

context safe_resolver
begin

lemma safe_for_iter:
  "executable condition \<Longrightarrow> executable update \<Longrightarrow> executable body \<Longrightarrow> 1 \<le> k \<Longrightarrow>
   safe C k k (for_iter res n condition update body) k (\<lambda>_. True)"
  by (induction n) (auto split: option.split intro!: run_safe)

lemma safe_for_loop:
  "list_all executable [assignment, condition, update, body] \<Longrightarrow> 1 \<le> k \<Longrightarrow>
   safe C k k (for_loop res n assignment condition update body) k (\<lambda>_. True)"
  unfolding for_loop_def by (auto intro!: res_bind safe_for_iter)

lemma safe_for_each_iter: "executable body \<Longrightarrow> 1 \<le> k \<Longrightarrow> safe C k k (for_each_iter res name body vs) k (\<lambda>_. True)"
  by (induction vs) (auto split: option.split intro!: run_safe safe_rbind [OF safe_add_local])

lemma safe_for_each_loop:
  "list_all executable [iterable, body] \<Longrightarrow> 1 \<le> k \<Longrightarrow> safe C k k (for_each_loop res variable iterable body) k (\<lambda>_. True)"
  unfolding for_each_loop_def by (auto intro!: result_bind res_bind safe_for_each_iter)

lemma safe_while_loop: "list_all executable [condition, body] \<Longrightarrow> 1 \<le> k \<Longrightarrow> safe C k k (while_loop res n condition body) k (\<lambda>_. True)"
  by (induction n) (auto split: option.split intro!: run_safe)

lemma safe_repeat_loop: "list_all executable [body, condition] \<Longrightarrow> 1 \<le> k \<Longrightarrow> safe C k k (repeat_loop res n body condition) k (\<lambda>_. True)"
  by (induction n) (auto split: option.split intro!: run_safe)

lemma safe_declare_function:
  "executable body \<Longrightarrow> safe C k k (declare_function name args body) k (\<lambda>_. True)"
  unfolding declare_function_def by (auto intro!: result_bind safe_rbind [OF safe_add_global] run_safe)

lemma safe_declare_all:
  "tok_category scope = Identifier KwLocalVar \<or> tok_category scope = Identifier KwGlobalVar \<Longrightarrow>
   safe C k k (declare_all scope stmts) k (\<lambda>_. True)"
proof (induction stmts)
  case (Cons stmt stmts)
  have "safe C k k (declare_add scope key) k (\<lambda>_. True)" for key
    using Cons.prems by (auto simp: declare_add_def intro: run_safe)
  with Cons show ?case
    by (auto split: statement_kind.split category.split intro!: safe_rbind [where P = "\<lambda>_. True"] run_safe)
qed (simp add: run_safe)

lemma safe_declare_variable:
  "tok_category scope = Identifier KwLocalVar \<or> tok_category scope = Identifier KwGlobalVar \<Longrightarrow>
   safe C k k (declare_variable scope stmts) k (\<lambda>_. True)"
  unfolding declare_variable_def by (rule safe_rbind [OF safe_declare_all]) (auto intro: run_safe)

lemma safe_call_arguments:
  assumes "1 \<le> k"
  shows "\<forall>p \<in> set ps. if \<exists>y. stmt_kind p = SNamedParameter y then \<forall>y. stmt_kind p = SNamedParameter y \<longrightarrow> executable y else executable p \<Longrightarrow>
    (\<And>n ps body. (n, CFunction ps body) \<notin> set nameds) \<Longrightarrow>
    safe C k k (call_arguments res ps nameds vs) k (\<lambda>(nameds, _). \<forall>n ps body. (n, CFunction ps body) \<notin> set nameds)"
proof (induction ps arbitrary: nameds vs)
  case (Cons p ps)
  have "(n, CFunction qs body) \<notin> set (hm_insert name (CValue v) nameds)" for name v n qs body
    using set_hm_insert [of name "CValue v" nameds] Cons.prems(2) by blast
  with Cons assms show ?case
    by (cases "stmt_kind p") (auto intro!: res_bind result_bind)
qed (simp add: run_safe)

lemma safe_call_builtin: "safe C k k (call_builtin name f) k (\<lambda>_. True)"
  unfolding call_builtin_def
  by (rule safe_rbind [OF safe_nasl_fn_execute])
    (auto split: sum.split nasl_value.split intro!: run_safe safe_rbind [OF safe_fork_runs])

lemma safe_add_defaults: "safe C k k (add_defaults ps) k (\<lambda>_. True)"
  by (induction ps) (auto split: option.split intro!: run_safe safe_rbind [OF safe_named] safe_rbind [OF safe_add_local])

lemma safe_call_declared: "1 \<le> k \<Longrightarrow> safe C k k (call_declared res name) k (\<lambda>_. True)"
  unfolding call_declared_def
  by (rule safe_rbind [OF safe_named])
    (auto split: option.split context_type.split nasl_value.split intro!: run_safe safe_rbind [OF safe_add_defaults])

lemma safe_call:
  assumes "\<forall>p \<in> set ps. if \<exists>y. stmt_kind p = SNamedParameter y then \<forall>y. stmt_kind p = SNamedParameter y \<longrightarrow> executable y else executable p"
    and "1 \<le> k"
  shows "safe C k k (call C res t ps) k (\<lambda>_. True)"
proof -
  have body: "safe C k (Suc k) (case executor_exec (cx_sets C) name of Some f \<Rightarrow> call_builtin name f | None \<Rightarrow> call_declared res name)
      (Suc k) (\<lambda>_. True)" for name
    by (auto split: option.split intro: safe_weaken [OF safe_call_builtin] safe_weaken [OF safe_call_declared])
  have insert: "(n, CFunction qs b) \<notin> set (hm_insert name (CValue v) nameds)"
    if "\<forall>n ps body. (n, CFunction ps body) \<notin> set nameds" for name v n qs b nameds
    using set_hm_insert [of name "CValue v" nameds] that by blast
  show ?thesis
    unfolding call_def
    by (rule result_bind, simp, rule safe_rbind [OF safe_call_arguments [OF assms(2,1)]], simp)
      (use assms(2) in \<open>auto intro!: safe_rbind [OF safe_create_root_child] safe_rbind [OF body] safe_rbind [OF safe_drop_last]
        safe_rresult simp: insert\<close>)
qed

end

lemma parsed_wf: "Inr s \<in> set (parse code) \<Longrightarrow> stmt_wf s"
  using lexer_collect_wf [of "lexer_new (tokenize code)"] by (fastforce simp: parse_def list_all_iff)

lemma safe_with_interpreter:
  fixes C :: "'w context_config"
  assumes "register_ok executable r" and "length r = k" and m: "safe C k k m k Q"
  shows "safe C k k (with_interpreter r m) k Q"
proof (rule safeI)
  fix s :: "'w interpreter"
  assume s: "includes_ok C" "interpreter_ok s" "depth s = k"
  have new: "interpreter_ok (interpreter_new r (world s))" "depth (interpreter_new r (world s)) = k"
    using assms by (simp_all add: interpreter_new_def interpreter_ok_def)
  have "interpreter_ok (s\<lparr>world := w\<rparr>)" "leads_to s (s\<lparr>world := w\<rparr>)" for w
    using s(2) leads_to_refl [OF s(2)] by (simp_all add: interpreter_ok_def leads_to_def)
  with safeD [OF m s(1) new] s(3) show "safe_end s k k Q (with_interpreter r m s)"
    by (auto simp: with_interpreter_def safe_end_def split: option.splits outcome.splits)
qed

lemma safe_set_register: "register_ok executable r \<Longrightarrow> length r = k \<Longrightarrow> safe C b k (set_register r) k (\<lambda>_. True)"
  using safe_change_register [of k "\<lambda>_. r" k "\<lambda>_. True" C b] by (simp add: set_register_def change_register_def)

context safe_resolver
begin

lemma safe_execute_included:
  assumes "includes_ok C" and "cx_load C key = Inr code" and "1 \<le> k"
  shows "set stmts \<subseteq> set (parse code) \<Longrightarrow> safe C k k (execute_included res key stmts) k (\<lambda>_. True)"
proof (induction stmts)
  case (Cons stmt stmts)
  have "executable x" if "stmt = Inr x" for x
    using assms(1,2) Cons.prems parsed_wf [of x code] that by (auto simp: includes_ok_def executable_def)
  with Cons assms(3) show ?case
    by (auto simp: execute_statements_def split: sum.split intro!: res_bind run_safe)
qed (simp add: run_safe)

lemma safe_include_script: "executable name \<Longrightarrow> 1 \<le> k \<Longrightarrow> safe C k k (include_script C res name) k (\<lambda>_. True)"
proof (rule safe_includes)
  assume ex: "executable name" and k: "1 \<le> k" and inc: "includes_ok C"
  have inner: "safe C k k (rbind (execute_included res key (parse code)) (\<lambda>_. get_run)) k
      (\<lambda>rs. register_ok executable (rs_register rs) \<and> length (rs_register rs) = k)" if "cx_load C key = Inr code" for key code
    by (rule safe_rbind [OF safe_execute_included [OF inc that k order_refl] safe_get_run])
  have "safe C k k (rbind get_run (\<lambda>rs. rbind (with_interpreter (rs_register rs) (rbind (execute_included res key (parse code)) (\<lambda>_. get_run)))
      (\<lambda>fresh. rbind (set_register (rs_register fresh)) (\<lambda>_. rret NNull)))) k (\<lambda>_. True)" if "cx_load C key = Inr code" for key code
    by (rule safe_rbind [OF safe_get_run], elim conjE, rule safe_rbind [OF safe_with_interpreter [OF _ _ inner [OF that]]])
      (auto intro!: safe_rbind [OF safe_set_register] run_safe)
  with ex k show "safe C k k (include_script C res name) k (\<lambda>_. True)"
    unfolding include_script_def by (auto split: nasl_value.split sum.split intro!: res_bind run_safe)
qed

lemma safe_resolve_array:
  "(\<And>x. i = Some x \<Longrightarrow> executable x) \<Longrightarrow> 1 \<le> k \<Longrightarrow> safe C k k (resolve_array res stmt i) k (\<lambda>_. True)"
  unfolding resolve_array_def
  by (rule result_bind, simp, rule safe_rbind [OF safe_named])
    (auto split: option.split context_type.split nasl_value.split intro!: run_safe simp: Let_def)

lemma safe_resolve_variable: "safe C k k (resolve_variable stmt) k (\<lambda>_. True)"
  unfolding resolve_variable_def
  by (auto split: sum.split option.split context_type.split intro!: run_safe safe_rbind [OF safe_named])

lemma safe_resolve_all: "list_all executable stmts \<Longrightarrow> 1 \<le> k \<Longrightarrow> safe C k k (resolve_all res stmts) k (\<lambda>_. True)"
  by (induction stmts) (auto intro!: run_safe safe_rbind [where P = "\<lambda>_. True" and m = "resolve_all res _"])

lemma safe_block_items:
  "list_all executable stmts \<Longrightarrow> 1 \<le> k \<Longrightarrow> safe C k (Suc k) (block_items res stmts) k (\<lambda>_. True)"
  by (induction stmts) (auto intro!: res_bind run_safe safe_rbind [OF safe_drop_last])

lemma safe_resolve_kind:
  assumes ex: "executable stmt" and k: "1 \<le> k"
  shows "safe C k k (resolve_kind C n res stmt) k (\<lambda>_. True)"
proof -
  note parts = executable_parts [OF ex]
  note wf = executable_kind [OF ex]
  show ?thesis
  proof (cases "stmt_kind stmt")
    case SPrimitive
    then show ?thesis by (auto simp: resolve_kind_def resolve_primitive_def split: sum.split intro: run_safe)
  next
    case SAttackCategory
    with wf show ?thesis
      by (auto simp: resolve_kind_def resolve_attack_category_def kind_wf_def is_attack_category_def
          split: category.splits identifier_type.splits intro: run_safe)
  next
    case (SArray i)
    with parts k show ?thesis
      by (auto simp: resolve_kind_def runs_parts_def split: option.splits intro!: safe_resolve_array)
  next
    case (SCall x)
    then show ?thesis using executable_arguments [OF ex SCall] k by (auto simp: resolve_kind_def intro!: safe_call)
  next
    case (SExit x)
    with parts k show ?thesis
      by (auto simp: resolve_kind_def runs_parts_def resolve_exit_def split: nasl_value.split intro!: run_safe)
  next
    case (SNamedParameter x)
    with ex show ?thesis by (simp add: executable_def stray_free.simps [of stmt])
  next
    case (SFunctionDeclaration t a body)
    then show ?thesis using executable_body [OF ex] by (auto simp: resolve_kind_def intro!: safe_declare_function)
  next
    case (SDeclare xs)
    with wf show ?thesis by (auto simp: resolve_kind_def kind_wf_def intro!: safe_declare_variable)
  next
    case (SParameter xs)
    with parts k show ?thesis
      by (auto simp: resolve_kind_def runs_parts_def resolve_parameter_def intro!: safe_rbind [OF safe_resolve_all] run_safe)
  next
    case (SBlock xs)
    with parts k show ?thesis
      by (auto simp: resolve_kind_def runs_parts_def resolve_block_def intro!: safe_rbind [OF safe_create_child] safe_block_items)
  next
    case (SIf c b t e)
    with parts k show ?thesis
      by (auto simp: resolve_kind_def runs_parts_def resolve_if_def split: option.splits intro!: run_safe)
  qed (use parts k wf in \<open>auto simp: resolve_kind_def runs_parts_def resolve_return_def kind_wf_def
      intro!: safe_include_script safe_for_loop safe_while_loop safe_repeat_loop safe_for_each_loop safe_resolve_variable
        safe_assign safe_operator run_safe\<close>)
qed

end

subsection \<open>Resolving a statement\<close>

text \<open>
  One step of \<^const>\<open>resolve\<close> around what a statement does: the position is a level deeper in between, and the same
  afterwards.
\<close>

definition push_position :: "'w interpreter \<Rightarrow> 'w interpreter" where
  "push_position s = s\<lparr>run_specifics := (run_specifics s)[run_index s := (current s)\<lparr>rs_position := position_up (rs_position (current s))\<rparr>]\<rparr>"

definition pop_position :: "'w interpreter \<Rightarrow> 'w interpreter" where
  "pop_position s = s\<lparr>run_specifics := (run_specifics s)[run_index s := (current s)\<lparr>rs_position := position_down (rs_position (current s))\<rparr>]\<rparr>"

lemma up_push: "interpreter_ok s \<Longrightarrow> up s = Some (Value (), push_position s)"
  by (simp add: up_def change_run_def rbind_def get_run_def put_run_def push_position_def interpreter_ok_def)

lemma down_pop: "interpreter_ok s \<Longrightarrow> down s = Some (Value (), pop_position s)"
  by (simp add: down_def change_run_def rbind_def get_run_def put_run_def pop_position_def interpreter_ok_def)

lemma push_position_ok: "interpreter_ok s \<Longrightarrow> interpreter_ok (push_position s) \<and> depth (push_position s) = depth s"
  using interpreter_ok_update [of s "(current s)\<lparr>rs_position := position_up (rs_position (current s))\<rparr>"] current_ok [of s]
  by (simp add: push_position_def current_update) (simp add: interpreter_ok_def)

lemma pop_position_ok: "interpreter_ok s \<Longrightarrow> interpreter_ok (pop_position s) \<and> depth (pop_position s) = depth s"
  using interpreter_ok_update [of s "(current s)\<lparr>rs_position := position_down (rs_position (current s))\<rparr>"] current_ok [of s]
  by (simp add: pop_position_def current_update) (simp add: interpreter_ok_def)

lemma push_pop_leads_to:
  assumes "interpreter_ok s" and "leads_to (push_position s) s'"
  shows "leads_to s (pop_position s')"
proof -
  let ?s1 = "push_position s"
  obtain rs more_runs where *: "run_index s' = run_index ?s1" "rs_position (current s') = rs_position (current ?s1)"
    "run_specifics s' = (run_specifics ?s1)[run_index ?s1 := rs] @ more_runs" "run_index ?s1 \<noteq> 0 \<longrightarrow> more_runs = []"
    using assms(2) unfolding leads_to_def by blast
  have s': "run_index s' = run_index s" "rs_position (current s') = position_up (rs_position (current s))"
    "run_specifics s' = (run_specifics s)[run_index s := rs] @ more_runs" "run_index s \<noteq> 0 \<longrightarrow> more_runs = []"
    using * assms(1) by (simp_all add: push_position_def interpreter_ok_def)
  let ?rs = "(current s')\<lparr>rs_position := position_down (rs_position (current s'))\<rparr>"
  have "run_specifics (pop_position s') = (run_specifics s)[run_index s := ?rs] @ more_runs"
    using assms(1) s'(1) by (simp add: pop_position_def s'(3) interpreter_ok_def list_update_append)
  moreover have "rs_position ?rs = rs_position (current s)" using s'(2) by (simp add: position_up_def position_down_def)
  ultimately show ?thesis
    using assms(1) s' unfolding leads_to_def
    by (intro conjI exI [of _ ?rs] exI [of _ more_runs]) (simp_all add: pop_position_def interpreter_ok_def nth_append)
qed

lemma resolve_Suc:
  assumes "interpreter_ok s"
  shows "resolve C (Suc n) stmt s =
    (let s1 = push_position s in case rs_skip (current s1) of
        Some (cp, rv) \<Rightarrow>
          (if root_index (rs_position (current s1)) < root_index cp then Some (Value NNull, pop_position s1)
           else if cp = rs_position (current s1) then
             Some (Value rv, pop_position (s1\<lparr>run_specifics := (run_specifics s1)[run_index s1 := (current s1)\<lparr>rs_skip := None\<rparr>]\<rparr>))
           else rensure (with_origin stmt) (resolve_kind C n (resolve C n) stmt) down s1)
      | None \<Rightarrow> rensure (with_origin stmt) (resolve_kind C n (resolve C n) stmt) down s1)"
proof -
  define s1 where "s1 = push_position s"
  have ok: "interpreter_ok s1" using push_position_ok [OF assms] by (simp add: s1_def)
  let ?s2 = "s1\<lparr>run_specifics := (run_specifics s1)[run_index s1 := (current s1)\<lparr>rs_skip := None\<rparr>]\<rparr>"
  have ok2: "interpreter_ok ?s2" using interpreter_ok_update [OF ok] current_ok [OF ok] by simp
  have "get_run s1 = Some (Value (current s1), s1)" "put_run rs s1 = Some (Value (), s1\<lparr>run_specifics := (run_specifics s1)[run_index s1 := rs]\<rparr>)" for rs
    using ok by (simp_all add: get_run_def put_run_def interpreter_ok_def)
  then show ?thesis
    using down_pop [OF ok] down_pop [OF ok2]
    by (simp add: resolve.simps rbind_def [of up] rbind_def [of get_run] rbind_def [of "put_run _"] rbind_def [of down] up_push [OF assms]
        Let_def rret_def flip: s1_def split: option.split)
qed

lemma safe_rensure:
  fixes C :: "'w context_config" and m :: "('w, 'a) run"
  assumes m: "safe C k k m k (\<lambda>_. True)" and C: "includes_ok C" and s: "interpreter_ok s" and d: "depth s = k"
  shows "safe_end s k k (\<lambda>_. True) (rensure g m down (push_position s))"
proof -
  let ?s1 = "push_position s"
  have s1: "interpreter_ok ?s1" "depth ?s1 = k" using push_position_ok [OF s] d by auto
  note end1 = safeD [OF m C s1]
  show ?thesis
  proof (cases "m ?s1")
    case (Some p)
    then obtain r s2 where r: "m ?s1 = Some (r, s2)" by (cases p) auto
    show ?thesis
    proof (cases r)
      case (Fail e)
      with end1 r have s2: "interpreter_ok s2" "leads_to ?s1 s2" "k \<le> depth s2" by auto
      with r Fail push_pop_leads_to [OF s s2(2)] pop_position_ok [OF s2(1)] show ?thesis
        by (simp add: rensure_def rbind_def down_pop rfail_def)
    next
      case (Value a)
      with end1 r have s2: "interpreter_ok s2" "leads_to ?s1 s2" "depth s2 = k" by auto
      with r Value push_pop_leads_to [OF s s2(2)] pop_position_ok [OF s2(1)] show ?thesis
        by (simp add: rensure_def rbind_def down_pop rret_def)
    qed (use end1 r in \<open>simp_all add: rensure_def\<close>)
  qed (simp add: rensure_def)
qed

lemma resolve_step_safe:
  fixes C :: "'w context_config"
  assumes "safe_resolver C (resolve C n)" and "executable stmt" and "1 \<le> k"
  shows "safe C k k (resolve C (Suc n) stmt) k (\<lambda>_. True)"
proof (rule safeI)
  fix s :: "'w interpreter"
  assume s: "includes_ok C" "interpreter_ok s" "depth s = k"
  let ?s1 = "push_position s"
  have s1: "interpreter_ok ?s1" "depth ?s1 = k" "leads_to ?s1 ?s1"
    using push_position_ok [OF s(2)] s(3) leads_to_refl by auto
  have ens: "safe_end s k k (\<lambda>_. True) (rensure (with_origin stmt) (resolve_kind C n (resolve C n) stmt) down ?s1)"
    by (rule safe_rensure [OF safe_resolver.safe_resolve_kind [OF assms] s])
  have same: "safe_end s k k (\<lambda>_. True) (Some (Value v, pop_position s2))"
    if "interpreter_ok s2" "leads_to ?s1 s2" "depth s2 = k" for v and s2 :: "'w interpreter"
    using push_pop_leads_to [OF s(2) that(2)] pop_position_ok [OF that(1)] that(3) by simp
  let ?rs = "(current ?s1)\<lparr>rs_skip := None\<rparr>"
  have "safe_end s k k (\<lambda>_. True) (Some (Value v, pop_position (?s1\<lparr>run_specifics := (run_specifics ?s1)[run_index ?s1 := ?rs]\<rparr>)))" for v
    using interpreter_ok_update [OF s1(1), of ?rs] leads_to_update [OF s1(1), of ?rs] current_update [OF s1(1), of ?rs] current_ok [OF s1(1)] s1(2)
    by (intro same) simp_all
  with ens same [OF s1(1,3,2)] show "safe_end s k k (\<lambda>_. True) (resolve C (Suc n) stmt s)"
    unfolding resolve_Suc [OF s(2)] Let_def by (simp split: option.split)
qed

lemma safe_resolver_resolve: "safe_resolver C (resolve C n)"
proof (induction n)
  case 0
  show ?case by unfold_locales (simp add: resolve.simps run_safe)
next
  case (Suc n)
  show ?case by unfold_locales (rule resolve_step_safe [OF Suc])
qed

interpretation nasl_run: safe_resolver C "resolve C n" for C n
  by (rule safe_resolver_resolve)


text \<open>The division \<^verbatim>\<open>1 / 0\<close>, in a fresh interpreter.\<close>

definition division_by_zero :: statement where
  "division_by_zero =
     (let number = (\<lambda>n. Statement SPrimitive (token_default\<lparr>tok_category := NumberLit n\<rparr>) None)
      in Statement (SOperator Slash [number 1, number 0]) (token_default\<lparr>tok_category := NumberLit 1\<rparr>) None)"

definition no_functions :: "unit context_config" where
  "no_functions = \<lparr>cx_sets = [], cx_load = (\<lambda>key. Inl (LoadNotFound key)), cx_regex = (\<lambda>_. None)\<rparr>"



definition replaying :: "unit interpreter" where
  "replaying = \<lparr>run_specifics = [\<lparr>rs_register = register_new, rs_position = [1], rs_skip = Some ([1, 0], NNumber 7)\<rparr>], run_index = 0, world = ()\<rparr>"


subsection \<open>The stream of results\<close>

lemma next_position_ok:
  assumes "interpreter_ok s"
  obtains s' where "next_position s = Some (Value (), s')" "interpreter_ok s'"
proof -
  let ?rs = "(current s)\<lparr>rs_position := (case rs_position (current s) of [] \<Rightarrow> [] | p \<Rightarrow> butlast p @ [Suc (last p)])\<rparr>"
  let ?s = "s\<lparr>run_specifics := (run_specifics s)[run_index s := ?rs]\<rparr>"
  have "interpreter_ok ?s" using interpreter_ok_update [OF assms, of ?rs] current_ok [OF assms] by simp
  then have "interpreter_ok (?s\<lparr>run_index := 0\<rparr>)" by (auto simp: interpreter_ok_def)
  moreover have "next_position s = Some (Value (), ?s\<lparr>run_index := 0\<rparr>)"
    using assms by (simp add: next_position_def change_run_def rbind_def get_run_def put_run_def interpreter_ok_def)
  ultimately show thesis by (rule that [rotated])
qed

lemma resolve_once_ok:
  assumes "includes_ok C" and "executable stmt" and "interpreter_ok s" and "resolve C n stmt s = Some (r, s')"
  shows "case r of Crash c \<Rightarrow> tolerated c | _ \<Rightarrow> interpreter_ok s'"
proof -
  have "1 \<le> depth s" using register_ok_nonempty [OF current_ok [OF assms(3)]] by (cases "rs_register (current s)") auto
  from safeD [OF nasl_run.res_safe [where n = n, OF assms(2) this] assms(1,3) refl] show ?thesis
    by (auto simp: assms(4) split: outcome.split)
qed

lemma retry_resolve_ok:
  assumes "includes_ok C" and "executable stmt"
  shows "interpreter_ok s \<Longrightarrow> retry_resolve C n a stmt s = Some (r, s') \<Longrightarrow>
    (case r of Crash c \<Rightarrow> tolerated c | _ \<Rightarrow> interpreter_ok s')"
proof (induction a arbitrary: s)
  case 0
  with resolve_once_ok [OF assms 0(1)] show ?case by simp
next
  case (Suc a)
  from Suc.prems(2) consider "resolve C n stmt s = Some (r, s')"
    | e s1 where "resolve C n stmt s = Some (Fail e, s1)" "rbind next_position (\<lambda>_. retry_resolve C n a stmt) s1 = Some (r, s')"
    by (auto split: option.splits outcome.splits if_splits)
  then show ?case
  proof cases
    case 2
    have "interpreter_ok s1" using resolve_once_ok [OF assms Suc.prems(1) 2(1)] by simp
    then obtain s2 where "next_position s1 = Some (Value (), s2)" "interpreter_ok s2" by (rule next_position_ok)
    with 2(2) Suc.IH [of s2] show ?thesis by (simp add: rbind_def)
  qed (use resolve_once_ok [OF assms Suc.prems(1)] in blast)
qed

lemma retry_resolve_next_ok:
  assumes "includes_ok C" and "executable stmt" and "interpreter_ok s" and "retry_resolve_next C n a stmt s = Some (r, s')"
  shows "case r of Crash c \<Rightarrow> tolerated c | _ \<Rightarrow> interpreter_ok s'"
proof -
  obtain s1 where "next_position s = Some (Value (), s1)" "interpreter_ok s1" by (rule next_position_ok [OF assms(3)])
  with assms(4) retry_resolve_ok [OF assms(1,2)] show ?thesis by (simp add: retry_resolve_next_def rbind_def)
qed

lemma next_interpreter_ok: "interpreter_ok s \<Longrightarrow> next_interpreter s = Some s' \<Longrightarrow> interpreter_ok s'"
  by (auto simp: next_interpreter_def interpreter_ok_def split: if_splits)

definition code_ok :: "'w code_interpreter \<Rightarrow> bool" where
  "code_ok ci = (interpreter_ok (ci_interpreter ci) \<and> (\<forall>stmt. Inr stmt \<in> set (lexer_collect (ci_lexer ci)) \<longrightarrow> executable stmt) \<and>
     (\<forall>stmt. ci_statement ci = Some stmt \<longrightarrow> executable stmt))"

lemma next_statement_ok:
  assumes C: "includes_ok C" and ci: "code_ok ci" and nxt: "next_statement C n ci = Some (r, ci')"
  shows "case r of None \<Rightarrow> True | Some (Crash c) \<Rightarrow> tolerated c | Some _ \<Rightarrow> code_ok ci'"
proof -
  obtain x l where l: "lexer_next (ci_lexer ci) = (x, l)" by (cases "lexer_next (ci_lexer ci)")
  have collect: "lexer_collect (ci_lexer ci) = (case x of None \<Rightarrow> [] | Some y \<Rightarrow> y # lexer_collect l)"
    by (simp add: lexer_collect.simps [of "ci_lexer ci"] l split: option.split)
  consider "x = None" | e where "x = Some (Inl e)" | stmt where "x = Some (Inr stmt)" by (cases x; cases "the x") auto
  then show ?thesis
  proof cases
    case 1
    with nxt l show ?thesis by (auto simp: next_statement_def)
  next
    case 2
    with ci nxt l collect show ?thesis by (auto simp: next_statement_def code_ok_def)
  next
    case (3 stmt)
    then have ex: "executable stmt" using ci collect by (simp add: code_ok_def)
    obtain r1 s1 where run: "retry_resolve_next C n 5 stmt (ci_interpreter ci) = Some (r1, s1)"
      and r: "r = Some r1" "ci' = \<lparr>ci_lexer = l, ci_interpreter = s1, ci_statement = Some stmt\<rparr>"
      using nxt l 3 by (auto simp: next_statement_def split: option.splits)
    from retry_resolve_next_ok [OF C ex _ run] ci ex collect 3 show ?thesis
      by (auto simp: r code_ok_def split: outcome.splits)
  qed
qed

lemma code_next_ok:
  assumes C: "includes_ok C" and ci: "code_ok ci" and nxt: "code_next C n ci = Some (r, ci')"
  shows "case r of None \<Rightarrow> True | Some (Crash c) \<Rightarrow> tolerated c | Some _ \<Rightarrow> code_ok ci'"
proof -
  from nxt consider "next_statement C n ci = Some (r, ci')"
    | stmt s0 r1 s1 where "ci_statement ci = Some stmt" "next_interpreter (ci_interpreter ci) = Some s0"
      "retry_resolve C n 5 stmt s0 = Some (r1, s1)" "r = Some r1" "ci' = ci\<lparr>ci_interpreter := s1\<rparr>"
    by (auto simp: code_next_def split: option.splits)
  then show ?thesis
  proof cases
    case 2
    then have "executable stmt" "interpreter_ok s0" using ci next_interpreter_ok by (auto simp: code_ok_def)
    from retry_resolve_ok [OF C this 2(3)] ci show ?thesis by (auto simp: 2 code_ok_def split: outcome.splits)
  qed (rule next_statement_ok [OF C ci])
qed

lemma code_stream_ok:
  assumes "includes_ok C"
  shows "code_ok ci \<Longrightarrow> code_stream C n m ci = Some (rs, ci') \<Longrightarrow> Crash c \<in> set rs \<Longrightarrow> tolerated c"
proof (induction m arbitrary: ci rs)
  case (Suc m)
  from Suc.prems(2) obtain r ci1 where r: "code_next C n ci = Some (r, ci1)" by (auto split: option.splits)
  note ok = code_next_ok [OF assms Suc.prems(1) r]
  show ?case
  proof (cases r)
    case (Some x)
    then show ?thesis using Suc.IH [of ci1] Suc.prems(2,3) r ok by (cases x) auto
  qed (use Suc.prems(2,3) r in auto)
qed simp

end
