(* ===== verification/Nasl_Print.thy ===== *)
theory Nasl_Print
  imports Nasl_Token
begin

section \<open>Printing and tokenizing NASL tokens\<close>

text \<open>
  The texts that \<^verbatim>\<open>Display\<close> of \<^verbatim>\<open>token.rs\<close> gives for tokens are tokenized to these tokens again: the round
  trip for symbols, keywords, identifiers, numbers and strings.
\<close>

subsection \<open>Printing and tokenizing\<close>

lemma advanced_chars [simp]: "cur_chars c = x # xs \<Longrightarrow> cur_chars (advanced c) = xs"
  by (simp add: advance_def)

lemma advance_Cons: "cur_chars c = x # xs \<Longrightarrow> advance c = (Some x, advanced c)"
  by (simp add: advance_def)

lemma peek_char_Cons: "cur_chars c = x # xs \<Longrightarrow> peek_char 0 c = x"
  "cur_chars c = x # y # xs \<Longrightarrow> peek_char (Suc 0) c = y"
  by (simp_all add: peek_char_def)

lemma skip_while_chars: "cur_chars (skip_while p c) = dropWhile p (cur_chars c)"
proof (induction "cur_chars c" arbitrary: c)
  case Nil
  then show ?case by (simp add: skip_while_def skip_state.simps [of _ _ c] is_eof_def split: prod.split)
next
  case (Cons x xs)
  have c: "cur_chars c = x # xs" by (simp add: Cons.hyps)
  then have a: "cur_chars (advanced c) = xs" by simp
  show ?case using Cons.hyps(1) [OF a [symmetric]] c a
    by (simp add: skip_while_def skip_state.simps [of _ _ c] is_eof_def peek_char_Cons)
qed

text \<open>The texts of identifiers that the tokenizer keeps as they are: \<^verbatim>\<open>x\<close> before a number is an operator.\<close>

definition ident_char :: "char \<Rightarrow> bool" where
  "ident_char c = (uni_alphabetic c \<or> c = CHR ''_'' \<or> uni_numeric c)"

definition ident_name :: "string \<Rightarrow> bool" where
  "ident_name s = (s \<noteq> [] \<and> (uni_alphabetic (hd s) \<or> hd s = CHR ''_'') \<and> list_all ident_char s \<and> s \<noteq> ''x'')"

definition printable :: "category \<Rightarrow> bool" where
  "printable cat = (cat \<in> snd ` set symbols \<or> (case cat of
      StringLit s \<Rightarrow> CHR 0x22 \<notin> set s
    | NumberLit w \<Rightarrow> 0 \<le> sint w
    | Identifier (Undefined s) \<Rightarrow> ident_name s \<and> map_of keyword_table s = None
    | Identifier k \<Rightarrow> True
    | _ \<Rightarrow> False))"

definition print_categories :: "category list \<Rightarrow> string" where
  "print_categories cats = concat (map (\<lambda>cat. category_display cat @ '' '') cats)"

lemma symbol_display: "e \<in> set symbols \<Longrightarrow> category_display (snd e) = fst e \<and> fst e \<noteq> []"
proof -
  have "list_all (\<lambda>e. category_display (snd e) = fst e \<and> fst e \<noteq> []) symbols" by code_simp
  then show "e \<in> set symbols \<Longrightarrow> category_display (snd e) = fst e \<and> fst e \<noteq> []" by (auto simp: list_all_iff)
qed

lemma keyword_names: "k \<in> snd ` set keyword_table \<Longrightarrow>
  ident_name (identifier_display k) \<and> identifier_new (identifier_display k) = k"
proof -
  have "list_all (\<lambda>e. ident_name (identifier_display (snd e)) \<and> identifier_new (identifier_display (snd e)) = snd e) keyword_table"
    by code_simp
  then show "k \<in> snd ` set keyword_table \<Longrightarrow> ident_name (identifier_display k) \<and> identifier_new (identifier_display k) = k"
    by (auto simp: list_all_iff)
qed

lemma keyword_listed: "k \<in> snd ` set keyword_table \<or> (\<exists>s. k = Undefined s)"
proof (cases k)
  case (KwACT a)
  then show ?thesis by (cases a) (simp_all add: keyword_table_def)
qed (simp_all add: keyword_table_def)

text \<open>What reads a printed token: after its first character, the rest of it, up to the blank behind it.\<close>

definition reads :: "string \<Rightarrow> category \<Rightarrow> bool" where
  "reads t cat = (t \<noteq> [] \<and> \<not> uni_whitespace (hd t) \<and> (\<forall>code pre d rest.
     cursor_at code (pre @ [hd t]) d \<longrightarrow> cur_chars d = tl t @ CHR '' '' # rest \<longrightarrow>
     snd (category_at code (byte_len pre) (hd t) d) = cat \<and>
     cur_chars (fst (category_at code (byte_len pre) (hd t) d)) = CHR '' '' # rest))"

lemma readsI:
  assumes "t \<noteq> []" "\<not> uni_whitespace (hd t)"
    "\<And>code pre d rest. cursor_at code (pre @ [hd t]) d \<Longrightarrow> cur_chars d = tl t @ CHR '' '' # rest \<Longrightarrow>
      snd (category_at code (byte_len pre) (hd t) d) = cat \<and>
      cur_chars (fst (category_at code (byte_len pre) (hd t) d)) = CHR '' '' # rest"
  shows "reads t cat"
  using assms by (simp add: reads_def)

lemmas category_simps = category_at_def one_symbol_def two_symbols_def two_symbol_def tokenize_greater_def tokenize_less_def
  Let_def peek_char_Cons

lemma symbols_read: "list_all (\<lambda>e. reads (fst e) (snd e)) symbols"
  unfolding symbols_def list.pred_inject fst_conv snd_conv
  by (intro conjI TrueI; (rule readsI)?; simp add: uni_whitespace_def category_simps)

lemma dropWhile_blank: "list_all p xs \<Longrightarrow> \<not> p y \<Longrightarrow> dropWhile p (xs @ y # ys) = y # ys"
  by (induction xs) auto

lemma slice_between:
  assumes "cursor_at code (pre @ p) d" "follows d d'" "cur_chars d = mid @ cur_chars d'"
  shows "byte_slice (byte_len pre) (len_consumed d') code = p @ mid"
proof -
  from assms have "cursor_at code (pre @ p @ mid) d'" by (auto simp: cursor_at_def follows_def)
  then show ?thesis
    using cursor_at_len_consumed [of code "pre @ p @ mid" d'] byte_slice_mid [of pre "p @ mid" "cur_chars d'"]
    by (auto simp: cursor_at_def)
qed

text \<open>The characters that start tokens other than identifiers.\<close>

definition special_chars :: string where
  "special_chars = map fst one_symbol @ map fst two_symbols @ [CHR ''#'', CHR ''>'', CHR ''<'', CHR 0x22, CHR 0x27]"

lemma special_chars_not: "list_all (\<lambda>x. \<not> uni_alphabetic x \<and> x \<noteq> CHR ''_'' \<and> \<not> base_verifier Base10 x) special_chars"
  by code_simp

lemma not_special:
  assumes "x \<notin> set special_chars"
  shows "map_of one_symbol x = None" "map_of two_symbols x = None" "x \<noteq> CHR ''#''" "x \<noteq> CHR ''>''" "x \<noteq> CHR ''<''"
    "x \<noteq> CHR 0x22" "x \<noteq> CHR 0x27"
  using assms unfolding special_chars_def by (simp_all add: map_of_eq_None_iff)

lemma ident_start:
  assumes "uni_alphabetic x \<or> x = CHR ''_''"
  shows "x \<notin> set special_chars" "\<not> base_verifier Base10 x" "\<not> uni_whitespace x"
proof -
  show "x \<notin> set special_chars" using assms special_chars_not by (auto simp: list_all_iff)
  show "\<not> base_verifier Base10 x" "\<not> uni_whitespace x"
    using assms by (auto simp: uni_alphabetic_def base_verifier_def uni_whitespace_def Let_def)
qed

lemma digit_start:
  assumes "is_digit x"
  shows "x \<notin> set special_chars" "base_verifier Base10 x" "\<not> uni_whitespace x"
proof -
  show b: "base_verifier Base10 x" using assms by (simp add: is_digit_def base_verifier_def)
  show "x \<notin> set special_chars" using b special_chars_not by (auto simp: list_all_iff)
  show "\<not> uni_whitespace x" using assms by (auto simp: is_digit_def uni_whitespace_def Let_def)
qed

lemma ident_reads:
  assumes "ident_name t"
  shows "reads t (Identifier (identifier_new t))"
proof (rule readsI)
  from assms obtain x xs where t: "t = x # xs" "uni_alphabetic x \<or> x = CHR ''_''" "list_all ident_char xs"
    by (cases t) (auto simp: ident_name_def)
  note sym = ident_start [OF t(2)] not_special [OF ident_start(1) [OF t(2)]]
  show "t \<noteq> []" "\<not> uni_whitespace (hd t)" using t sym by simp_all
  fix code pre d rest
  assume at: "cursor_at code (pre @ [hd t]) d" and d: "cur_chars d = tl t @ CHR '' '' # rest"
  define d' where "d' = skip_while ident_char d"
  have d': "skip_while (\<lambda>x. uni_alphabetic x \<or> x = CHR ''_'' \<or> uni_numeric x) d = d'"
    by (simp add: d'_def ident_char_def [abs_def])
  have blank: "\<not> ident_char (CHR '' '')" by (simp add: ident_char_def uni_alphabetic_def uni_numeric_def)
  have chars: "cur_chars d' = CHR '' '' # rest" using t d dropWhile_blank [OF t(3) blank]
    by (simp add: d'_def skip_while_chars)
  have "byte_slice (byte_len pre) (len_consumed d') code = [hd t] @ tl t"
    by (rule slice_between [OF at]) (use d chars in \<open>simp_all add: d'_def follows_skip_while\<close>)
  then have "byte_slice (byte_len pre) (len_consumed d') code = t" using t by simp
  moreover have "t \<noteq> ''x''" using assms by (simp add: ident_name_def)
  ultimately have ti: "tokenize_identifier code (byte_len pre) d = (d', Identifier (identifier_new t))"
    by (simp add: tokenize_identifier_def d' Let_def)
  have "category_at code (byte_len pre) x d = (d', Identifier (identifier_new t))"
    by (simp only: category_at_def option.case ti sym t(2) if_False if_True simp_thms)
  then show "snd (category_at code (byte_len pre) (hd t) d) = Identifier (identifier_new t) \<and>
      cur_chars (fst (category_at code (byte_len pre) (hd t) d)) = CHR '' '' # rest"
    using chars t by simp
qed

lemma string_reads:
  assumes "CHR 0x22 \<notin> set s"
  shows "reads ([CHR 0x22] @ s @ [CHR 0x22]) (StringLit s)"
proof (rule readsI)
  fix code pre d rest
  assume at: "cursor_at code (pre @ [hd ([CHR 0x22] @ s @ [CHR 0x22])]) d"
    and d: "cur_chars d = tl ([CHR 0x22] @ s @ [CHR 0x22]) @ CHR '' '' # rest"
  define d' where "d' = skip_while (\<lambda>x. x \<noteq> CHR 0x22) d"
  have "list_all (\<lambda>x. x \<noteq> CHR 0x22) s" using assms by (auto simp: list_all_iff)
  from dropWhile_blank [OF this] have chars: "cur_chars d' = CHR 0x22 # CHR '' '' # rest" using d
    by (simp add: d'_def skip_while_chars)
  have "len_consumed d = byte_len (pre @ [CHR 0x22])" using cursor_at_len_consumed [OF at] by simp
  moreover have "byte_slice (byte_len (pre @ [CHR 0x22])) (len_consumed d') code = [] @ s"
    by (rule slice_between [of _ _ _ d]) (use at d chars in \<open>simp_all add: d'_def follows_skip_while\<close>)
  ultimately have "tokenize_string code d = (advanced d', StringLit s)"
    using chars by (simp add: tokenize_string_def d'_def [symmetric] Let_def is_eof_def)
  then have "category_at code (byte_len pre) (CHR 0x22) d = (advanced d', StringLit s)"
    by (simp add: category_at_def one_symbol_def two_symbols_def)
  then show "snd (category_at code (byte_len pre) (hd ([CHR 0x22] @ s @ [CHR 0x22])) d) = StringLit s \<and>
      cur_chars (fst (category_at code (byte_len pre) (hd ([CHR 0x22] @ s @ [CHR 0x22])) d)) = CHR '' '' # rest"
    using chars by simp
qed (simp_all add: uni_whitespace_def)

lemma show_nat_zero: "show_nat n = CHR ''0'' # xs \<Longrightarrow> n = 0 \<and> xs = []"
proof (induction n arbitrary: xs rule: show_nat.induct)
  case (1 n)
  show ?case
  proof (cases "n < 10")
    case True
    with 1(2) have c: "char_of (48 + n) = CHR ''0''" "xs = []" by (simp_all add: show_nat.simps [of n])
    from c(1) have "of_char (char_of (48 + n) :: char) = (of_char (CHR ''0'') :: nat)" by simp
    then have "(48 + n) mod 256 = 48" by (simp only: of_char_of) simp
    with True c show ?thesis by simp
  next
    case False
    with 1(2) show_nat_digits [of "n div 10"] obtain ys where "show_nat (n div 10) = CHR ''0'' # ys"
      by (cases "show_nat (n div 10)") (auto simp: show_nat.simps [of n])
    with 1(1) False have "n div 10 = 0" by simp
    with False show ?thesis by simp
  qed
qed

lemma radix_val_digits:
  assumes "list_all is_digit s"
  shows "radix_val 10 s = digits_val s"
proof -
  have "foldl (\<lambda>v c. v * 10 + radix_digit c) a s = foldl (\<lambda>n c. 10 * n + digit_val c) a s" for a
    using assms by (induction s arbitrary: a) (simp_all add: radix_digit_def digit_val_def is_digit_def Let_def mult.commute)
  then show ?thesis by (simp add: radix_val_def digits_val_def)
qed

lemma base10_digit: "base_verifier Base10 = is_digit"
  by (simp add: base_verifier_def is_digit_def fun_eq_iff Let_def)

lemma number_reads:
  assumes "n < 2 ^ 63"
  shows "reads (show_nat n) (NumberLit (of_nat n))"
proof (rule readsI)
  define t where "t = show_nat n"
  note dig = show_nat_digits [of n, folded t_def]
  then obtain x xs where t: "t = x # xs" "is_digit x" "list_all is_digit xs" by (cases t) auto
  note sym = digit_start [OF t(2)] not_special [OF digit_start(1) [OF t(2)]]
  show "show_nat n \<noteq> []" "\<not> uni_whitespace (hd (show_nat n))" using t sym by (simp_all add: t_def)
  fix code pre d rest
  assume "cursor_at code (pre @ [hd (show_nat n)]) d" and "cur_chars d = tl (show_nat n) @ CHR '' '' # rest"
  then have at: "cursor_at code (pre @ [x]) d" and d: "cur_chars d = xs @ CHR '' '' # rest" using t by (simp_all add: t_def)
  define d' where "d' = skip_while is_digit d"
  have chars: "cur_chars d' = CHR '' '' # rest" using d dropWhile_blank [OF t(3), of "CHR '' ''"]
    by (simp add: d'_def skip_while_chars is_digit_def)
  have sl: "byte_slice (byte_len pre) (len_consumed d') code = [x] @ xs"
    by (rule slice_between [OF at]) (use d chars in \<open>simp_all add: d'_def follows_skip_while\<close>)
  then have sl': "byte_slice (byte_len pre) (len_consumed d') code = t" using t by simp
  have ne: "byte_len pre \<noteq> len_consumed d'"
  proof
    assume "byte_len pre = len_consumed d'"
    then have "byte_slice (byte_len pre) (len_consumed d') code = byte_take 0 (byte_drop (byte_len pre) code)"
      by (simp add: byte_slice_def)
    also have "\<dots> = []" by (cases "byte_drop (byte_len pre) code") simp_all
    finally show False using sl by simp
  qed
  have "number_base (byte_len pre) x d = (d, byte_len pre, Some Base10)"
    using show_nat_zero [of n xs, folded t_def] t(1) d
    by (auto simp: number_base_def Let_def peek_char_Cons base_verifier_def uni_alphabetic_def)
  moreover have "may_parse_ipv4 code Base10 (byte_len pre) d' = (d', None)"
    using chars by (simp add: may_parse_ipv4_def peek_char_Cons)
  moreover have "from_str_radix t Base10 = Some (of_nat n)"
    using dig assms by (simp add: from_str_radix_def base10_digit radix_def radix_val_digits)
  ultimately have tn: "tokenize_number code (byte_len pre) x d = (d', NumberLit (of_nat n))"
    using ne sl' by (simp add: tokenize_number_def base10_digit d'_def [symmetric])
  have "category_at code (byte_len pre) x d = (d', NumberLit (of_nat n))"
    by (simp only: category_at_def option.case tn sym if_False if_True simp_thms)
  then show "snd (category_at code (byte_len pre) (hd (show_nat n)) d) = NumberLit (of_nat n) \<and>
      cur_chars (fst (category_at code (byte_len pre) (hd (show_nat n)) d)) = CHR '' '' # rest"
    using chars t by (simp add: t_def)
qed

lemma printable_reads:
  assumes "printable cat"
  shows "reads (category_display cat) cat"
proof (cases "cat \<in> snd ` set symbols")
  case True
  then obtain e where e: "e \<in> set symbols" "cat = snd e" by auto
  with symbol_display [OF e(1)] symbols_read show ?thesis by (simp add: list_all_iff)
next
  case False
  with assms consider s where "cat = StringLit s" "CHR 0x22 \<notin> set s" | w where "cat = NumberLit w" "0 \<le> sint w"
    | s where "cat = Identifier (Undefined s)" "ident_name s" "map_of keyword_table s = None"
    | k where "cat = Identifier k" "k \<in> snd ` set keyword_table"
    using keyword_listed by (fastforce simp: printable_def split: category.splits identifier_type.splits)
  then show ?thesis
  proof cases
    case (1 s)
    then show ?thesis using string_reads [OF 1(2)] by (simp add: category_display_def)
  next
    case (2 w)
    have "sint w < 2 ^ 63" using sint_lt [of w] by simp
    then have "nat (sint w) < 2 ^ 63" using 2 by simp
    moreover have "of_nat (nat (sint w)) = w" using 2 by simp
    ultimately show ?thesis using number_reads [of "nat (sint w)"] 2 by (simp add: category_display_def show_i64_def)
  next
    case (3 s)
    have "find (\<lambda>e. snd e = Undefined s) keyword_table = None" by (simp add: keyword_table_def)
    with 3 ident_reads [OF 3(2)] show ?thesis by (simp add: category_display_def identifier_display_def identifier_new_def)
  next
    case (4 k)
    then show ?thesis using keyword_names [of k] ident_reads [of "identifier_display k"] by (simp add: category_display_def)
  qed
qed

lemma reads_next:
  assumes r: "reads t cat" and at: "cursor_at code pre c" and c: "cur_chars c = gap @ t @ CHR '' '' # rest"
    and gap: "list_all uni_whitespace gap"
  obtains c' tok where "tokenizer_next code c = (c', Some tok)" "tok_category tok = cat" "cur_chars c' = CHR '' '' # rest"
proof -
  from r obtain x xs where t: "t = x # xs" "\<not> uni_whitespace x" by (cases t) (auto simp: reads_def)
  define d where "d = skip_while uni_whitespace c"
  have d: "cur_chars d = x # xs @ CHR '' '' # rest" using c t gap dropWhile_blank [OF gap, of x "xs @ CHR '' '' # rest"]
    by (simp add: d_def skip_while_chars)
  have atd: "cursor_at code (pre @ gap) d"
    using at c d t follows_skip_while [of c uni_whitespace] by (simp add: cursor_at_def follows_def d_def)
  have "cursor_at code ((pre @ gap) @ [hd t]) (advanced d)" using atd d t by (auto simp: cursor_at_def advance_def)
  with r d t have e: "snd (category_at code (byte_len (pre @ gap)) x (advanced d)) = cat"
    "cur_chars (fst (category_at code (byte_len (pre @ gap)) x (advanced d))) = CHR '' '' # rest"
    unfolding reads_def by fastforce+
  define e where "e = category_at code (byte_len (pre @ gap)) x (advanced d)"
  have "tokenizer_next code c = (fst e, Some \<lparr>tok_category = snd e, tok_line_column = line_column d,
      tok_position = (len_consumed d, len_consumed (fst e))\<rparr>)"
  proof -
    obtain d1 where "advance d = (Some x, d1)" "advanced d = d1" using advance_Cons [OF d] by simp
    then show ?thesis using cursor_at_len_consumed [OF atd]
      by (simp add: tokenizer_next_def Let_def d_def [symmetric] e_def split_def)
  qed
  then show ?thesis by (rule that) (simp_all only: e_def e token.simps)
qed

lemma tokenize_from_print:
  assumes "list_all printable cats" "cursor_at code pre c" "cur_chars c = gap @ print_categories cats" "list_all uni_whitespace gap"
  shows "map tok_category (tokenize_from code c) = cats"
  using assms
proof (induction cats arbitrary: pre c gap)
  case Nil
  then have "cur_chars (skip_while uni_whitespace c) = []"
    by (simp add: skip_while_chars print_categories_def list_all_iff)
  then have "tokenizer_next code c = (skip_while uni_whitespace c, None)"
    by (simp add: tokenizer_next_def Let_def advance_def)
  then show ?case by (simp add: tokenize_from.simps [of code c])
next
  case (Cons cat cats)
  have "cur_chars c = gap @ category_display cat @ CHR '' '' # print_categories cats"
    using Cons.prems(3) by (simp add: print_categories_def)
  moreover have "reads (category_display cat) cat" using Cons.prems(1) printable_reads by simp
  ultimately obtain c' tok where n: "tokenizer_next code c = (c', Some tok)" "tok_category tok = cat"
    "cur_chars c' = CHR '' '' # print_categories cats"
    using Cons.prems(2,4) by (blast elim: reads_next)
  obtain pre' where "cursor_at code pre' c'" using tokenizer_next_Some [OF Cons.prems(2) n(1)] by blast
  with Cons.IH [of pre' c' "'' ''"] Cons.prems(1) n show ?case
    by (simp add: tokenize_from.simps [of code c] uni_whitespace_def)
qed

lemma tokenize_printable: "list_all printable cats \<Longrightarrow> map tok_category (tokenize (print_categories cats)) = cats"
  unfolding tokenize_def
  by (rule tokenize_from_print [OF _ cursor_at_new, of _ _ "[]"]) (simp_all add: cursor_new_def)

text \<open>C13: The texts of tokens, separated by blanks, are tokenized to these tokens again: symbols, keywords, identifiers
  (but \<^verbatim>\<open>x\<close>, which may be an operator), numbers that are not negative and strings without a quote.\<close>

theorem tokenize_print:
  assumes "list_all printable cats"
  shows "map tok_category (tokenize (print_categories cats)) = cats"
  by (rule tokenize_printable [OF assms])

theorem tokenize_print_witness:
  "map tok_category (tokenize (print_categories [Identifier KwIf, LeftParen, Identifier (Undefined ''a''), GreaterGreaterGreaterEqual,
      NumberLit 42, RightParen, StringLit ''x y'', Semicolon])) =
    [Identifier KwIf, LeftParen, Identifier (Undefined ''a''), GreaterGreaterGreaterEqual, NumberLit 42, RightParen,
      StringLit ''x y'', Semicolon]"
  by (rule tokenize_print) code_simp

subsection \<open>Escapes\<close>

text \<open>Escapes read from left to right, which is what a text in single quotes means.\<close>

fun escapes :: "(char \<rightharpoonup> char) \<Rightarrow> string \<Rightarrow> string" where
  "escapes T [] = []"
| "escapes T [c] = [c]"
| "escapes T (c # d # cs) = (case (if c = CHR 0x5C then T d else None) of
      Some e \<Rightarrow> e # escapes T cs
    | None \<Rightarrow> c # escapes T (d # cs))"

definition escape_table :: "char \<rightharpoonup> char" where
  "escape_table = [CHR 0x22 \<mapsto> CHR 0x22, CHR ''n'' \<mapsto> CHR 0x0A, CHR 0x27 \<mapsto> CHR 0x27, CHR ''r'' \<mapsto> CHR 0x0D,
     CHR ''t'' \<mapsto> CHR 0x09]"

fun no_double_backslash :: "string \<Rightarrow> bool" where
  "no_double_backslash (c # d # cs) = (\<not> (c = CHR 0x5C \<and> d = CHR 0x5C) \<and> no_double_backslash (d # cs))"
| "no_double_backslash _ = True"

lemma replace_escapes: "str_replace [CHR 0x5C, x] [y] s = escapes [x \<mapsto> y] s"
  by (induction "[x \<mapsto> y]" s rule: escapes.induct) (auto simp: str_replace.simps split: list.splits)

lemma replace_double: "no_double_backslash s \<Longrightarrow> str_replace [CHR 0x5C, CHR 0x5C] [CHR 0x5C] s = s"
  unfolding replace_escapes by (induction s rule: no_double_backslash.induct) auto

lemma no_double_Cons: "no_double_backslash (c # s) \<longleftrightarrow> \<not> (c = CHR 0x5C \<and> s \<noteq> [] \<and> hd s = CHR 0x5C) \<and> no_double_backslash s"
  by (cases s) auto

lemma escapes_hd: "s \<noteq> [] \<Longrightarrow> CHR 0x5C \<notin> ran T \<Longrightarrow> escapes T s \<noteq> [] \<and> (hd s \<noteq> CHR 0x5C \<longrightarrow> hd (escapes T s) \<noteq> CHR 0x5C)"
  by (induction T s rule: escapes.induct) (auto simp: ran_def split: option.splits if_splits)

lemma no_double_escapes:
  assumes "CHR 0x5C \<notin> ran T"
  shows "no_double_backslash s \<Longrightarrow> no_double_backslash (escapes T s)"
  using assms
proof (induction T s rule: escapes.induct)
  case (3 T c d cs)
  show ?case
  proof (cases "if c = CHR 0x5C then T d else None")
    case None
    have "no_double_backslash (escapes T (d # cs))" using 3 None by auto
    moreover have "\<not> (c = CHR 0x5C \<and> escapes T (d # cs) \<noteq> [] \<and> hd (escapes T (d # cs)) = CHR 0x5C)"
      using 3(3,4) escapes_hd [of "d # cs" T] by auto
    ultimately show ?thesis using None by (simp add: no_double_Cons)
  next
    case (Some e)
    have "no_double_backslash cs" using 3(3) by (cases cs) auto
    with 3 Some have "no_double_backslash (escapes T cs)" by auto
    moreover have "e \<noteq> CHR 0x5C" using Some 3(4) by (auto simp: ran_def split: if_splits)
    ultimately show ?thesis using Some by (simp add: no_double_Cons)
  qed
qed auto

lemma escapes_char: "c \<noteq> CHR 0x5C \<Longrightarrow> escapes T (c # s) = c # escapes T s"
  by (cases s) auto

lemma escapes_comp:
  assumes "CHR 0x5C \<notin> ran T" "dom T \<inter> dom U = {}"
  shows "no_double_backslash s \<Longrightarrow> escapes U (escapes T s) = escapes (T ++ U) s"
  using assms
proof (induction T s rule: escapes.induct)
  case (3 T c d cs)
  note ran = 3(4) and dom = 3(5)
  have no: "no_double_backslash (d # cs)" "no_double_backslash cs" using 3(3) by (cases cs; auto)+
  show ?case
  proof (cases "if c = CHR 0x5C then T d else None")
    case None
    then have ih: "escapes U (escapes T (d # cs)) = escapes (T ++ U) (d # cs)" using 3 no by auto
    show ?thesis
    proof (cases "c = CHR 0x5C")
      case True
      then have d: "d \<noteq> CHR 0x5C" "T d = None" using 3(3) None by auto
      then have td: "escapes T (d # cs) = d # escapes T cs" "escapes (T ++ U) (d # cs) = d # escapes (T ++ U) cs"
        by (simp_all add: escapes_char)
      then have "escapes U (escapes T cs) = escapes (T ++ U) cs" using ih d by (simp add: escapes_char)
      with True d td None show ?thesis
        by (cases "U d") (simp_all add: map_add_def escapes_char)
    next
      case False
      with ih None show ?thesis by (simp add: escapes_char)
    qed
  next
    case (Some e)
    then have ih: "escapes U (escapes T cs) = escapes (T ++ U) cs" using 3 no by auto
    from Some have c: "c = CHR 0x5C" "T d = Some e" by (auto split: if_splits)
    then have "e \<noteq> CHR 0x5C" using ran by (auto simp: ran_def)
    moreover have "(T ++ U) d = Some e" using c dom by (auto simp: map_add_def split: option.splits)
    ultimately show ?thesis using c ih by (simp add: escapes_char)
  qed
qed auto

text \<open>A text in single quotes without two backslashes in a row has its escapes replaced as they are read from left to
  right, although the code replaces one kind of escape after the other.\<close>

theorem unescape_left_to_right:
  assumes "no_double_backslash s"
  shows "unescape s = escapes escape_table s"
proof -
  have step: "escapes [x \<mapsto> y] (escapes T s) = escapes (T(x \<mapsto> y)) s" if "CHR 0x5C \<notin> ran T" "T x = None" for x y T
    using escapes_comp [OF that(1) _ assms, of "[x \<mapsto> y]"] that(2) by auto
  let ?T1 = "[CHR 0x22 \<mapsto> CHR 0x22]"
  let ?T2 = "?T1(CHR ''n'' \<mapsto> CHR 0x0A)"
  let ?T3 = "?T2(CHR 0x27 \<mapsto> CHR 0x27)"
  let ?T4 = "?T3(CHR ''r'' \<mapsto> CHR 0x0D)"
  have "no_double_backslash (escapes ?T2 s)" by (rule no_double_escapes [OF _ assms]) auto
  then show ?thesis
    using step [of ?T1 "CHR ''n''" "CHR 0x0A"] step [of ?T2 "CHR 0x27" "CHR 0x27"] step [of ?T3 "CHR ''r''" "CHR 0x0D"]
      step [of ?T4 "CHR ''t''" "CHR 0x09"]
    by (simp only: unescape_def Let_def replace_double replace_escapes escape_table_def) (simp add: replace_escapes [symmetric] replace_double)
qed

theorem unescape_left_to_right_witness:
  "unescape [CHR ''a'', CHR 0x5C, CHR ''t'', CHR 0x5C, CHR 0x27, CHR 0x5C, CHR ''q''] =
    [CHR ''a'', CHR 0x09, CHR 0x27, CHR 0x5C, CHR ''q'']"
  using unescape_left_to_right [of "[CHR ''a'', CHR 0x5C, CHR ''t'', CHR 0x5C, CHR 0x27, CHR 0x5C, CHR ''q'']"]
  by (simp add: escape_table_def)

text \<open>Two backslashes before an \<^verbatim>\<open>n\<close> are a backslash and a line break, not a backslash and an \<^verbatim>\<open>n\<close>; two
  backslashes before a \<^verbatim>\<open>t\<close> are a tabulator.\<close>

theorem unescape_double_backslash:
  "unescape [CHR 0x5C, CHR 0x5C, CHR ''n''] = [CHR 0x5C, CHR 0x0A] \<and> unescape [CHR 0x5C, CHR 0x5C, CHR ''t''] = [CHR 0x09]"
  by code_simp

end
