(* ===== verification/Nasl_Precedence.thy ===== *)
theory Nasl_Precedence
  imports Nasl_Syntax Nasl_Print
begin

section \<open>Binding power of operators\<close>

text \<open>
  Expressions of literals, variables and binary operators, their text, and the statements they are parsed to:
  operators are grouped by their binding power, to the left among operators of the same power. Expressions with
  more operators than the depth counter allows end the script.
\<close>

subsection \<open>Expressions\<close>

datatype (plugins only: code size) expr = Leaf category | Node category expr expr

definition cat_operation :: "category \<Rightarrow> operation option" where
  "cat_operation c = operation_new (token_default\<lparr>tok_category := c\<rparr>)"

lemma operation_new_category: "operation_new t = cat_operation (tok_category t)"
  by (simp add: cat_operation_def operation_new_def)

text \<open>The left binding power of an operator.\<close>

definition lbp :: "category \<Rightarrow> nat" where
  "lbp c = (case infix_binding_power (OpOperator c) of Some (x, _) \<Rightarrow> x | None \<Rightarrow> 0)"

definition binary_operator :: "category \<Rightarrow> bool" where
  "binary_operator c = (c \<in> set operator_categories \<and> c \<noteq> Tilde \<and> c \<noteq> Bang)"

definition operand :: "category \<Rightarrow> bool" where
  "operand c = (cat_operation c = Some OpPrimitive \<or> cat_operation c = Some OpVariable)"

primrec operators :: "expr \<Rightarrow> nat" where
  "operators (Leaf c) = 0"
| "operators (Node c l r) = Suc (operators l + operators r)"

primrec flat :: "expr \<Rightarrow> category list" where
  "flat (Leaf c) = [c]"
| "flat (Node c l r) = flat l @ c # flat r"

text \<open>The operator at the root of an expression binds at least as strong as \<open>m\<close>.\<close>

primrec root_binds :: "nat \<Rightarrow> expr \<Rightarrow> bool" where
  "root_binds m (Leaf c) = True"
| "root_binds m (Node c l r) = (m \<le> lbp c)"

primrec grouped :: "expr \<Rightarrow> bool" where
  "grouped (Leaf c) = operand c"
| "grouped (Node c l r) = (binary_operator c \<and> grouped l \<and> grouped r \<and> root_binds (lbp c) l \<and> root_binds (Suc (lbp c)) r)"

text \<open>The statement that stands for an expression.\<close>

primrec represents :: "expr \<Rightarrow> statement \<Rightarrow> bool" where
  "represents (Leaf c) s = ((stmt_kind s = SPrimitive \<or> stmt_kind s = SVariable) \<and> tok_category (stmt_start s) = c)"
| "represents (Node c l r) s = (case stmt_kind s of
      SOperator c' [sl, sr] \<Rightarrow> c' = c \<and> represents l sl \<and> represents r sr
    | _ \<Rightarrow> False)"

subsection \<open>Parsing expressions\<close>

lemma binary_operator_power:
  assumes "binary_operator c"
  shows "infix_binding_power (OpOperator c) = Some (lbp c, Suc (lbp c))" "cat_operation c = Some (OpOperator c)"
proof -
  have "list_all (\<lambda>c. c \<noteq> Tilde \<longrightarrow> c \<noteq> Bang \<longrightarrow> infix_binding_power (OpOperator c) = Some (lbp c, Suc (lbp c))) operator_categories"
    by (simp add: operator_categories_def lbp_def infix_binding_power_def)
  with assms show "infix_binding_power (OpOperator c) = Some (lbp c, Suc (lbp c))" by (auto simp: binary_operator_def list_all_iff)
  show "cat_operation c = Some (OpOperator c)" using assms by (simp add: binary_operator_def cat_operation_def operation_new_def)
qed

lemma operator_not_comment: "binary_operator c \<Longrightarrow> c \<noteq> Comment \<and> c \<noteq> LeftParen \<and> c \<noteq> LeftBrace"
  by (auto simp: binary_operator_def operator_categories_def)

lemma operand_plain: "operand c \<Longrightarrow> c \<noteq> Comment"
  by (auto simp: operand_def cat_operation_def operation_new_def operator_categories_def assign_categories_def)

lemma operand_not_faulty:
  assumes "operand (tok_category t)"
  shows "\<not> is_faulty t"
  using assms
  by (auto simp: operand_def cat_operation_def operation_new_def operator_categories_def assign_categories_def is_faulty_def
      Let_def split: category.splits)

definition depth_of :: "nat \<Rightarrow> 8 word" where
  "depth_of d = of_nat d"

abbreviation lx :: "token list \<Rightarrow> nat \<Rightarrow> lexer" where
  "lx ts d \<equiv> \<lparr>lx_tokens = ts, lx_depth = depth_of d\<rparr>"

lemma lexer_token_lx: "\<not> is_comment t \<Longrightarrow> lexer_token \<lparr>lx_tokens = t # ts, lx_depth = w\<rparr> = (Some t, \<lparr>lx_tokens = ts, lx_depth = w\<rparr>)"
  by (simp add: lexer_token_def)

lemma lexer_peek_lx: "\<not> is_comment t \<Longrightarrow> lexer_peek \<lparr>lx_tokens = t # ts, lx_depth = w\<rparr> = Some t"
  by (simp add: lexer_peek_def)

lemma penter_lx:
  assumes "d \<le> 41"
  shows "penter (lx ts d) = Some (if d = 41 then Inl (MaxRecursionDepth MAX_DEPTH) else Inr (), lx ts (Suc d))"
proof -
  have "unat (of_nat (Suc d) :: 8 word) = Suc d" using assms by (simp add: unat_of_nat del: of_nat_Suc)
  then have "MAX_DEPTH \<le> (of_nat (Suc d) :: 8 word) \<longleftrightarrow> 42 \<le> Suc d" by (simp add: word_le_nat_alt MAX_DEPTH_def)
  then show ?thesis using assms by (auto simp: penter_def Let_def depth_of_def add.commute)
qed

lemma is_undefined_operand: "cat_operation c = Some OpVariable \<Longrightarrow> is_undefined c"
  by (auto simp: is_undefined_def cat_operation_def operation_new_def Let_def split: if_splits category.splits identifier_type.splits)

text \<open>The start of a statement, up to its first operator.\<close>

lemma statement_operand:
  assumes t: "operand (tok_category t)" "\<not> ab (tok_category t)" and d: "d \<le> 40"
    and q: "\<not> is_comment q" "tok_category q \<noteq> LeftParen" "tok_category q \<noteq> LeftBrace"
  obtains s where "\<forall>n. statement (Suc n) m ab (lx (t # q # ts) d) = infix_loop n (statement n) m ab s (lx (q # ts) (Suc d))"
    "represents (Leaf (tok_category t)) s"
proof -
  have c: "\<not> is_comment t" using operand_plain [OF t(1)] .
  define s where "s = (if cat_operation (tok_category t) = Some OpPrimitive then with_start_token t SPrimitive
    else with_start_end_token t t SVariable)"
  have p: "prefix_statement n (statement n) t ab (lx (q # ts) (Suc d)) = Some (Inr (Continue, s), lx (q # ts) (Suc d))" for n
    using t q is_undefined_operand [of "tok_category t"]
    by (auto simp: s_def operand_def prefix_statement_def operation_new_category parse_variable_def pbind_def ppeek_def
        lexer_peek_lx pret_def Let_def)
  have f: "first_statement n (statement n) ab (lx (t # q # ts) (Suc d)) = Some (Inr (Continue, s), lx (q # ts) (Suc d))" for n
    using t(2) operand_not_faulty [OF t(1)] c
    by (simp add: first_statement_def pbind_def ptoken_def lexer_token_lx p)
  have "\<forall>n. statement (Suc n) m ab (lx (t # q # ts) d) = infix_loop n (statement n) m ab s (lx (q # ts) (Suc d))"
    using penter_lx [of d "t # q # ts"] d f by (simp add: pbind_def)
  moreover have "represents (Leaf (tok_category t)) s" by (simp add: s_def)
  ultimately show ?thesis by (rule that)
qed

text \<open>An operator that binds too weakly, and one that is read.\<close>

lemma loop_weak_operator:
  assumes "binary_operator (tok_category q)" "\<not> ab (tok_category q)" "lbp (tok_category q) < m"
  shows "infix_loop (Suc k) S m ab s (lx (q # ts) d) = Some (Inr (Continue, s), lx (q # ts) d)"
  using assms binary_operator_power [OF assms(1)] operator_not_comment [OF assms(1)]
  by (simp add: pbind_def ppeek_def lexer_peek_lx operation_new_category handle_infix_def pret_def)

lemma loop_operator:
  assumes "binary_operator (tok_category q)" "\<not> ab (tok_category q)" "m \<le> lbp (tok_category q)"
    "S (Suc (lbp (tok_category q))) ab (lx ts d) = Some (Inr (e, sr), l')" "stmt_kind sr \<noteq> SEoF"
  obtains nl where "stmt_kind nl = SOperator (tok_category q) [s, sr]"
    "infix_loop (Suc k) S m ab s (lx (q # ts) d) = (case e of
        Done z \<Rightarrow> stmt_done z nl (l'\<lparr>lx_depth := 0\<rparr>)
      | Continue \<Rightarrow> infix_loop k S m ab nl l')"
proof -
  define nl where "nl = with_start_end_token (stmt_start s)
    (case e of Done x \<Rightarrow> if ab (tok_category x) then x else stmt_end sr | Continue \<Rightarrow> stmt_end sr)
    (SOperator (tok_category q) [s, sr])"
  note o = binary_operator_power [OF assms(1)] operator_not_comment [OF assms(1)]
  have h: "handle_infix S (OpOperator (tok_category q)) m q s ab (lx (q # ts) d) = (case e of
      Done z \<Rightarrow> Some (Inr (ReturnEnd z nl), l'\<lparr>lx_depth := 0\<rparr>) | Continue \<Rightarrow> Some (Inr (Unfinished nl), l'))"
    using assms o
    by (auto simp: handle_infix_def pbind_def ptoken_def lexer_token_lx infix_statement_def Let_def plift_def infix_build_def
        pret_def preset_depth_def nl_def split: ending.split)
  show ?thesis
  proof (rule that [of nl])
    show "infix_loop (Suc k) S m ab s (lx (q # ts) d) = (case e of
        Done z \<Rightarrow> stmt_done z nl (l'\<lparr>lx_depth := 0\<rparr>)
      | Continue \<Rightarrow> infix_loop k S m ab nl l')"
      using assms(2) o h by (simp add: pbind_def ppeek_def lexer_peek_lx operation_new_category split: ending.split)
  qed (simp add: nl_def)
qed

lemma loop_operator_error:
  assumes "binary_operator (tok_category q)" "\<not> ab (tok_category q)" "m \<le> lbp (tok_category q)"
    "S (Suc (lbp (tok_category q))) ab (lx ts d) = Some (Inl e, l')"
  shows "infix_loop (Suc k) S m ab s (lx (q # ts) d) = Some (Inl e, l')"
  using assms binary_operator_power [OF assms(1)] operator_not_comment [OF assms(1)]
  by (simp add: pbind_def ppeek_def lexer_peek_lx operation_new_category handle_infix_def ptoken_def lexer_token_lx infix_statement_def)

lemma represents_kind: "represents e s \<Longrightarrow> stmt_kind s \<noteq> SEoF"
  by (cases e) auto

lemma represents_set_end [simp]: "represents e (set_end t s) = represents e s"
  by (cases e) (simp_all add: set_end_def)

lemma flat_ne [simp]: "flat e \<noteq> []"
  by (cases e) auto

lemma root_binds_le: "root_binds m e \<Longrightarrow> m' \<le> m \<Longrightarrow> root_binds m' e"
  by (cases e) auto

text \<open>An expression before an operator that does not bind stronger than the root of the expression.\<close>

lemma statement_before_operator:
  assumes "grouped e" "root_binds m e" "map tok_category ts = flat e" "\<forall>c \<in> set (flat e). \<not> ab c"
    "binary_operator (tok_category q)" "\<not> ab (tok_category q)" "root_binds (lbp (tok_category q)) e" "d + operators e \<le> 40"
    "length ts + length rest + 1 < n"
  shows "\<exists>s k. represents e s \<and> Suc (length rest) < k \<and>
    statement n m ab (lx (ts @ q # rest) d) = infix_loop k (statement (n - 1)) m ab s (lx (q # rest) (Suc (d + operators e)))"
  using assms
proof (induction e arbitrary: m ts q rest d n)
  case (Leaf c)
  then obtain t where t: "ts = [t]" "operand (tok_category t)" "\<not> ab (tok_category t)" by auto
  note q = operator_not_comment [OF Leaf.prems(5)]
  obtain s where s: "\<forall>n. statement (Suc n) m ab (lx (t # q # rest) d) = infix_loop n (statement n) m ab s (lx (q # rest) (Suc d))"
    "represents (Leaf (tok_category t)) s"
    using statement_operand [where t = t and ab = ab and d = d and q = q and m = m and ts = rest] t(2,3) q Leaf.prems(8)
    by (auto simp del: statement.simps)
  obtain n' where n': "n = Suc n'" using Leaf.prems(9) by (cases n) auto
  show ?case using s(1) [rule_format, of n'] s(2) Leaf.prems(3,9) t(1)
    by (intro exI [of _ s] exI [of _ n']) (simp add: n' del: statement.simps)
next
  case (Node c l r)
  from Node.prems(3) obtain ls t rs where ts: "ts = ls @ t # rs" "map tok_category ls = flat l" "tok_category t = c"
    "map tok_category rs = flat r" by (auto simp: map_eq_append_conv map_eq_Cons_conv)
  have ab: "\<forall>x \<in> set (flat l). \<not> ab x" "\<forall>x \<in> set (flat r). \<not> ab x" "\<not> ab c" using Node.prems(4) by auto
  have g: "binary_operator c" "grouped l" "grouped r" "root_binds (lbp c) l" "root_binds (Suc (lbp c)) r" "m \<le> lbp c"
    "lbp (tok_category q) \<le> lbp c" using Node.prems(1,2,7) by auto
  obtain sl k where l: "represents l sl" "Suc (length (rs @ q # rest)) < k"
    "statement n m ab (lx (ls @ t # rs @ q # rest) d) =
      infix_loop k (statement (n - 1)) m ab sl (lx (t # rs @ q # rest) (Suc (d + operators l)))"
    using Node.IH(1) [of m ls t d "rs @ q # rest" n] g ab ts root_binds_le [OF g(4), of m] Node.prems(8,9) by fastforce
  obtain sr k2 where r: "represents r sr" "Suc (length rest) < k2"
    "statement (n - 1) (Suc (lbp c)) ab (lx (rs @ q # rest) (Suc (d + operators l))) =
      infix_loop k2 (statement (n - 1 - 1)) (Suc (lbp c)) ab sr (lx (q # rest) (Suc (Suc (d + operators l) + operators r)))"
    using Node.IH(2) [of "Suc (lbp c)" rs q "Suc (d + operators l)" rest "n - 1"] g ab ts Node.prems(5,6,8,9)
      root_binds_le [OF g(5), of "lbp (tok_category q)"] by fastforce
  obtain k2' where "k2 = Suc k2'" using r(2) by (cases k2) auto
  then have rr: "statement (n - 1) (Suc (lbp c)) ab (lx (rs @ q # rest) (Suc (d + operators l))) =
      Some (Inr (Continue, sr), lx (q # rest) (Suc (Suc (d + operators l) + operators r)))"
    using r(3) loop_weak_operator [of q ab "Suc (lbp c)" k2' "statement (n - 1 - 1)" sr rest] Node.prems(5,6) g(7)
    by (simp del: infix_loop.simps statement.simps)
  obtain k' where k': "k = Suc k'" using l(2) by (cases k) auto
  obtain nl where nl: "stmt_kind nl = SOperator c [sl, sr]"
    "infix_loop k (statement (n - 1)) m ab sl (lx (t # rs @ q # rest) (Suc (d + operators l))) =
      infix_loop k' (statement (n - 1)) m ab nl (lx (q # rest) (Suc (Suc (d + operators l) + operators r)))"
    using loop_operator [of t ab m "statement (n - 1)" "rs @ q # rest" "Suc (d + operators l)" Continue sr
        "lx (q # rest) (Suc (Suc (d + operators l) + operators r))" sl k'] g ab ts(3) rr represents_kind [OF r(1)]
    unfolding k' by (auto simp del: infix_loop.simps statement.simps)
  show ?case using l nl r(1) ts(1) k'
    by (intro exI [of _ nl] exI [of _ k']) (simp add: add.assoc del: infix_loop.simps statement.simps)
qed

text \<open>An expression before the token that ends the statement.\<close>

lemma loop_end:
  assumes "ab (tok_category z)" "\<not> is_comment z"
  shows "infix_loop (Suc k) S m ab s (lx (z # rest) d) = Some (Inr (Done z, set_end z s), lx rest 0)"
  using assms
  by (simp add: pbind_def ppeek_def lexer_peek_lx ptoken_def lexer_token_lx preset_depth_def stmt_done_def pret_def depth_of_def)

lemma statement_before_end:
  assumes "grouped e" "root_binds m e" "map tok_category ts = flat e" "\<forall>c \<in> set (flat e). \<not> ab c"
    "ab (tok_category z)" "\<not> is_comment z" "tok_category z \<noteq> LeftParen" "tok_category z \<noteq> LeftBrace"
    "d + operators e \<le> 40" "length ts + length rest + 1 < n"
  shows "\<exists>s. represents e s \<and> statement n m ab (lx (ts @ z # rest) d) = Some (Inr (Done z, s), lx rest 0)"
  using assms
proof (induction e arbitrary: m ts d n)
  case (Leaf c)
  then obtain t where t: "ts = [t]" "operand (tok_category t)" "\<not> ab (tok_category t)" by auto
  obtain s where s: "\<forall>n. statement (Suc n) m ab (lx (t # z # rest) d) = infix_loop n (statement n) m ab s (lx (z # rest) (Suc d))"
    "represents (Leaf (tok_category t)) s"
    using statement_operand [where t = t and ab = ab and d = d and q = z and m = m and ts = rest] t(2,3) Leaf.prems(6-9)
    by (auto simp del: statement.simps)
  obtain n' where n': "n = Suc (Suc n')" using Leaf.prems(10) by (cases n; cases "n - 1") auto
  show ?case using s(1) [rule_format, of "Suc n'"] s(2) Leaf.prems(3) t(1) loop_end [where ab = ab and z = z, OF Leaf.prems(5,6)]
    by (intro exI [of _ "set_end z s"]) (simp add: n' del: statement.simps infix_loop.simps)
next
  case (Node c l r)
  from Node.prems(3) obtain ls t rs where ts: "ts = ls @ t # rs" "map tok_category ls = flat l" "tok_category t = c"
    "map tok_category rs = flat r" by (auto simp: map_eq_append_conv map_eq_Cons_conv)
  have ab: "\<forall>x \<in> set (flat l). \<not> ab x" "\<forall>x \<in> set (flat r). \<not> ab x" "\<not> ab c" using Node.prems(4) by auto
  have g: "binary_operator c" "grouped l" "grouped r" "root_binds (lbp c) l" "root_binds (Suc (lbp c)) r" "m \<le> lbp c"
    using Node.prems(1,2) by auto
  obtain sl k where l: "represents l sl" "Suc (length (rs @ z # rest)) < k"
    "statement n m ab (lx (ls @ t # rs @ z # rest) d) =
      infix_loop k (statement (n - 1)) m ab sl (lx (t # rs @ z # rest) (Suc (d + operators l)))"
    using statement_before_operator [of l m ls ab t d "rs @ z # rest" n] g ab ts root_binds_le [OF g(4), of m] Node.prems(9,10)
    by fastforce
  obtain sr where r: "represents r sr"
    "statement (n - 1) (Suc (lbp c)) ab (lx (rs @ z # rest) (Suc (d + operators l))) = Some (Inr (Done z, sr), lx rest 0)"
    using Node.IH(2) [of "Suc (lbp c)" rs "Suc (d + operators l)" "n - 1"] g ab ts Node.prems(5-10) by fastforce
  obtain k' where k': "k = Suc k'" using l(2) by (cases k) auto
  obtain nl where "stmt_kind nl = SOperator c [sl, sr]"
    "infix_loop k (statement (n - 1)) m ab sl (lx (t # rs @ z # rest) (Suc (d + operators l))) = stmt_done z nl (lx rest 0)"
    using loop_operator [of t ab m "statement (n - 1)" "rs @ z # rest" "Suc (d + operators l)" "Done z" sr "lx rest 0" sl k']
      g ab ts(3) r(2) represents_kind [OF r(1)]
    unfolding k' by (auto simp add: depth_of_def simp del: infix_loop.simps statement.simps)
  then show ?case using l r(1) ts(1)
    by (intro exI [of _ "set_end z nl"]) (simp add: stmt_done_def pret_def set_end_def del: infix_loop.simps statement.simps)
qed

text \<open>An expression with more operators than the depth counter allows.\<close>

lemma statement_too_deep:
  assumes "grouped e" "root_binds m e" "map tok_category ts = flat e" "\<forall>c \<in> set (flat e). \<not> ab c"
    "d \<le> 41" "41 \<le> d + operators e" "length ts + length rest < n"
  shows "\<exists>ts'. statement n m ab (lx (ts @ rest) d) = Some (Inl (MaxRecursionDepth MAX_DEPTH), lx ts' 42)"
  using assms
proof (induction e arbitrary: m ts rest d n)
  case (Leaf c)
  obtain n' where n': "n = Suc n'" using Leaf.prems(7) by (cases n) auto
  show ?case using Leaf.prems(5,6) penter_lx [of d "ts @ rest"] by (simp add: n' pbind_def)
next
  case (Node c l r)
  from Node.prems(3) obtain ls t rs where ts: "ts = ls @ t # rs" "map tok_category ls = flat l" "tok_category t = c"
    "map tok_category rs = flat r" by (auto simp: map_eq_append_conv map_eq_Cons_conv)
  have ab: "\<forall>x \<in> set (flat l). \<not> ab x" "\<forall>x \<in> set (flat r). \<not> ab x" "\<not> ab c" using Node.prems(4) by auto
  have g: "binary_operator c" "grouped l" "grouped r" "root_binds (lbp c) l" "root_binds (Suc (lbp c)) r" "m \<le> lbp c"
    using Node.prems(1,2) by auto
  show ?case
  proof (cases "41 \<le> d + operators l")
    case True
    then show ?thesis using Node.IH(1) [of m ls d "t # rs @ rest" n] g ab ts root_binds_le [OF g(4), of m] Node.prems(5,7) by simp
  next
    case False
    obtain sl k where l: "Suc (length (rs @ rest)) < k"
      "statement n m ab (lx (ls @ t # rs @ rest) d) =
        infix_loop k (statement (n - 1)) m ab sl (lx (t # rs @ rest) (Suc (d + operators l)))"
      using statement_before_operator [of l m ls ab t d "rs @ rest" n] g ab ts root_binds_le [OF g(4), of m] Node.prems(7) False
      by fastforce
    obtain ts' where r: "statement (n - 1) (Suc (lbp c)) ab (lx (rs @ rest) (Suc (d + operators l))) =
        Some (Inl (MaxRecursionDepth MAX_DEPTH), lx ts' 42)"
      using Node.IH(2) [of "Suc (lbp c)" rs "Suc (d + operators l)" rest "n - 1"] g ab ts Node.prems(6,7) False by fastforce
    obtain k' where k': "k = Suc k'" using l(1) by (cases k) auto
    show ?thesis using l(2) r ts ab(3) g(1,6)
      loop_operator_error [of t ab m "statement (n - 1)" "rs @ rest" "Suc (d + operators l)" _ _ k' sl]
      by (auto simp: k' simp del: infix_loop.simps statement.simps)
  qed
qed

lemma grouped_not_semicolon: "grouped e \<Longrightarrow> \<forall>c \<in> set (flat e). c \<noteq> Semicolon"
  by (induction e) (auto simp: operand_def cat_operation_def operation_new_def operator_categories_def assign_categories_def
      binary_operator_def Let_def)

lemma root_binds_0 [simp]: "root_binds 0 e"
  by (cases e) auto

lemma lexer_collect_end: "lexer_collect (lx [] 0) = []"
proof -
  have "statement 1 0 ab (lx [] 0) = Some (Inr (Done token_default, set_end token_default (without_token SEoF)), lx [] 1)" for ab
    using penter_lx [of 0 "[]"]
    by (simp add: pbind_def first_statement_def ptoken_def lexer_token_def pret_def stmt_done_def)
  moreover have "\<not> MAX_DEPTH \<le> depth_of 1" by (simp add: MAX_DEPTH_def depth_of_def word_le_nat_alt)
  ultimately show ?thesis
    by (simp add: lexer_collect.simps [of "lx [] 0"] lexer_next_def set_end_def without_token_def del: statement.simps)
qed

lemma collect_expression:
  assumes "grouped e" "map tok_category ts = flat e @ [Semicolon]" "operators e \<le> 40"
  shows "\<exists>s. lexer_collect (lexer_new ts) = [Inr s] \<and> represents e s"
proof -
  from assms(2) obtain us z where ts: "ts = us @ [z]" "map tok_category us = flat e" "tok_category z = Semicolon"
    by (auto simp: map_eq_append_conv map_eq_Cons_conv)
  have new: "lexer_new ts = lx ts 0" by (simp add: lexer_new_def depth_of_def)
  have "\<exists>s. represents e s \<and> statement (Suc (length ts)) 0 (until Semicolon) (lx (us @ z # []) 0) = Some (Inr (Done z, s), lx [] 0)"
    by (rule statement_before_end [OF assms(1)]) (use ts grouped_not_semicolon [OF assms(1)] assms(3) in simp_all)
  then obtain s where s: "represents e s"
    "statement (Suc (length ts)) 0 (until Semicolon) (lx ts 0) = Some (Inr (Done z, s), lx [] 0)" unfolding ts(1) by blast
  moreover have "stmt_kind s \<noteq> SNoOp" using s(1) by (cases e) auto
  moreover have "\<not> MAX_DEPTH \<le> depth_of 0" by (simp add: MAX_DEPTH_def depth_of_def)
  ultimately have "lexer_next (lx ts 0) = (Some (Inr s), lx [] 0)"
    using represents_kind [OF s(1)] by (simp add: lexer_next_def del: statement.simps)
  then show ?thesis using s(1) new lexer_collect_end by (simp add: lexer_collect.simps [of "lx ts 0"])
qed

lemma collect_too_deep:
  assumes "grouped e" "map tok_category ts = flat e @ ws" "41 \<le> operators e"
  shows "lexer_collect (lexer_new ts) = []"
proof -
  from assms(2) obtain us vs where ts: "ts = us @ vs" "map tok_category us = flat e" by (auto simp: map_eq_append_conv)
  have new: "lexer_new ts = lx ts 0" by (simp add: lexer_new_def depth_of_def)
  have "\<exists>ts'. statement (Suc (length ts)) 0 (until Semicolon) (lx (us @ vs) 0) = Some (Inl (MaxRecursionDepth MAX_DEPTH), lx ts' 42)"
    by (rule statement_too_deep [OF assms(1)]) (use ts grouped_not_semicolon [OF assms(1)] assms(3) in simp_all)
  then obtain ts' where
    "statement (Suc (length ts)) 0 (until Semicolon) (lx ts 0) = Some (Inl (MaxRecursionDepth MAX_DEPTH), lx ts' 42)"
    unfolding ts(1) by blast
  moreover have "MAX_DEPTH \<le> depth_of 42" by (simp add: MAX_DEPTH_def depth_of_def)
  ultimately have "fst (lexer_next (lx ts 0)) = None" by (simp add: lexer_next_def del: statement.simps)
  then show ?thesis using new by (cases "lexer_next (lx ts 0)") (simp add: lexer_collect.simps [of "lx ts 0"])
qed



text \<open>C40: An expression of more than 40 binary operators ends the script: the parser returns no statement and no error for
  it and for all that follows it.\<close>

theorem long_expression_lost:
  assumes "grouped e" "list_all printable (flat e @ ws)" "41 \<le> operators e"
  shows "parse (print_categories (flat e @ ws)) = []"
  unfolding parse_def by (rule collect_too_deep [OF assms(1) tokenize_printable [OF assms(2)] assms(3)])

text \<open>A sum of numbers.\<close>

primrec sum_of :: "nat \<Rightarrow> expr" where
  "sum_of 0 = Leaf (NumberLit 1)"
| "sum_of (Suc n) = Node Plus (sum_of n) (Leaf (NumberLit 1))"

lemma sum_of_grouped: "grouped (sum_of n) \<and> list_all printable (flat (sum_of n)) \<and> operators (sum_of n) = n \<and> root_binds (lbp Plus) (sum_of n)"
proof (induction n)
  case (Suc n)
  then show ?case
    by (simp add: binary_operator_def operator_categories_def operand_def cat_operation_def operation_new_def assign_categories_def
        printable_def symbols_def)
qed (simp add: operand_def cat_operation_def operation_new_def operator_categories_def assign_categories_def printable_def symbols_def)

theorem long_expression_lost_witness:
  "parse (print_categories (flat (sum_of 41) @ [Semicolon, Identifier (Undefined ''f''), LeftParen, RightParen, Semicolon])) = []"
proof (rule long_expression_lost)
  have "list_all printable [Semicolon, Identifier (Undefined ''f''), LeftParen, RightParen, Semicolon]" by code_simp
  then show "list_all printable (flat (sum_of 41) @ [Semicolon, Identifier (Undefined ''f''), LeftParen, RightParen, Semicolon])"
    using sum_of_grouped [of 41] by (simp only: list_all_append)
qed (use sum_of_grouped [of 41] in simp_all)

end
