(* ===== verification/Nasl_Script.thy ===== *)
theory Nasl_Script
  imports Nasl_Run Nasl_Precedence
begin

section \<open>Running scripts\<close>

text \<open>
  Properties from the text of a script to the results of its statements: what the value of an expression is, and
  that a script does not make the interpreter panic in itself.
\<close>

subsection \<open>The value of an expression\<close>

text \<open>Operators whose result is a value or a panic; a variable has its value in \<open>env\<close>.\<close>

definition value_operator :: "category \<Rightarrow> bool" where
  "value_operator c = (c \<noteq> TimesX \<and> c \<noteq> EqualTilde \<and> c \<noteq> BangTilde)"

primrec value_expr :: "expr \<Rightarrow> bool" where
  "value_expr (Leaf c) = True"
| "value_expr (Node c l r) = (value_operator c \<and> value_expr l \<and> value_expr r)"

definition apply_operator :: "category \<Rightarrow> nasl_value \<Rightarrow> nasl_value \<Rightarrow> nasl_value exec" where
  "apply_operator c a b = (case operation_of no_functions c of
      None \<Rightarrow> Panic
    | Some f \<Rightarrow> exec_bind (f a (Some b)) (\<lambda>v. case v of Inl _ \<Rightarrow> Panic | Inr v \<Rightarrow> Ret v))"

definition leaf_value :: "(string \<Rightarrow> nasl_value) \<Rightarrow> category \<Rightarrow> nasl_value" where
  "leaf_value env c = (case c of
      Identifier (Undefined x) \<Rightarrow> env x
    | _ \<Rightarrow> (case value_of_token (token_default\<lparr>tok_category := c\<rparr>) of Inr v \<Rightarrow> v | Inl _ \<Rightarrow> NNull))"

primrec eval_expr :: "(string \<Rightarrow> nasl_value) \<Rightarrow> expr \<Rightarrow> nasl_value exec" where
  "eval_expr env (Leaf c) = Ret (leaf_value env c)"
| "eval_expr env (Node c l r) = exec_bind (eval_expr env l) (\<lambda>a. exec_bind (eval_expr env r) (\<lambda>b. apply_operator c a b))"

lemma operation_of_value:
  assumes "binary_operator c" and "value_operator c"
  obtains f where "operation_of C c = Some f" and "\<And>a b. f a (Some b) = exec_bind (apply_operator c a b) (\<lambda>v. Ret (Inr v))"
proof -
  have c: "c \<in> set operator_categories" using assms by (simp add: binary_operator_def)
  have "\<exists>f. operation_of C c = Some f \<and> (\<forall>a b. f a (Some b) = exec_bind (apply_operator c a b) (\<lambda>v. Ret (Inr v)))"
    using c assms(2)
    by (auto simp: operator_categories_def value_operator_def operation_of_def apply_operator_def num_expr_def num_test_def num_division_def
        as_i64_def i64_division_def)
  then show thesis using that by blast
qed

text \<open>The variables of the current run have the values of \<open>env\<close>.\<close>

definition variables_are :: "'w interpreter \<Rightarrow> (string \<Rightarrow> nasl_value) \<Rightarrow> bool" where
  "variables_are s env = (\<forall>x. named (rs_register (current s)) x = Ret (Some (CValue (env x))) \<or>
     named (rs_register (current s)) x = Ret None \<and> env x = NNull)"

definition quiet :: "'w interpreter \<Rightarrow> (string \<Rightarrow> nasl_value) \<Rightarrow> bool" where
  "quiet s env = (interpreter_ok s \<and> rs_skip (current s) = None \<and> variables_are s env)"

lemma quiet_push: "quiet s env \<Longrightarrow> quiet (push_position s) env"
  using push_position_ok [of s] by (auto simp: quiet_def variables_are_def push_position_def interpreter_ok_def)

lemma pop_push: "interpreter_ok s \<Longrightarrow> pop_position (push_position s) = s"
  by (simp add: pop_position_def push_position_def interpreter_ok_def position_up_def position_down_def)

lemma resolve_quiet:
  assumes "quiet s env"
  shows "resolve C (Suc n) stmt s = (case resolve_kind C n (resolve C n) stmt (push_position s) of
      None \<Rightarrow> None
    | Some (Value v, s') \<Rightarrow> rbind down (\<lambda>_. rret v) s'
    | Some (Fail e, s') \<Rightarrow> rbind down (\<lambda>_. rfail (with_origin stmt e)) s'
    | Some (Crash c, s') \<Rightarrow> Some (Crash c, s'))"
proof -
  have ok: "interpreter_ok s" using assms by (simp add: quiet_def)
  have "rs_skip (current (push_position s)) = None" using quiet_push [OF assms] by (simp add: quiet_def)
  then show ?thesis by (simp add: resolve_Suc [OF ok] Let_def rensure_def)
qed

lemma down_push: "interpreter_ok s \<Longrightarrow> rbind down f (push_position s) = f () s"
  using down_pop [of "push_position s"] push_position_ok [of s] pop_push [of s] by (simp add: rbind_def)

lemma resolve_leaf:
  assumes q: "quiet s env" and r: "represents (Leaf c) stmt" and wf: "stmt_wf stmt"
  shows "resolve C (Suc n) stmt s = Some (Value (leaf_value env c), s)"
proof -
  let ?s1 = "push_position s"
  have ok: "interpreter_ok s" and q1: "quiet ?s1 env" using q quiet_push [OF q] by (auto simp: quiet_def)
  have c: "tok_category (stmt_start stmt) = c" and kind: "stmt_kind stmt = SPrimitive \<or> stmt_kind stmt = SVariable"
    using r by auto
  have run: "get_run ?s1 = Some (Value (current ?s1), ?s1)"
    using q1 by (simp add: quiet_def get_run_def interpreter_ok_def)
  from kind have "resolve_kind C n (resolve C n) stmt ?s1 = Some (Value (leaf_value env c), ?s1)"
  proof
    assume k: "stmt_kind stmt = SPrimitive"
    then have "is_literal c" using wf c by (simp add: stmt_wf.simps [of stmt] kind_wf_def)
    then show ?thesis
      by (auto simp: k resolve_kind_def resolve_primitive_def value_of_token_def c leaf_value_def is_literal_def rret_def
          split: category.splits identifier_type.splits)
  next
    assume k: "stmt_kind stmt = SVariable"
    then obtain x where x: "c = Identifier (Undefined x)"
      using wf c by (auto simp: stmt_wf.simps [of stmt] kind_wf_def is_undefined_def split: category.splits identifier_type.splits)
    have "named (rs_register (current ?s1)) x = Ret (Some (CValue (env x))) \<or>
        named (rs_register (current ?s1)) x = Ret None \<and> env x = NNull"
      using q1 by (simp add: quiet_def variables_are_def)
    then show ?thesis
      by (auto simp: k resolve_kind_def resolve_variable_def value_of_token_def c x leaf_value_def read_register_def rbind_def run
          rlift_def rret_def)
  qed
  then show ?thesis by (simp add: resolve_quiet [OF q] down_push [OF ok] rret_def)
qed

lemma resolve_expr:
  assumes "grouped e" and "value_expr e" and "represents e stmt" and "stmt_wf stmt" and "quiet s env" and "operators e < n"
  shows "case eval_expr env e of
      Ret v \<Rightarrow> resolve C n stmt s = Some (Value v, s)
    | Panic \<Rightarrow> \<exists>s'. resolve C n stmt s = Some (Crash Arithmetic, s')"
  using assms
proof (induction e arbitrary: stmt s n)
  case (Leaf c)
  then show ?case using resolve_leaf [of s env c stmt C "n - 1"] by (cases n) auto
next
  case (Node c l r)
  obtain m where n: "n = Suc m" using Node.prems(6) by (cases n) auto
  obtain sl sr where kind: "stmt_kind stmt = SOperator c [sl, sr]" and sub: "represents l sl" "represents r sr"
    using Node.prems(3) by (auto split: statement_kind.splits list.splits)
  have wf: "stmt_wf sl" "stmt_wf sr" using Node.prems(4) kind by (simp_all add: stmt_wf.simps [of stmt])
  let ?s1 = "push_position s"
  have ok: "interpreter_ok s" and q1: "quiet ?s1 env" using Node.prems(5) quiet_push by (auto simp: quiet_def)
  have pre: "grouped l" "grouped r" "value_expr l" "value_expr r" "operators l < m" "operators r < m" "c \<noteq> TimesX"
    using Node.prems n by (auto simp: value_operator_def)
  obtain f where f: "operation_of C c = Some f" "\<And>a b. f a (Some b) = exec_bind (apply_operator c a b) (\<lambda>v. Ret (Inr v))"
    by (rule operation_of_value [of c C]) (use Node.prems in auto)
  note left = Node.IH(1) [OF pre(1,3) sub(1) wf(1) q1 pre(5)]
  note right = Node.IH(2) [OF pre(2,4) sub(2) wf(2) q1 pre(6)]
  have go: "resolve C n stmt s = (case execute (resolve C m) [sl, sr] f ?s1 of
      None \<Rightarrow> None
    | Some (Value v, s') \<Rightarrow> rbind down (\<lambda>_. rret v) s'
    | Some (Fail e, s') \<Rightarrow> rbind down (\<lambda>_. rfail (with_origin stmt e)) s'
    | Some (Crash c, s') \<Rightarrow> Some (Crash c, s'))"
    using pre(7) by (simp add: n resolve_quiet [OF Node.prems(5)] resolve_kind_def kind operator_def f(1))
  have exec: "execute (resolve C m) [sl, sr] f = rbind (resolve C m sl) (\<lambda>a. rbind (resolve C m sr) (\<lambda>b. rop (f a (Some b))))"
    by (simp add: execute_def stmt_at_def)
  show ?case
  proof (cases "eval_expr env l")
    case Panic
    with left show ?thesis by (auto simp: go exec rbind_def)
  next
    case (Ret a)
    note a = Ret
    show ?thesis
    proof (cases "eval_expr env r")
      case Panic
      with left right a show ?thesis by (auto simp: go exec rbind_def)
    next
      case (Ret b)
      have "rop (f a (Some b)) ?s1 = (case apply_operator c a b of Panic \<Rightarrow> rcrash Arithmetic | Ret v \<Rightarrow> rret v) ?s1"
        by (cases "apply_operator c a b") (simp_all add: f(2) rop_def rlift_def rresult_def)
      then have "execute (resolve C m) [sl, sr] f ?s1 = (case apply_operator c a b of Panic \<Rightarrow> rcrash Arithmetic | Ret v \<Rightarrow> rret v) ?s1"
        using left right a Ret by (simp add: exec rbind_def)
      then show ?thesis
        using a Ret down_push [OF ok] by (cases "apply_operator c a b") (simp_all add: go rcrash_def rret_def)
    qed
  qed
qed

text \<open>The first statement of a script, in a fresh interpreter.\<close>

lemma lexer_collect_one:
  assumes "lexer_collect l = [Inr stmt]"
  obtains l' l'' where "lexer_next l = (Some (Inr stmt), l')" and "lexer_next l' = (None, l'')"
proof -
  obtain x l1 where x: "lexer_next l = (x, l1)" by (cases "lexer_next l")
  with assms have "x = Some (Inr stmt)" "lexer_collect l1 = []"
    by (auto simp: lexer_collect.simps [of l] split: option.splits)
  moreover obtain y l2 where "lexer_next l1 = (y, l2)" by (cases "lexer_next l1")
  ultimately show thesis using x that [of l1 l2] by (auto simp: lexer_collect.simps [of l1] split: option.splits)
qed

lemma stream_one_statement:
  fixes w :: 'w
  assumes "parse code = [Inr stmt]"
    and "resolve C n stmt \<lparr>run_specifics = [\<lparr>rs_register = r, rs_position = [1], rs_skip = None\<rparr>], run_index = 0, world = w\<rparr> = Some (x, s)"
    and "case x of Value v \<Rightarrow> length (run_specifics s) = 1 | Crash c \<Rightarrow> True | Fail e \<Rightarrow> False"
  shows "\<exists>ci. code_stream C n 2 (code_interpreter_new code r w) = Some ([x], ci)"
proof -
  obtain l' l'' where l: "lexer_next (lexer_new (tokenize code)) = (Some (Inr stmt), l')" "lexer_next l' = (None, l'')"
    by (rule lexer_collect_one [OF assms(1) [unfolded parse_def]])
  have nxt: "next_position (interpreter_new r w) =
      Some (Value (), \<lparr>run_specifics = [\<lparr>rs_register = r, rs_position = [1], rs_skip = None\<rparr>], run_index = 0, world = w\<rparr>)"
    by (simp add: next_position_def change_run_def rbind_def get_run_def put_run_def interpreter_new_def position_new_def)
  have "retry_resolve_next C n 5 stmt (interpreter_new r w) = Some (x, s)"
    using assms(2,3) nxt by (cases x) (simp_all add: retry_resolve_next_def rbind_def numeral_eq_Suc)
  then have first: "code_next C n (code_interpreter_new code r w) =
      Some (Some x, \<lparr>ci_lexer = l', ci_interpreter = s, ci_statement = Some stmt\<rparr>)"
    by (simp add: code_next_def next_statement_def code_interpreter_new_def l(1))
  show ?thesis
    using assms(3) first l(2)
    by (cases x) (simp_all add: numeral_2_eq_2 code_next_def [of _ _ "\<lparr>ci_lexer = l', ci_interpreter = s, ci_statement = Some stmt\<rparr>"]
        next_interpreter_def next_statement_def)
qed

lemma parse_expression:
  assumes "grouped e" "list_all printable (flat e)" "operators e \<le> 40"
  obtains stmt where "parse (print_categories (flat e @ [Semicolon])) = [Inr stmt]" and "represents e stmt"
proof -
  have "map tok_category (tokenize (print_categories (flat e @ [Semicolon]))) = flat e @ [Semicolon]"
    using assms(2) by (intro tokenize_printable) (simp add: printable_def [of Semicolon] symbols_def)
  then show thesis using collect_expression [OF assms(1) _ assms(3)] that unfolding parse_def by blast
qed

lemma represents_stray_free: "represents e stmt \<Longrightarrow> stray_free stmt"
proof (induction e arbitrary: stmt)
  case (Leaf c)
  then show ?case by (auto simp: stray_free.simps [of stmt])
next
  case (Node c l r)
  then obtain sl sr where "stmt_kind stmt = SOperator c [sl, sr]" "represents l sl" "represents r sr"
    by (auto split: statement_kind.splits list.splits)
  with Node.IH show ?case by (simp add: stray_free.simps [of stmt])
qed

lemma stream_expression:
  fixes w :: 'w
  assumes "grouped e" "list_all printable (flat e)" "operators e \<le> 40" and "value_expr e"
    and "register_ok executable r"
    and "\<forall>x. named r x = Ret (Some (CValue (env x))) \<or> named r x = Ret None \<and> env x = NNull" and "operators e < n"
  shows "\<exists>ci. code_stream C n 2 (code_interpreter_new (print_categories (flat e @ [Semicolon])) r w) =
    Some ([case eval_expr env e of Ret v \<Rightarrow> Value v | Panic \<Rightarrow> Crash Arithmetic], ci)"
proof -
  obtain stmt where stmt: "parse (print_categories (flat e @ [Semicolon])) = [Inr stmt]" "represents e stmt"
    by (rule parse_expression [OF assms(1-3)])
  define s :: "'w interpreter" where
    "s = \<lparr>run_specifics = [\<lparr>rs_register = r, rs_position = [1], rs_skip = None\<rparr>], run_index = 0, world = w\<rparr>"
  have q: "quiet s env" using assms(5,6) by (simp add: quiet_def s_def interpreter_ok_def variables_are_def)
  have wf: "stmt_wf stmt" using parsed_wf [of stmt "print_categories (flat e @ [Semicolon])"] stmt(1) by simp
  from resolve_expr [OF assms(1,4) stmt(2) wf q assms(7), of C] obtain s' where
    "resolve C n stmt s = Some (case eval_expr env e of Ret v \<Rightarrow> Value v | Panic \<Rightarrow> Crash Arithmetic, s')"
    "eval_expr env e = Panic \<or> s' = s"
    by (auto split: exec.splits)
  then show ?thesis
    by (intro stream_one_statement [OF stmt(1)]) (auto simp: s_def split: exec.split)
qed


text \<open>
  C10: Whatever a script does, the results of running it are values, errors, or a panic of a division, of the index of an
  array or of a built-in function: a script whose named parameters are all arguments of calls, and that includes only such
  scripts, never makes the interpreter panic at an \<^verbatim>\<open>unreachable!\<close> or at an index into its own data.
\<close>

theorem script_no_internal_panic:
  assumes "includes_ok C" and "\<forall>stmt. Inr stmt \<in> set (parse code) \<longrightarrow> stray_free stmt"
    and "register_ok executable r" and "code_stream C n m (code_interpreter_new code r w) = Some (rs, ci)"
  shows "Crash Unreachable \<notin> set rs \<and> Crash OutOfRange \<notin> set rs"
proof -
  have "code_ok (code_interpreter_new code r w)"
    using assms(2,3) parsed_wf [of _ code]
    by (auto simp: code_ok_def code_interpreter_new_def parse_def interpreter_ok_def interpreter_new_def executable_def)
  from code_stream_ok [OF assms(1) this assms(4)] show ?thesis by (auto simp: tolerated_def)
qed

text \<open>The script \<^verbatim>\<open>1 / 0;\<close>\<close>

theorem script_no_internal_panic_witness:
  "\<exists>rs ci. code_stream no_functions 2 2 (code_interpreter_new (print_categories (flat (Node Slash (Leaf (NumberLit 1)) (Leaf (NumberLit 0))) @
     [Semicolon])) register_new ()) = Some (rs, ci) \<and> rs = [Crash Arithmetic] \<and> Crash Unreachable \<notin> set rs"
proof -
  let ?e = "Node Slash (Leaf (NumberLit 1)) (Leaf (NumberLit 0))"
  let ?code = "print_categories (flat ?e @ [Semicolon])"
  have e: "grouped ?e" "list_all printable (flat ?e)" "value_expr ?e" "operators ?e \<le> 40" "operators ?e < 2" by code_simp+
  have "eval_expr (\<lambda>_. NNull) ?e = Panic"
    by (simp add: apply_operator_def leaf_value_def value_of_token_def operation_of_def num_division_def as_i64_def value_i64_def i64_division_def)
  then obtain ci where ci: "code_stream no_functions 2 2 (code_interpreter_new ?code register_new ()) = Some ([Crash Arithmetic], ci)"
    using stream_expression [OF e(1,2,4,3) register_new_ok _ e(5), of "\<lambda>_. NNull" no_functions "()"]
    by (auto simp: named_def index_named_def register_new_def context_default_def)
  obtain stmt where stmt: "parse ?code = [Inr stmt]" "represents ?e stmt" by (rule parse_expression [OF e(1,2,4)])
  have "\<forall>stmt. Inr stmt \<in> set (parse ?code) \<longrightarrow> stray_free stmt"
    unfolding stmt(1) using represents_stray_free [OF stmt(2)] by simp
  from script_no_internal_panic [OF _ this register_new_ok ci]
  have "Crash Unreachable \<notin> set [Crash Arithmetic :: nasl_value outcome]" by (simp add: includes_ok_def no_functions_def)
  with ci show ?thesis by blast
qed

end
