(* ===== verification/Nasl_Fuel.thy ===== *)
theory Nasl_Fuel
  imports Nasl_Run
begin

section \<open>Fuel of the interpreter\<close>

text \<open>
  The fuel of \<^const>\<open>resolve\<close> bounds how long a run may take and has no other influence: with more fuel a run that has
  ended gives the same result. Statements without loops over a condition, and with calls of built-in functions only, end with
  as much fuel as they are big.
\<close>

subsection \<open>More fuel gives the same result\<close>

named_theorems fuel

definition extends :: "('w, 'a) run \<Rightarrow> ('w, 'a) run \<Rightarrow> bool" where
  "extends m m' = (\<forall>s x. m s = Some x \<longrightarrow> m' s = Some x)"

lemma extends_refl [fuel]: "extends m m"
  by (simp add: extends_def)

lemma extends_none [fuel]: "extends (\<lambda>_. None) m"
  by (simp add: extends_def)

lemma extends_rbind [fuel]:
  assumes "extends m m'" and "\<And>a. extends (f a) (f' a)"
  shows "extends (rbind m f) (rbind m' f')"
  unfolding extends_def rbind_def
proof (intro allI impI)
  fix s x
  assume *: "(case m s of None \<Rightarrow> None | Some (Crash c, s') \<Rightarrow> Some (Crash c, s') | Some (Fail e, s') \<Rightarrow> Some (Fail e, s')
      | Some (Value a, s') \<Rightarrow> f a s') = Some x"
  then obtain r s' where r: "m s = Some (r, s')" by (auto split: option.splits)
  then have "m' s = Some (r, s')" using assms(1) by (simp add: extends_def)
  with * r assms(2) show "(case m' s of None \<Rightarrow> None | Some (Crash c, s') \<Rightarrow> Some (Crash c, s') | Some (Fail e, s') \<Rightarrow> Some (Fail e, s')
      | Some (Value a, s') \<Rightarrow> f' a s') = Some x"
    by (cases r; cases x) (auto simp: extends_def)
qed

lemma extends_rensure [fuel]: "extends m m' \<Longrightarrow> extends (rensure g m k) (rensure g m' k)"
  unfolding extends_def rensure_def by (auto split: option.splits)

lemma extends_with_interpreter [fuel]: "extends m m' \<Longrightarrow> extends (with_interpreter r m) (with_interpreter r m')"
  unfolding extends_def with_interpreter_def by (auto split: option.splits)

text \<open>A resolver that is replaced by one that returns the same results, and more.\<close>

locale resolver_extends =
  fixes res :: "'w resolver" and res' :: "'w resolver"
  assumes res_extends: "extends (res stmt) (res' stmt)"
begin

lemma more_execute: "extends (execute res stmts f) (execute res' stmts f)"
  unfolding execute_def by (auto intro!: fuel res_extends)

lemma more_resolve_times: "extends (resolve_times res k stmt) (resolve_times res' k stmt)"
  by (induction k) (auto intro!: fuel res_extends)

lemma more_operator: "extends (operator C res cat stmts) (operator C res' cat stmts)"
  unfolding operator_def op_times_def Let_def
  by (auto split: option.split intro!: fuel res_extends more_execute more_resolve_times)

lemma more_assign: "extends (assign res cat order l r) (assign res' cat order l r)"
  unfolding assign_def assign_target_def
  by (auto split: statement_kind.split option.split intro!: fuel res_extends)

lemma more_for_iter: "n \<le> n' \<Longrightarrow> extends (for_iter res n c u b) (for_iter res' n' c u b)"
proof (induction n arbitrary: n')
  case (Suc n)
  then obtain k where "n' = Suc k" "n \<le> k" by (cases n') auto
  with Suc show ?case by (auto split: option.split intro!: fuel res_extends)
qed (simp add: fuel)

lemma more_while_loop: "n \<le> n' \<Longrightarrow> extends (while_loop res n c b) (while_loop res' n' c b)"
proof (induction n arbitrary: n')
  case (Suc n)
  then obtain k where "n' = Suc k" "n \<le> k" by (cases n') auto
  with Suc show ?case by (auto split: option.split intro!: fuel res_extends)
qed (simp add: fuel)

lemma more_repeat_loop: "n \<le> n' \<Longrightarrow> extends (repeat_loop res n b c) (repeat_loop res' n' b c)"
proof (induction n arbitrary: n')
  case (Suc n)
  then obtain k where "n' = Suc k" "n \<le> k" by (cases n') auto
  with Suc show ?case by (auto split: option.split intro!: fuel res_extends)
qed (simp add: fuel)

lemma more_for_each_iter: "extends (for_each_iter res x b vs) (for_each_iter res' x b vs)"
  by (induction vs) (auto split: option.split intro!: fuel res_extends)

lemma more_call_arguments: "extends (call_arguments res ps nameds vs) (call_arguments res' ps nameds vs)"
proof (induction ps arbitrary: nameds vs)
  case (Cons p ps)
  then show ?case by (cases "stmt_kind p") (auto intro!: fuel res_extends)
qed (simp add: fuel)

lemma more_call: "extends (call C res t ps) (call C res' t ps)"
  unfolding call_def call_declared_def
  by (auto split: option.split context_type.split intro!: fuel res_extends more_call_arguments)

lemma more_execute_included: "extends (execute_included res key stmts) (execute_included res' key stmts)"
  by (induction stmts) (auto simp: execute_statements_def split: sum.split intro!: fuel res_extends)

lemma more_include_script: "extends (include_script C res name) (include_script C res' name)"
  unfolding include_script_def
  by (auto split: nasl_value.split sum.split intro!: fuel res_extends more_execute_included)

lemma more_resolve_array: "extends (resolve_array res stmt i) (resolve_array res' stmt i)"
  unfolding resolve_array_def Let_def
  by (auto split: option.split context_type.split nasl_value.split intro!: fuel res_extends)

lemma more_resolve_all: "extends (resolve_all res stmts) (resolve_all res' stmts)"
  by (induction stmts) (auto intro!: fuel res_extends)

lemma more_block_items: "extends (block_items res stmts) (block_items res' stmts)"
  by (induction stmts) (auto intro!: fuel res_extends)

lemma more_resolve_kind:
  assumes "n \<le> n'"
  shows "extends (resolve_kind C n res stmt) (resolve_kind C n' res' stmt)"
  by (cases "stmt_kind stmt")
    (auto simp: resolve_kind_def resolve_exit_def resolve_return_def resolve_parameter_def resolve_if_def resolve_block_def for_loop_def
      for_each_loop_def assms split: option.split intro!: fuel res_extends more_include_script more_resolve_array more_for_iter more_while_loop
      more_repeat_loop more_for_each_iter more_call more_assign more_operator more_resolve_all more_block_items)

end

lemma resolve_extends: "n \<le> n' \<Longrightarrow> extends (resolve C n stmt) (resolve C n' stmt)"
proof (induction n arbitrary: n' stmt)
  case (Suc n)
  then obtain k where k: "n' = Suc k" "n \<le> k" by (cases n') auto
  have "resolver_extends (resolve C n) (resolve C k)" by unfold_locales (rule Suc.IH [OF k(2)])
  from resolver_extends.more_resolve_kind [OF this k(2)] show ?case
    unfolding k(1) resolve.simps Let_def by (auto split: option.split intro!: fuel)
qed (simp add: resolve.simps fuel)

interpretation nasl_fuel: resolver_extends "resolve C n" "resolve C (n + k)" for C n k
  by unfold_locales (rule resolve_extends, simp)



subsection \<open>Statements that end\<close>

named_theorems ends

definition returns :: "('w, 'a) run \<Rightarrow> bool" where
  "returns m = (\<forall>s. m s \<noteq> None)"

text \<open>No loop over a condition, no included script, and calls of built-in functions only.\<close>

function bounded :: "'w context_config \<Rightarrow> statement \<Rightarrow> bool" where
  "bounded C s = (case stmt_kind s of
      SFor _ _ _ _ \<Rightarrow> False
    | SWhile _ _ \<Rightarrow> False
    | SRepeat _ _ \<Rightarrow> False
    | SInclude _ \<Rightarrow> False
    | SFunctionDeclaration _ _ _ \<Rightarrow> True
    | SDeclare _ \<Rightarrow> True
    | SCall x \<Rightarrow> (case tok_category (stmt_start s) of
          Identifier (Undefined name) \<Rightarrow> executor_exec (cx_sets C) name \<noteq> None
        | _ \<Rightarrow> True) \<and> list_all (bounded C) (children x)
    | _ \<Rightarrow> list_all (bounded C) (parts (stmt_kind s)))"
  by pat_completeness auto
termination by (relation "measure (\<lambda>(_, s). size s)") (auto intro: kind_part_smaller simp: parts_size)

declare bounded.simps [simp del]

lemma returns_rbind [ends]: "returns m \<Longrightarrow> (\<And>a. returns (f a)) \<Longrightarrow> returns (rbind m f)"
  unfolding returns_def rbind_def by (auto split: option.split outcome.split)

lemma returns_atoms [ends]:
  "returns (rret a)" "returns (rfail e)" "returns (rcrash c)" "returns get_run" "returns (put_run rs)" "returns (rlift c x)"
  "returns (rresult r)"
  by (auto simp: returns_def rret_def rfail_def rcrash_def get_run_def put_run_def rlift_def rresult_def split: exec.split sum.split)

lemma returns_registers [ends]:
  "returns (change_run f)" "returns (change_register g)" "returns (try_register h)" "returns (read_register k)" "returns up" "returns down"
  unfolding change_run_def change_register_def try_register_def read_register_def up_def down_def by (intro ends)+

lemma returns_rensure [ends]:
  fixes m :: "('w, 'a) run"
  assumes "returns m" and "returns k"
  shows "returns (rensure g m k)"
proof -
  have "returns (rbind k (\<lambda>_. rret a))" "returns (rbind k (\<lambda>_. rfail (g e) :: ('w, 'a) run))" for a :: 'a and e
    using assms(2) by (auto intro!: ends)
  with assms(1) show ?thesis unfolding returns_def rensure_def by (auto split: option.split outcome.split)
qed

lemma returns_named_value: "returns (named_value key)"
  unfolding named_value_def by (auto split: option.split context_type.split intro!: ends)

lemma returns_handle: "returns (handle_dict i key idx l r order f)" "returns (handle_array i key v l r order f)"
  unfolding handle_dict_def handle_array_def save_def Let_def by (auto split: prod.split intro!: ends)

lemma returns_dynamic_return: "returns (dynamic_return key order lookup right f)"
  unfolding dynamic_return_def save_def
  by (auto split: option.split nasl_value.split intro!: ends returns_named_value returns_handle)

lemma returns_assign_value [ends]: "returns (assign_value cat order key lookup v)"
  by (cases cat) (simp_all add: assign_value_def store_return_def without_right_def returns_dynamic_return ends)

lemma returns_rop [ends]: "returns (rop x)"
  unfolding rop_def by (intro ends)

lemma returns_builtin: "returns (call_builtin name f)"
proof -
  have "returns (nasl_fn_execute f)" "returns (fork_runs x)" for x
    by (auto simp: returns_def nasl_fn_execute_def fork_runs_def rbind_def get_run_def split: prod.split exec.split)
  then show ?thesis unfolding call_builtin_def by (auto split: sum.split nasl_value.split intro!: ends)
qed

lemma returns_declare: "returns (declare_function t as b)" "returns (declare_variable t xs)"
proof -
  show "returns (declare_function t as b)" unfolding declare_function_def by (intro ends)
  have add: "returns (declare_add t key)" for key
    unfolding declare_add_def by (auto split: category.split identifier_type.split intro!: ends)
  have "returns (declare_all t xs)"
  proof (induction xs)
    case (Cons x xs)
    then show ?case by (auto split: statement_kind.split category.split intro!: ends add)
  qed (simp add: ends)
  then show "returns (declare_variable t xs)" unfolding declare_variable_def by (intro ends)
qed

text \<open>Operations on statements that return.\<close>

abbreviation all_return :: "'w resolver \<Rightarrow> statement list \<Rightarrow> bool" where
  "all_return res stmts \<equiv> (\<forall>s \<in> set stmts. returns (res s))"

lemma returns_resolve_times: "returns (res s) \<Longrightarrow> returns (resolve_times res k s)"
  by (induction k) (auto intro!: ends)

lemma returns_stmt_at: "all_return res stmts \<Longrightarrow> (\<And>s. returns (res s) \<Longrightarrow> returns (f s)) \<Longrightarrow> returns (rbind (stmt_at stmts i) f)"
  by (auto simp: stmt_at_def intro: ends)

lemma returns_operator: "all_return res stmts \<Longrightarrow> returns (operator C res cat stmts)"
  unfolding operator_def op_times_def execute_def Let_def
  by (auto split: option.split intro!: ends returns_stmt_at [where res = res] returns_resolve_times)

lemma returns_for_each: "returns (res b) \<Longrightarrow> returns (for_each_iter res x b vs)"
  by (induction vs) (auto split: option.split intro!: ends)

lemma returns_resolve_all: "all_return res stmts \<Longrightarrow> returns (resolve_all res stmts)"
  by (induction stmts) (auto intro!: ends)

lemma returns_block_items: "all_return res stmts \<Longrightarrow> returns (block_items res stmts)"
  by (induction stmts) (auto intro!: ends)

lemma returns_call_arguments:
  "\<forall>p \<in> set ps. returns (res p) \<and> (\<forall>y. stmt_kind p = SNamedParameter y \<longrightarrow> returns (res y)) \<Longrightarrow> returns (call_arguments res ps nameds vs)"
proof (induction ps arbitrary: nameds vs)
  case (Cons p ps)
  then show ?case by (cases "stmt_kind p") (auto intro!: ends)
qed (simp add: ends)

lemma returns_call:
  assumes "\<forall>p \<in> set ps. returns (res p) \<and> (\<forall>y. stmt_kind p = SNamedParameter y \<longrightarrow> returns (res y))"
    and "\<And>name. identifier_of t = Inr name \<Longrightarrow> executor_exec (cx_sets C) name \<noteq> None"
  shows "returns (call C res t ps)"
  unfolding call_def
proof (cases "identifier_of t")
  case (Inr name)
  with assms(2) obtain f where "executor_exec (cx_sets C) name = Some f" by blast
  with Inr show "returns (rbind (rresult (identifier_of t)) (\<lambda>name.
       rbind (call_arguments res ps [] []) (\<lambda>(nameds, pos_args).
         rbind (change_register (create_root_child (hm_insert FC_ANON_ARGS (CValue (NArray pos_args)) nameds))) (\<lambda>_.
           rbind (case executor_exec (cx_sets C) name of Some f \<Rightarrow> call_builtin name f | None \<Rightarrow> call_declared res name) (\<lambda>result.
             rbind (change_register drop_last) (\<lambda>_. rresult result))))))"
    by (auto simp: rresult_def [of "Inr name"] intro!: ends returns_call_arguments [OF assms(1)] returns_builtin)
qed (simp add: rresult_def ends)

lemma returns_resolve_array: "(\<And>x. i = Some x \<Longrightarrow> returns (res x)) \<Longrightarrow> returns (resolve_array res stmt i)"
  unfolding resolve_array_def Let_def
  by (auto split: option.split context_type.split nasl_value.split intro!: ends)

lemma returns_assign:
  "(\<And>i. stmt_kind l = SArray (Some i) \<Longrightarrow> returns (res i)) \<Longrightarrow> returns (res r) \<Longrightarrow> returns (assign res c order l r)"
  unfolding assign_def assign_target_def by (auto split: statement_kind.split option.split intro!: ends)

lemma bounded_parts:
  assumes "bounded C s" and "runs_parts (stmt_kind s)" and "p \<in> set (parts (stmt_kind s))"
  shows "bounded C p"
  using assms by (cases "stmt_kind s") (auto simp: bounded.simps [of C s] runs_parts_def list_all_iff)

lemma returns_resolve_kind:
  assumes b: "bounded C stmt" and IH: "\<And>p. bounded C p \<Longrightarrow> size p < size stmt \<Longrightarrow> returns (res p)"
  shows "returns (resolve_kind C n res stmt)"
proof -
  have parts: "returns (res p)" if "runs_parts (stmt_kind stmt)" "p \<in> set (parts (stmt_kind stmt))" for p
    using IH [OF bounded_parts [OF b that]] parts_size [OF that(2)] by blast
  show ?thesis
  proof (cases "stmt_kind stmt")
    case (SCall x)
    have c: "bounded C p" "size p < size stmt" if "p \<in> set (children x)" for p
      using b SCall that kind_part_smaller(1) [OF SCall that] by (auto simp: bounded.simps [of C stmt] list_all_iff)
    have "returns (res p) \<and> (\<forall>y. stmt_kind p = SNamedParameter y \<longrightarrow> returns (res y))" if "p \<in> set (children x)" for p
    proof (intro conjI allI impI)
      show "returns (res p)" using IH c that by blast
      fix y
      assume y: "stmt_kind p = SNamedParameter y"
      then have "bounded C y" using bounded_parts [OF c(1) [OF that]] by (simp add: runs_parts_def)
      then show "returns (res y)" using IH kind_part_smaller(2) [OF SCall that y] by blast
    qed
    moreover have "executor_exec (cx_sets C) name \<noteq> None" if "identifier_of (stmt_start stmt) = Inr name" for name
      using b SCall that by (auto simp: bounded.simps [of C stmt] identifier_of_def split: category.splits identifier_type.splits)
    ultimately show ?thesis by (simp add: resolve_kind_def SCall returns_call)
  next
    case (SArray i)
    then have "returns (res x)" if "i = Some x" for x using parts [of x] that by (simp add: runs_parts_def)
    then show ?thesis by (simp add: resolve_kind_def SArray returns_resolve_array)
  next
    case (SAssign c order l r)
    have "returns (res i)" if "stmt_kind l = SArray (Some i)" for i
    proof -
      have "bounded C l" using bounded_parts [OF b] SAssign by (simp add: runs_parts_def)
      then have "bounded C i" using bounded_parts [of C l i] that by (simp add: runs_parts_def)
      moreover have "size i < size stmt"
        using parts_size [of i l] parts_size [of l stmt] SAssign that by simp
      ultimately show ?thesis by (rule IH)
    qed
    moreover have "returns (res r)" using parts [of r] SAssign by (simp add: runs_parts_def)
    ultimately show ?thesis by (simp add: resolve_kind_def SAssign returns_assign)
  next
    case (SForEach v i x)
    with parts show ?thesis
      by (auto simp: resolve_kind_def for_each_loop_def runs_parts_def intro!: ends returns_for_each)
  next
    case SPrimitive
    then show ?thesis by (auto simp: resolve_kind_def resolve_primitive_def split: sum.split intro!: ends)
  next
    case SVariable
    then show ?thesis
      by (auto simp: resolve_kind_def resolve_variable_def split: sum.split option.split context_type.split intro!: ends)
  next
    case SAttackCategory
    then show ?thesis
      by (auto simp: resolve_kind_def resolve_attack_category_def split: category.split identifier_type.split intro!: ends)
  next
    case (SExit x)
    with parts show ?thesis
      by (auto simp: resolve_kind_def resolve_exit_def runs_parts_def split: nasl_value.split intro!: ends)
  next
    case (SIf c x t e)
    with parts show ?thesis
      by (auto simp: resolve_kind_def resolve_if_def runs_parts_def split: option.splits intro!: ends)
  qed (use parts b in \<open>auto simp: resolve_kind_def runs_parts_def bounded.simps [of C stmt] resolve_return_def resolve_parameter_def
      resolve_block_def intro!: ends returns_operator returns_resolve_all returns_block_items returns_declare\<close>)
qed

text \<open>
  C20: A statement without a loop over a condition and without an included script, in which only built-in functions are called,
  always ends, whatever the state: any fuel above its size is enough.
\<close>

theorem bounded_statement_ends:
  assumes "bounded C stmt" and "size stmt < n"
  shows "\<exists>r s'. resolve C n stmt s = Some (r, s')"
proof -
  have "returns (resolve C n stmt)"
    using assms
  proof (induction n arbitrary: stmt)
    case (Suc n)
    have "returns (resolve_kind C n (resolve C n) stmt)"
      by (rule returns_resolve_kind [OF Suc.prems(1)]) (use Suc in auto)
    then show ?case
      unfolding resolve.simps Let_def by (auto split: option.split intro!: ends)
  qed simp
  then show ?thesis unfolding returns_def by (metis option.exhaust surj_pair)
qed

theorem bounded_statement_ends_witness:
  "\<exists>r s'. resolve no_functions (Suc (size division_by_zero)) division_by_zero replaying = Some (r, s')"
  using bounded_statement_ends [of no_functions division_by_zero "Suc (size division_by_zero)" replaying]
  by (simp add: division_by_zero_def bounded.simps)

end
