(* ===== verification/Nasl_Effects.thy ===== *)
theory Nasl_Effects
  imports Nasl_Run
begin

section \<open>What operators, assignments and calls do\<close>

text \<open>
  The result of operators on byte strings, how often the operator \<^verbatim>\<open>x\<close> runs its statement, an assignment to an element
  that is read back, the runs a fork adds, and the parameters a call leaves out.
\<close>

subsection \<open>Byte strings\<close>

lemma byte_less: "unat (b :: 8 word) < 256"
  using unsigned_less [of b, where 'a = nat] by simp

lemma utf8_byte: "utf8_bytes (char_of (unat (b :: 8 word))) = (if b < 128 then [b] else [of_nat (192 + unat b div 64), of_nat (128 + unat b mod 64)])"
proof -
  have "unat b < 128 \<longleftrightarrow> b < 128" by (simp add: word_less_nat_alt)
  then show ?thesis using byte_less [of b] by (simp add: utf8_bytes_def Let_def)
qed

lemma length_utf8: "length bs \<le> length (as_bytes (chars_of_bytes bs)) \<and>
  (length (as_bytes (chars_of_bytes bs)) = length bs \<longleftrightarrow> list_all (\<lambda>b. b < 128) bs)"
  by (induction bs) (auto simp: as_bytes_def chars_of_bytes_def utf8_byte)

lemma as_bytes_ascii: "list_all (\<lambda>b. b < 128) bs \<Longrightarrow> as_bytes (chars_of_bytes bs) = bs"
  by (induction bs) (auto simp: as_bytes_def chars_of_bytes_def utf8_byte)

text \<open>
  C39: The operator \<^verbatim>\<open>+\<close> on two byte strings gives their concatenation exactly if all bytes are below 128: the bytes go through
  a text, and a byte of 128 and more becomes two bytes.
\<close>

theorem data_plus:
  "op_plus (NData x) (Some (NData y)) = NData (x @ y) \<longleftrightarrow> list_all (\<lambda>b. b < 128) (x @ y)"
proof -
  have "op_plus (NData x) (Some (NData y)) = NData (as_bytes (chars_of_bytes (x @ y)))"
    by (simp add: op_plus_def add_left_right_data_def text_or_empty_def chars_of_bytes_def)
  then show ?thesis using length_utf8 [of "x @ y"] as_bytes_ascii [of "x @ y"] by auto
qed

subsection \<open>The operator x\<close>

text \<open>
  The operator \<^verbatim>\<open>x\<close> with the number \<open>k\<close> on its right, at least 2, resolves its left side \<open>k - 1\<close> times, and with 1 it resolves it
  once.
\<close>

theorem times_resolves:
  assumes "res b s = Some (Value (NNumber k), s1)" and "1 \<le> sint k"
  shows "op_times res [a, b] s = rbind (resolve_times res (nat (sint k) - 2) a) (\<lambda>_. res a) s1"
proof -
  have k: "k \<noteq> 0" using assms(2) by auto
  have "sint (k - 1) = sint k - 1"
    using assms(2) sint_lt [of k] by (simp add: sint_word_ariths signed_take_bit_int_eq_self_iff)
  then have "nat (sint (k - 1) - 1) = nat (sint k) - 2" by (simp add: nat_diff_distrib')
  then show ?thesis
    using assms(1) k by (simp add: op_times_def stmt_at_def rbind_def [of "res b"] value_i64_def Let_def)
qed

text \<open>A statement that counts how often it is resolved.\<close>

definition counting :: "nat resolver" where
  "counting stmt = (case stmt_kind stmt of
      SNoOp \<Rightarrow> (\<lambda>s. Some (Value NNull, s\<lparr>world := Suc (world s)\<rparr>))
    | _ \<Rightarrow> rret (NNumber 3))"

theorem times_resolves_witness:
  "map_option (\<lambda>(_, s). world s) (op_times counting [without_token SNoOp, without_token SBreak] (interpreter_new register_new 0)) = Some 2"
  using times_resolves [of counting "without_token SBreak" "interpreter_new register_new 0" 3 "interpreter_new register_new 0" "without_token SNoOp"]
  by (simp add: counting_def without_token_def rret_def rbind_def interpreter_new_def)

subsection \<open>Elements\<close>

lemma prepare_array_long:
  assumes "0 \<le> sint i"
  obtains arr where "prepare_array (NNumber i) left = (unat i, arr)" and "unat i < length arr"
proof -
  have "unat (i + 1) = Suc (unat i)"
    using assms unatSuc [of i] by (cases "i = -1") (auto simp: add.commute add_eq_0_iff)
  then show thesis by (intro that) (auto simp: prepare_array_def value_i64_def Let_def split: nasl_value.split)
qed

text \<open>
  C33: An assignment to an element of a variable that is not a dictionary, with an index that is not negative, returns the value
  that is assigned, and afterwards the element of that index has the value: the array is extended when it is too short, and a
  variable that is not an array becomes one.
\<close>

theorem element_assigned:
  assumes s: "interpreter_ok s" and left: "named_value key s = Some (Value (ridx, left), s)"
    and i: "0 \<le> sint i" and dict: "\<not> (\<exists>d. left = NDict d)"
    and stmt: "tok_category (stmt_start stmt) = Identifier (Undefined key)"
    and res: "\<And>t. res p t = Some (Value (NNumber i), t)"
  shows "\<exists>s'. store_return key (Some (NNumber i)) v (\<lambda>_ right. Ret right) s = Some (Value v, s') \<and> interpreter_ok s' \<and>
    resolve_array res stmt (Some p) s' = Some (Value v, s')"
proof -
  obtain arr where arr: "prepare_array (NNumber i) left = (unat i, arr)" "unat i < length arr"
    by (rule prepare_array_long [OF i])
  let ?r = "rs_register (current s)"
  have get: "get_run t = Some (Value (current t), t)" if "interpreter_ok t" for t :: "'a interpreter"
    using that by (simp add: get_run_def interpreter_ok_def)
  obtain found where found: "index_named ?r key = Ret found" "ridx = (case found of Some (j, _) \<Rightarrow> j | None \<Rightarrow> 0)"
    using left get [OF s]
    by (auto simp: named_value_def read_register_def rbind_def rlift_def rret_def rcrash_def rfail_def
        split: exec.splits option.splits context_type.splits)
  from add_to_index_lookup [OF current_ok [OF s] found(1), of "NArray (arr[unat i := v])"] found(2)
  obtain r' where r': "add_to_index ridx key (CValue (NArray (arr[unat i := v]))) ?r = Ret r'"
    "named r' key = Ret (Some (CValue (NArray (arr[unat i := v]))))" by auto
  define s' where "s' = s\<lparr>run_specifics := (run_specifics s)[run_index s := (current s)\<lparr>rs_register := r'\<rparr>]\<rparr>"
  have ok: "interpreter_ok s'" unfolding s'_def
    by (rule interpreter_ok_update [OF s]) (use add_to_index_ok(1) [OF current_ok [OF s] r'(1)] in simp)
  have "save ridx key (NArray (arr[unat i := v])) s = Some (Value (), s')"
    using s by (simp add: save_def try_register_def rbind_def get [OF s] r'(1) rlift_def rret_def put_run_def interpreter_ok_def s'_def)
  then have "store_return key (Some (NNumber i)) v (\<lambda>_ right. Ret right) s = Some (Value v, s')"
    using dict left arr by (cases left)
      (simp_all add: store_return_def dynamic_return_def rbind_def [of "named_value key"] handle_array_def rlift_def rbind_def [of "save _ _ _"]
        assigned_def, simp_all add: rret_def)
  moreover have "rs_register (current s') = r'" using current_update [OF s] by (simp add: s'_def)
  then have read: "read_register (\<lambda>r. named r key) s' = Some (Value (Some (CValue (NArray (arr[unat i := v])))), s')"
    by (simp add: read_register_def rbind_def get [OF ok] r'(2) rlift_def rret_def)
  then have "resolve_array res stmt (Some p) s' = Some (Value v, s')"
    using arr(2) read by (simp add: resolve_array_def stmt identifier_of_def rresult_def rbind_def [of "read_register _"]
        rbind_def [of "res p"] res value_i64_def Let_def) (simp add: rret_def)
  ultimately show ?thesis using ok by blast
qed

theorem element_assigned_witness:
  "\<exists>s'. store_return ''a'' (Some (NNumber 2)) (NBoolean True) (\<lambda>_ right. Ret right) (interpreter_new register_new ()) =
     Some (Value (NBoolean True), s')"
proof -
  have "named_value ''a'' (interpreter_new register_new ()) = Some (Value (0, NNull), interpreter_new register_new ())"
    by (simp add: named_value_def read_register_def rbind_def get_run_def rlift_def rret_def interpreter_new_def index_named_def
        register_new_def context_default_def)
  from element_assigned [OF _ this, of 2 "with_start_token (token_default\<lparr>tok_category := Identifier (Undefined ''a'')\<rparr>) SVariable"
      "\<lambda>_. rret (NNumber 2)" _ "NBoolean True"]
  show ?thesis by (auto simp: interpreter_ok_def interpreter_new_def register_new_ok rret_def)
qed

subsection \<open>Calls\<close>

lemma call_builtin_value:
  assumes "interpreter_ok s" and "identifier_of t = Inr name" and "executor_exec (cx_sets C) name = Some f"
    and "call_arguments res ps [] [] s = Some (Value (nameds, vs), s)"
    and "f (create_root_child (hm_insert FC_ANON_ARGS (CValue (NArray vs)) nameds) (rs_register (current s))) (world s) = (Ret (Inr v), w)"
    and "\<not> (\<exists>x. v = NFork x)"
  shows "call C res t ps s = Some (Value v, s\<lparr>world := w\<rparr>)"
proof -
  have "butlast (create_root_child d r) = r" for d r by (simp add: create_root_child_def)
  then show ?thesis
    using assms unfolding interpreter_ok_def
    by (cases v) (simp_all add: call_def rresult_def change_register_def change_run_def call_builtin_def nasl_fn_execute_def drop_last_def
        rbind_def get_run_def put_run_def rret_def)
qed

lemma call_builtin_fork:
  assumes "interpreter_ok s" and "run_index s = 0" and "identifier_of t = Inr name" and "executor_exec (cx_sets C) name = Some f"
    and "call_arguments res ps [] [] s = Some (Value (nameds, args), s)"
    and "f (create_root_child (hm_insert FC_ANON_ARGS (CValue (NArray args)) nameds) (rs_register (current s))) (world s) =
      (Ret (Inr (NFork (vs @ [v]))), w)"
  shows "call C res t ps s = Some (Value v, s\<lparr>world := w, run_specifics := run_specifics s @ map (\<lambda>i.
    \<lparr>rs_register = create_root_child (hm_insert FC_ANON_ARGS (CValue (NArray args)) nameds) (rs_register (current s)),
     rs_position = current_init_statement (rs_position (current s)), rs_skip = Some (rs_position (current s), i)\<rparr>) vs\<rparr>)"
proof -
  obtain rs rest where rs: "run_specifics s = rs # rest" using assms(1) by (cases "run_specifics s") (auto simp: interpreter_ok_def)
  have "butlast (create_root_child d (rs_register rs)) = rs_register rs" for d by (simp add: create_root_child_def)
  then show ?thesis
    using assms(2-6) rs
    by (simp add: call_def rresult_def change_register_def change_run_def call_builtin_def nasl_fn_execute_def fork_runs_def drop_last_def
        rbind_def get_run_def put_run_def rret_def nth_append)
qed


definition forking :: "unit context_config" where
  "forking = \<lparr>cx_sets = [\<lambda>name. if name = ''f'' then Some (\<lambda>_ _. (Ret (Inr (NFork [NNumber 1, NNumber 2])), ())) else None],
     cx_load = (\<lambda>key. Inl (LoadNotFound key)), cx_regex = (\<lambda>_. None)\<rparr>"


text \<open>
  A parameter that a call of a declared function leaves out, but that is the name of a global variable, has the value of
  the global variable in the function: the default is only set for names that are not visible.
\<close>

theorem omitted_parameter_is_global:
  assumes "interpreter_ok s" and "register_ok executable r" and "rs_register (current s) = create_root_child args r"
    and "\<forall>k ps body. (k, CFunction ps body) \<notin> set args"
    and "hm_get args p = None" and "hm_get (ctx_defined (hd r)) p = Some (CValue v)"
  shows "add_defaults [p] s = Some (Value (), s) \<and>
    (tok_category (stmt_start stmt) = Identifier (Undefined p) \<longrightarrow> resolve_variable stmt s = Some (Value v, s))"
proof -
  have "named (create_root_child args r) p = Ret (Some (CValue v))"
    by (subst named_create_root_child [of executable]) (use assms in auto)
  then have "read_register (\<lambda>r. named r p) s = Some (Value (Some (CValue v)), s)"
    using assms(1,3) by (simp add: read_register_def rbind_def get_run_def interpreter_ok_def rlift_def rret_def)
  then show ?thesis
    by (simp add: resolve_variable_def value_of_token_def rbind_def [of "read_register _"]) (simp add: rret_def)
qed

theorem omitted_parameter_is_global_witness:
  "add_defaults [''a''] (interpreter_new (create_root_child [] (root_initial [(''a'', CValue (NNumber 5))])) ()) =
     Some (Value (), interpreter_new (create_root_child [] (root_initial [(''a'', CValue (NNumber 5))])) ())"
proof -
  have r: "register_ok executable (root_initial [(''a'', CValue (NNumber 5))])"
    by (simp add: register_ok_def root_initial_def context_default_def context_ok_def)
  from omitted_parameter_is_global [of "interpreter_new (create_root_child [] (root_initial [(''a'', CValue (NNumber 5))])) ()", OF _ r, of "[]" "''a''" "NNumber 5"]
  show ?thesis
    using create_root_child_ok [OF r, of "[]"] by (simp add: interpreter_ok_def interpreter_new_def root_initial_def context_default_def)
qed

end
