(* ===== verification/Nasl_Builtins.thy ===== *)
theory Nasl_Builtins
  imports Nasl_Effects Storage
begin

section \<open>Built-in functions of NASL\<close>

text \<open>
  How a built-in function gets its arguments, \<^verbatim>\<open>rust/src/nasl/utils/function\<close> with what the attribute
  \<^verbatim>\<open>nasl_function\<close> generates around a function (the arguments are checked first, then fetched in the order of the
  signature, and the result is converted), and the sets of functions on arrays and on the knowledge base,
  \<^verbatim>\<open>rust/src/nasl/builtin/array\<close> and \<^verbatim>\<open>rust/src/nasl/builtin/knowledge_base\<close>. The functions of the knowledge base work on the
  in-memory storage. The order in which the names of a call are iterated and the clock are arguments.
\<close>

subsection \<open>Arguments\<close>

type_synonym 'a fn_result = "(function_error_kind + 'a) exec"

definition string_from_value :: "nasl_value \<Rightarrow> function_error_kind + string" where
  "string_from_value v = (case v of NString s \<Rightarrow> Inr s | _ \<Rightarrow> Inl (WrongArgument ''Expected string.''))"

definition get_optional_positional_arg :: "(nasl_value \<Rightarrow> function_error_kind + 'a) \<Rightarrow> register \<Rightarrow> nat \<Rightarrow> 'a option fn_result" where
  "get_optional_positional_arg conv r i = exec_bind (positional r) (\<lambda>ps. Ret (
     if i < length ps then map_sum id Some (conv (ps ! i)) else Inr None))"

definition get_positional_arg :: "(nasl_value \<Rightarrow> function_error_kind + 'a) \<Rightarrow> register \<Rightarrow> nat \<Rightarrow> nat \<Rightarrow> 'a fn_result" where
  "get_positional_arg conv r i num_required = exec_bind (positional r) (\<lambda>ps. Ret (
     if i < length ps then conv (ps ! i) else Inl (MissingPositionalArguments num_required (length ps))))"

definition context_type_as_nasl_value :: "context_type \<Rightarrow> string \<Rightarrow> function_error_kind + nasl_value" where
  "context_type_as_nasl_value c arg_name = (case c of
      CFunction _ _ \<Rightarrow> Inl (WrongArgument (''Wrong argument for '' @ arg_name @ '', expected a value, found a function.''))
    | CValue v \<Rightarrow> Inr v)"

definition get_optional_named_arg :: "(nasl_value \<Rightarrow> function_error_kind + 'a) \<Rightarrow> register \<Rightarrow> string \<Rightarrow> 'a option fn_result" where
  "get_optional_named_arg conv r name = exec_bind (named r name) (\<lambda>found. Ret (case found of
      None \<Rightarrow> Inr None
    | Some c \<Rightarrow> (case context_type_as_nasl_value c name of
        Inl e \<Rightarrow> Inl e
      | Inr v \<Rightarrow> map_sum id Some (conv v))))"

definition get_named_arg :: "(nasl_value \<Rightarrow> function_error_kind + 'a) \<Rightarrow> register \<Rightarrow> string \<Rightarrow> 'a fn_result" where
  "get_named_arg conv r name = exec_bind (named r name) (\<lambda>found. Ret (case found of
      None \<Rightarrow> Inl (MissingArguments [name])
    | Some c \<Rightarrow> (case context_type_as_nasl_value c name of Inl e \<Rightarrow> Inl e | Inr v \<Rightarrow> conv v)))"

fun check_names :: "string list \<Rightarrow> string list \<Rightarrow> string list \<Rightarrow> function_error_kind + nat" where
  "check_names nameds maybe_nameds [] = Inr 0"
| "check_names nameds maybe_nameds (a # as) =
     (if a = FC_ANON_ARGS \<or> a \<in> set nameds then check_names nameds maybe_nameds as
      else if a \<in> set maybe_nameds then map_sum id Suc (check_names nameds maybe_nameds as)
      else Inl (UnexpectedArgument a))"

definition check_named_args ::
  "((string \<times> context_type) list \<Rightarrow> (string \<times> context_type) list) \<Rightarrow> register \<Rightarrow> string list \<Rightarrow> string list \<Rightarrow> nat fn_result" where
  "check_named_args it r nameds maybe_nameds =
     exec_bind (exec_unwrap (iter_named_args it r)) (\<lambda>names. Ret (check_names nameds maybe_nameds names))"

definition check_args ::
  "((string \<times> context_type) list \<Rightarrow> (string \<times> context_type) list) \<Rightarrow> register \<Rightarrow> string list \<Rightarrow> string list \<Rightarrow> nat option \<Rightarrow> unit fn_result" where
  "check_args it r nameds maybe_nameds max_positional =
     res_bind (check_named_args it r nameds maybe_nameds) (\<lambda>num_maybe_named.
       exec_bind (positional r) (\<lambda>ps. Ret (case max_positional of
           None \<Rightarrow> Inr ()
         | Some m \<Rightarrow> (if length ps > m - num_maybe_named then Inl (TrailingPositionalArguments (m - num_maybe_named) (length ps))
             else Inr ()))))"

subsection \<open>Arrays\<close>

definition make_array :: "nasl_value list \<Rightarrow> (string, nasl_value) hashmap" where
  "make_array vs = fold (\<lambda>(idx, v) m. if idx mod 2 = 1 then hm_insert (value_display (vs ! (idx - 1))) v m else m) (enumerate 0 vs) []"

definition create_list :: "nasl_value list \<Rightarrow> nasl_value list" where
  "create_list vs = concat (map (\<lambda>v. case v of
      NDict x \<Rightarrow> map snd x
    | NArray x \<Rightarrow> x
    | NNull \<Rightarrow> []
    | x \<Rightarrow> [x]) vs)"

text \<open>The stable sort of \<^verbatim>\<open>Vec::sort\<close>, by the order of values.\<close>

definition nasl_sort :: "nasl_value list \<Rightarrow> nasl_value list" where
  "nasl_sort vs = sort_key (\<lambda>v. map unat (value_bytes v)) (create_list vs)"

fun array_keys :: "nasl_value list \<Rightarrow> nasl_value list option" where
  "array_keys [] = Some []"
| "array_keys (v # vs) = (case v of
      NDict x \<Rightarrow> map_option (\<lambda>ks. map (\<lambda>e. NString (fst e)) x @ ks) (array_keys vs)
    | NArray x \<Rightarrow> map_option (\<lambda>ks. map (\<lambda>i. NNumber (of_nat i)) [0..<length x] @ ks) (array_keys vs)
    | _ \<Rightarrow> None)"

definition max_index :: "nasl_value \<Rightarrow> nat option" where
  "max_index arr = (case arr of NDict x \<Rightarrow> Some (length x) | NArray x \<Rightarrow> Some (length x) | _ \<Rightarrow> None)"

text \<open>A function of all positional arguments.\<close>

definition positionals_fn ::
  "((string \<times> context_type) list \<Rightarrow> (string \<times> context_type) list) \<Rightarrow> (nasl_value list \<Rightarrow> nasl_value) \<Rightarrow> 'w builtin" where
  "positionals_fn it f = (\<lambda>r w. (res_bind (check_args it r [] [] None) (\<lambda>_. exec_bind (positional r) (\<lambda>vs. Ret (Inr (f vs)))), w))"

definition array_set :: "((string \<times> context_type) list \<Rightarrow> (string \<times> context_type) list) \<Rightarrow> string \<Rightarrow> 'w builtin option" where
  "array_set it k = map_of [
     (''make_array'', positionals_fn it (\<lambda>vs. NDict (make_array vs))),
     (''make_list'', positionals_fn it (\<lambda>vs. NArray (create_list vs))),
     (''sort'', positionals_fn it (\<lambda>vs. NArray (nasl_sort vs))),
     (''keys'', positionals_fn it (\<lambda>vs. case array_keys vs of Some ks \<Rightarrow> NArray ks | None \<Rightarrow> NNull)),
     (''max_index'', \<lambda>r w. (res_bind (check_args it r [] [] (Some 1)) (\<lambda>_.
        res_bind (get_positional_arg Inr r 0 1) (\<lambda>arr.
          Ret (Inr (case max_index arr of Some n \<Rightarrow> NNumber (of_nat n) | None \<Rightarrow> NNull)))), w))] k"

subsection \<open>The knowledge base\<close>

definition kb_expiry :: "64 word option \<Rightarrow> nasl_value option \<Rightarrow> function_error_kind + 64 word option" where
  "kb_expiry now expires = (case expires of
      Some (NNumber x) \<Rightarrow> Inr (Some (case now of Some secs \<Rightarrow> secs + x | None \<Rightarrow> 0))
    | Some (NExit x) \<Rightarrow> (if x = 0 then Inr None
        else Inl (Diagnostic (''expected expires to be a number but is '' @ value_display (NExit x) @ ''.'') None))
    | None \<Rightarrow> Inr None
    | Some x \<Rightarrow> Inl (Diagnostic (''expected expires to be a number but is '' @ value_display x @ ''.'') None))"

text \<open>The result of a dispatch, as the result of a function.\<close>

definition kb_dispatched :: "default_dispatcher \<times> (storage_error + unit) \<Rightarrow> nasl_value fn_result \<times> default_dispatcher" where
  "kb_dispatched x = (Ret (map_sum GeneralError (\<lambda>_. NNull) (snd x)), fst x)"

text \<open>Runs \<open>f\<close> on arguments that were fetched, or returns the error.\<close>

definition with_args :: "'a fn_result \<Rightarrow> ('a \<Rightarrow> nasl_value fn_result \<times> 'w) \<Rightarrow> 'w \<Rightarrow> nasl_value fn_result \<times> 'w" where
  "with_args args f w = (case args of Panic \<Rightarrow> (Panic, w) | Ret (Inl e) \<Rightarrow> (Ret (Inl e), w) | Ret (Inr a) \<Rightarrow> f a)"

definition set_kb_item ::
  "((string \<times> context_type) list \<Rightarrow> (string \<times> context_type) list) \<Rightarrow> 64 word option \<Rightarrow> context_key \<Rightarrow> default_dispatcher builtin" where
  "set_kb_item it now key r st = with_args
     (res_bind (check_args it r [''name'', ''value'', ''expires''] [] (Some 0)) (\<lambda>_.
      res_bind (get_named_arg Inr r ''name'') (\<lambda>name.
      res_bind (get_named_arg Inr r ''value'') (\<lambda>v.
      res_bind (get_optional_named_arg Inr r ''expires'') (\<lambda>expires.
        Ret (map_sum id (\<lambda>e. (name, v, e)) (kb_expiry now expires)))))))
     (\<lambda>(name, v, expire). kb_dispatched
        (dd_dispatch key (KB \<lparr>kb_key = value_display name, kb_value = as_primitive v, kb_expire = expire\<rparr>) st)) st"

definition kb_values :: "field list \<Rightarrow> nasl_value list" where
  "kb_values fs = List.map_filter (\<lambda>f. case f of KB kb \<Rightarrow> Some (from_primitive (kb_value kb)) | _ \<Rightarrow> None) fs"

definition get_kb_item ::
  "((string \<times> context_type) list \<Rightarrow> (string \<times> context_type) list) \<Rightarrow> iter_orders \<Rightarrow> context_key \<Rightarrow> default_dispatcher builtin" where
  "get_kb_item it I key r st =
     (res_bind (check_args it r [] [] (Some 1)) (\<lambda>_.
      res_bind (get_positional_arg string_from_value r 0 1) (\<lambda>k.
        exec_bind (dd_retrieve I key (RetrieveKB k) st) (\<lambda>fs. Ret (Inr (NFork (kb_values fs)))))), st)"

definition replace_kb_item ::
  "((string \<times> context_type) list \<Rightarrow> (string \<times> context_type) list) \<Rightarrow> context_key \<Rightarrow> default_dispatcher builtin" where
  "replace_kb_item it key r st = with_args
     (res_bind (check_args it r [''name'', ''value''] [] (Some 0)) (\<lambda>_.
      res_bind (get_named_arg Inr r ''name'') (\<lambda>name.
      res_bind (get_named_arg Inr r ''value'') (\<lambda>v. Ret (Inr (name, v))))))
     (\<lambda>(name, v). kb_dispatched
        (dd_dispatch_replace key (KB \<lparr>kb_key = value_display name, kb_value = as_primitive v, kb_expire = None\<rparr>) st)) st"

definition get_kb_list ::
  "((string \<times> context_type) list \<Rightarrow> (string \<times> context_type) list) \<Rightarrow> iter_orders \<Rightarrow> context_key \<Rightarrow> default_dispatcher builtin" where
  "get_kb_list it I key r st =
     (res_bind (check_args it r [] [] (Some 1)) (\<lambda>_.
      res_bind (get_positional_arg Inr r 0 1) (\<lambda>k.
        exec_bind (dd_retrieve I key (RetrieveKB (value_display k)) st) (\<lambda>fs. Ret (Inr (NArray (kb_values fs)))))), st)"

definition knowledge_base_set ::
  "((string \<times> context_type) list \<Rightarrow> (string \<times> context_type) list) \<Rightarrow> iter_orders \<Rightarrow> 64 word option \<Rightarrow> context_key \<Rightarrow>
     string \<Rightarrow> default_dispatcher builtin option" where
  "knowledge_base_set it I now key k = map_of [
     (''set_kb_item'', set_kb_item it now key),
     (''get_kb_item'', get_kb_item it I key),
     (''get_kb_list'', get_kb_list it I key),
     (''replace_kb_item'', replace_kb_item it key)] k"

subsection \<open>Arguments of a call\<close>

lemma check_names_known:
  "set names \<subseteq> insert FC_ANON_ARGS (set nameds) \<Longrightarrow> check_names nameds maybe_nameds names = Inr 0"
  by (induction names) auto

lemma named_call:
  assumes "register_ok executable r" and "\<forall>k ps body. (k, CFunction ps body) \<notin> set args"
  shows "named (create_root_child args r) x = Ret (case hm_get args x of Some v \<Rightarrow> Some v | None \<Rightarrow> hm_get (ctx_defined (hd r)) x)"
  by (rule named_create_root_child [OF assms(1)]) (use assms(2) in blast)

lemma positional_call:
  assumes "register_ok executable r" and "\<And>k ps body. (k, CFunction ps body) \<notin> set nameds"
  shows "positional (create_root_child (hm_insert FC_ANON_ARGS (CValue (NArray vs)) nameds) r) = Ret vs"
proof -
  have "\<forall>k ps body. (k, CFunction ps body) \<notin> set (hm_insert FC_ANON_ARGS (CValue (NArray vs)) nameds)"
    using set_hm_insert [of FC_ANON_ARGS "CValue (NArray vs)" nameds] assms(2) by blast
  from named_call [OF assms(1) this, of FC_ANON_ARGS] show ?thesis by (simp add: positional_def)
qed

lemma check_args_call:
  assumes "register_ok executable r" and "\<And>k ps body. (k, CFunction ps body) \<notin> set d" and "iteration it"
    and "d = hm_insert FC_ANON_ARGS (CValue (NArray vs)) nameds" and "fst ` set d \<subseteq> insert FC_ANON_ARGS (set known)" and "length vs \<le> m"
    and "\<And>k ps body. (k, CFunction ps body) \<notin> set nameds"
  shows "check_args it (create_root_child d r) known [] (Some m) = Ret (Inr ())"
proof -
  have "iter_named_args it (create_root_child d r) = Some (map fst (it d))"
    by (simp add: iter_named_args_def create_root_child_def)
  moreover have "check_names known [] (map fst (it d)) = Inr 0"
    by (rule check_names_known) (use assms(5) iteration_set [OF assms(3), of d] in simp)
  ultimately show ?thesis
    using assms(6) positional_call [OF assms(1,7)] by (simp add: check_args_def check_named_args_def assms(4))
qed

text \<open>
  A named argument that a call of a built-in function leaves out, but that is the name of a global variable, is taken from
  the global variable: the argument is looked up like a variable.
\<close>

theorem omitted_argument_is_global:
  assumes "register_ok executable r" and "\<forall>k ps body. (k, CFunction ps body) \<notin> set args"
    and "hm_get args name = None" and "hm_get (ctx_defined (hd r)) name = Some (CValue v)"
  shows "get_named_arg conv (create_root_child args r) name = Ret (conv v) \<and>
    get_optional_named_arg conv (create_root_child args r) name = Ret (map_sum id Some (conv v))"
  using named_call [OF assms(1,2), of name] assms(3,4)
  by (simp add: get_named_arg_def get_optional_named_arg_def context_type_as_nasl_value_def)

theorem omitted_argument_is_global_witness:
  "get_named_arg Inr (create_root_child [] (root_initial [(''value'', CValue (NNumber 5))])) ''value'' = Ret (Inr (NNumber 5))"
proof -
  have r: "register_ok executable (root_initial [(''value'', CValue (NNumber 5))])"
    by (simp add: register_ok_def root_initial_def context_default_def context_ok_def)
  from omitted_argument_is_global [OF r, of "[]" "''value''" "NNumber 5" Inr] show ?thesis
    by (simp add: root_initial_def context_default_def)
qed

subsection \<open>The knowledge base in a script\<close>

text \<open>A context in which the functions of the knowledge base are available.\<close>

definition kb_context ::
  "((string \<times> context_type) list \<Rightarrow> (string \<times> context_type) list) \<Rightarrow> iter_orders \<Rightarrow> 64 word option \<Rightarrow> context_key \<Rightarrow>
     default_dispatcher context_config \<Rightarrow> bool" where
  "kb_context it I now key C = (\<forall>k f. knowledge_base_set it I now key k = Some f \<longrightarrow> executor_exec (cx_sets C) k = Some f)"

abbreviation name_token :: "string \<Rightarrow> token \<Rightarrow> bool" where
  "name_token x t \<equiv> tok_category t = Identifier (Undefined x)"

lemma kb_names: "FC_ANON_ARGS \<noteq> ''name''" "FC_ANON_ARGS \<noteq> ''value''" "FC_ANON_ARGS \<noteq> ''expires''" "''name'' \<noteq> FC_ANON_ARGS"
  "''value'' \<noteq> FC_ANON_ARGS" "''expires'' \<noteq> FC_ANON_ARGS"
  by (simp_all add: FC_ANON_ARGS_def)

lemma set_kb_item_call:
  assumes "register_ok executable r" and "iteration it" and "hm_get (ctx_defined (hd r)) ''expires'' = None"
  shows "set_kb_item it now key (create_root_child (hm_insert FC_ANON_ARGS (CValue (NArray []))
      (hm_insert ''value'' (CValue v) (hm_insert ''name'' (CValue (NString n)) []))) r) st =
    (Ret (Inr NNull), cache_kb key \<lparr>kb_key = n, kb_value = as_primitive v, kb_expire = None\<rparr> st)"
proof -
  let ?d = "hm_insert FC_ANON_ARGS (CValue (NArray [])) (hm_insert ''value'' (CValue v) (hm_insert ''name'' (CValue (NString n)) []))"
  have d: "?d = [(''name'', CValue (NString n)), (''value'', CValue v), (FC_ANON_ARGS, CValue (NArray []))]" using kb_names by simp
  have no: "(k, CFunction ps body) \<notin> set ?d" for k ps body unfolding d by simp
  have "check_args it (create_root_child ?d r) [''name'', ''value'', ''expires''] [] (Some 0) = Ret (Inr ())"
    by (rule check_args_call [OF assms(1) no assms(2) refl]) (simp_all add: kb_names)
  moreover have "named (create_root_child ?d r) x = Ret (case hm_get ?d x of Some v \<Rightarrow> Some v | None \<Rightarrow> hm_get (ctx_defined (hd r)) x)" for x
    by (rule named_call [OF assms(1)]) (use no in blast)
  ultimately show ?thesis
    using assms(3) kb_names by (simp add: set_kb_item_def get_named_arg_def get_optional_named_arg_def context_type_as_nasl_value_def
        kb_expiry_def with_args_def kb_dispatched_def dd_dispatch_def)
qed

lemma get_kb_item_call:
  assumes "register_ok executable r" and "iteration it"
  shows "get_kb_item it I key (create_root_child (hm_insert FC_ANON_ARGS (CValue (NArray [NString n])) []) r) st =
    (Ret (Inr (NFork (map (\<lambda>k. from_primitive (kb_value k)) (dd_kb st key n)))), st)"
proof -
  let ?d = "hm_insert FC_ANON_ARGS (CValue (NArray [NString n])) []"
  have "check_args it (create_root_child ?d r) [] [] (Some 1) = Ret (Inr ())"
    by (rule check_args_call [OF assms(1) _ assms(2) refl]) simp_all
  moreover have "positional (create_root_child ?d r) = Ret [NString n]" by (rule positional_call [OF assms(1)]) simp
  moreover have "kb_values (map KB ks) = map (\<lambda>k. from_primitive (kb_value k)) ks" for ks
    by (simp add: kb_values_def map_filter_def comp_def)
  ultimately show ?thesis
    by (simp add: get_kb_item_def get_positional_arg_def string_from_value_def dd_retrieve_KB)
qed


definition kb_script :: "default_dispatcher context_config" where
  "kb_script = \<lparr>cx_sets = [knowledge_base_set id example_orders (Some 0) context_key_default],
     cx_load = (\<lambda>key. Inl (LoadNotFound key)), cx_regex = (\<lambda>_. None)\<rparr>"

definition kb_token :: "string \<Rightarrow> token" where
  "kb_token x = token_default\<lparr>tok_category := Identifier (Undefined x)\<rparr>"

definition kb_literal :: "nasl_value \<Rightarrow> statement" where
  "kb_literal v = with_start_token (token_default\<lparr>tok_category :=
     (case v of NString x \<Rightarrow> StringLit x | NNumber n \<Rightarrow> NumberLit n | _ \<Rightarrow> Identifier KwNull)\<rparr>) SPrimitive"

definition literal_resolver :: "default_dispatcher resolver" where
  "literal_resolver stmt = resolve_primitive stmt"


subsection \<open>Lists and dictionaries\<close>

lemma make_array_from:
  assumes "even (length pre)" and "length rest \<le> 1" and "vs = pre @ concat (map (\<lambda>(k, v). [k, v]) kvs) @ rest"
  shows "fold (\<lambda>(idx, v) m. if idx mod 2 = 1 then hm_insert (value_display (vs ! (idx - 1))) v m else m)
      (enumerate (length pre) (concat (map (\<lambda>(k, v). [k, v]) kvs) @ rest)) m = fold (\<lambda>(k, v). hm_insert (value_display k) v) kvs m"
  using assms
proof (induction kvs arbitrary: pre m)
  case Nil
  then show ?case by (cases rest) auto
next
  case (Cons kv kvs)
  obtain k v where kv: "kv = (k, v)" by (cases kv)
  have "vs ! length pre = k" using Cons.prems(3) by (simp add: kv)
  moreover have "fold (\<lambda>(idx, v) m. if idx mod 2 = 1 then hm_insert (value_display (vs ! (idx - 1))) v m else m)
      (enumerate (length (pre @ [k, v])) (concat (map (\<lambda>(k, v). [k, v]) kvs) @ rest)) (hm_insert (value_display k) v m) =
    fold (\<lambda>(k, v). hm_insert (value_display k) v) kvs (hm_insert (value_display k) v m)"
    by (rule Cons.IH) (use Cons.prems in \<open>simp_all add: kv\<close>)
  moreover have "Suc (length pre) mod 2 = 1" using Cons.prems(1) by presburger
  ultimately show ?case using Cons.prems(1) by (simp add: kv)
qed

text \<open>
  \<^verbatim>\<open>make_array\<close> of keys and values that follow each other is the dictionary in which every key, as a text, has the value
  given last for it, and a key without a value at the end is dropped.
\<close>

theorem make_array_pairs:
  assumes "length rest \<le> 1"
  shows "make_array (concat (map (\<lambda>(k, v). [k, v]) kvs) @ rest) = fold (\<lambda>(k, v). hm_insert (value_display k) v) kvs []"
  using make_array_from [of "[]" rest _ kvs "[]"] assms by (simp add: make_array_def)

theorem make_array_pairs_witness:
  "make_array [NString ''a'', NNumber 1, NString ''b'', NNumber 2, NString ''c''] = [(''a'', NNumber 1), (''b'', NNumber 2)]"
  using make_array_pairs [of "[NString ''c'']" "[(NString ''a'', NNumber 1), (NString ''b'', NNumber 2)]"] by simp

lemma value_cmp_not_Greater: "value_cmp a b \<noteq> Greater \<longleftrightarrow> map unat (value_bytes a) \<le> map unat (value_bytes b)"
  unfolding value_cmp_def list_cmp_ord_cmp ord_cmp_def by auto

text \<open>
  \<^verbatim>\<open>sort\<close> rearranges the elements of its arguments by the order of values, and that order is by the bytes of a number
  from the lowest to the highest: 256 comes before 1.
\<close>

theorem sort_by_bytes:
  "mset (nasl_sort vs) = mset (create_list vs) \<and> sorted_wrt (\<lambda>a b. value_cmp a b \<noteq> Greater) (nasl_sort vs) \<and>
   nasl_sort [NNumber 1, NNumber 256] = [NNumber 256, NNumber 1]"
proof (intro conjI)
  show "mset (nasl_sort vs) = mset (create_list vs)" by (simp add: nasl_sort_def)
  have "sorted (map (\<lambda>v. map unat (value_bytes v)) (nasl_sort vs))" by (simp add: nasl_sort_def)
  then show "sorted_wrt (\<lambda>a b. value_cmp a b \<noteq> Greater) (nasl_sort vs)"
    by (simp add: sorted_map value_cmp_not_Greater)
  show "nasl_sort [NNumber 1, NNumber 256] = [NNumber 256, NNumber 1]"
    by code_simp
qed

end
