(* ===== verification/Spec2Isabelle.thy ===== *)
theory Spec2Isabelle
  imports Notus Scan_Scheduler Nasl_Script Nasl_Fuel Nasl_Builtins
begin

text \<open>
  A verification library for the Rust implementation of the OpenVAS scanner, \<^verbatim>\<open>rust/src\<close> of the repository.

  \<^bold>\<open>The program.\<close> The scanner daemon \<^verbatim>\<open>openvasd\<close> takes scans from clients, keeps them in a storage, queues
  them in a scheduler and hands them to a scanner. The scanner plans a scan: it collects the scripts (VTs)
  of the scan and their transitive dependencies from the feed in the storage and lays them out in stages and
  waves. It then runs the scripts for each host, one after the other, checking the knowledge base items a
  script requires before it is interpreted, and keeps the status of the scan. Scripts read and write the
  knowledge base of their host and report results through the storage. Beside that, notus decides from
  product files which of the installed packages of a host are vulnerable. The scripts are written in NASL, a
  language with a tokenizer, a parser and an interpreter of its own, whose built-in functions give access to
  arrays, texts, the network and the knowledge base.

  \<^bold>\<open>The theories\<close>, in the order of their imports. File names are relative to \<^verbatim>\<open>rust/src\<close>; definitions carry the
  names of the functions they model, with a prefix where a name occurs more than once.

  \<^item> \<^verbatim>\<open>Prelude\<close>: panics as values (\<^verbatim>\<open>exec\<close>), hash maps as association lists with unspecified iteration order
    (\<^verbatim>\<open>iteration\<close>), lexicographic orders, text operations of the standard library, the locale \<^verbatim>\<open>partial_ord\<close>.
  \<^item> \<^verbatim>\<open>Package_Version\<close>, \<^verbatim>\<open>Packages\<close>, \<^verbatim>\<open>Notus\<close>: \<^verbatim>\<open>notus/packages\<close>, \<^verbatim>\<open>notus/vts.rs\<close>, \<^verbatim>\<open>notus/notus.rs\<close> and
    \<^verbatim>\<open>models/product.rs\<close>. The comparison of versions is a total order on canonical versions and what breaks it on
    others; parsing of the five package formats and when it panics; from a product file to the results of a
    scan; the cache of products holds only verified feeds and is transparent. The trait \<^verbatim>\<open>Package\<close> is the record
    \<^verbatim>\<open>package_ops\<close> with the locale \<^verbatim>\<open>package_trait\<close>, interpreted for every format.
  \<^item> \<^verbatim>\<open>Storage_Types\<close>, \<^verbatim>\<open>Nvt\<close>, \<^verbatim>\<open>Storage\<close>: \<^verbatim>\<open>storage/types.rs\<close>, \<^verbatim>\<open>time.rs\<close>, \<^verbatim>\<open>item.rs\<close>, \<^verbatim>\<open>mod.rs\<close>, \<^verbatim>\<open>retrieve.rs\<close> and
    \<^verbatim>\<open>models/advisories.rs\<close>. NVT records and their fields, the dispatcher that collects a script's description,
    and the in-memory storage. Its knowledge base refines a map from context and key to lists (locale
    \<^verbatim>\<open>kb_store\<close>); its well-formedness is an invariant of all operations.
  \<^item> \<^verbatim>\<open>Wave_Plan\<close>, \<^verbatim>\<open>Scheduling\<close>: \<^verbatim>\<open>scheduling/wave.rs\<close> and \<^verbatim>\<open>scheduling/mod.rs\<close>. Every script is in a later wave
    than its dependencies; planning always returns, also for cyclic dependencies; iterating a plan gives all
    waves in order. What planning needs of the storage is the locale \<^verbatim>\<open>nvt_retriever\<close>.
  \<^item> \<^verbatim>\<open>Crypt\<close>, \<^verbatim>\<open>Scan_Models\<close>, \<^verbatim>\<open>Scan_Status\<close>: \<^verbatim>\<open>openvasd/crypt.rs\<close> and \<^verbatim>\<open>models\<close>. Encryption of secrets and its
    text form, port lists, host counters (64 bit, with wrap-around) and the merging of status reports.
  \<^item> \<^verbatim>\<open>Scan_Runner\<close>: \<^verbatim>\<open>scanner\<close>. The run of one scan, from planning to its final status. The loader and the run
    of a script are arguments; what the checks of a script need of the storage is the locale \<^verbatim>\<open>kb_reader\<close>.
  \<^item> \<^verbatim>\<open>Scan_Storage\<close>: \<^verbatim>\<open>openvasd/storage/inmemory.rs\<close> and the storage of scripts in \<^verbatim>\<open>openvasd/storage/mod.rs\<close>. Credentials
    are read back as they were stored, results are numbered and appended, owners of scans.
  \<^item> \<^verbatim>\<open>Scan_Scheduler\<close>: \<^verbatim>\<open>openvasd/scheduling.rs\<close>. The queue and the running scans, with an invariant over all
    interleavings of client requests and background tasks, and the lock of the feed update. What it needs
    of a scanner is the locale \<^verbatim>\<open>scan_backend\<close>, interpreted for the native scanner.

  \<^item> \<^verbatim>\<open>Nasl_Token\<close>, \<^verbatim>\<open>Nasl_Statement\<close>, \<^verbatim>\<open>Nasl_Parser\<close>: \<^verbatim>\<open>nasl/syntax\<close> without the loader. Cursor and tokenizer,
    statements, and the parser with its binding powers and depth counter.
  \<^item> \<^verbatim>\<open>Nasl_Print\<close>, \<^verbatim>\<open>Nasl_Syntax\<close>, \<^verbatim>\<open>Nasl_Wellformed\<close>, \<^verbatim>\<open>Nasl_Precedence\<close>: what tokenizer and parser promise. The ranges of
    the tokens are in order and in the script, printed tokens are read back; the parser always returns and
    every item of its stream consumes tokens; the statements of a parse have the operands and targets the
    interpreter relies on; an expression is grouped by its binding powers, and one longer than the depth limit
    is lost.
  \<^item> \<^verbatim>\<open>Nasl_Value\<close>, \<^verbatim>\<open>Nasl_Register\<close>, \<^verbatim>\<open>Nasl_Error\<close>: \<^verbatim>\<open>nasl/utils/mod.rs\<close>, \<^verbatim>\<open>context.rs\<close>, \<^verbatim>\<open>error.rs\<close> and \<^verbatim>\<open>nasl/interpreter/error.rs\<close> together
    with the values of \<^verbatim>\<open>nasl/syntax/naslvalue.rs\<close>. Values and their conversions, the stack of contexts of a
    running script and its lookups, errors.
  \<^item> \<^verbatim>\<open>Nasl_Interpreter\<close>: the other files of \<^verbatim>\<open>nasl/interpreter\<close>. One definition per file's operation, over a record of
    the register, the forked runs and the recorded answers of built-in functions. Its monad has three
    outcomes: a value, an error of the interpreter, or a panic with its cause.
  \<^item> \<^verbatim>\<open>Nasl_Run\<close>, \<^verbatim>\<open>Nasl_Script\<close>, \<^verbatim>\<open>Nasl_Fuel\<close>, \<^verbatim>\<open>Nasl_Effects\<close>: what the interpreter promises. A parsed statement never reaches
    the code marked unreachable, never indexes a missing operand and never loses the outermost context (locale
    \<^verbatim>\<open>safe_resolver\<close>, interpreted for \<^verbatim>\<open>resolve\<close>); the text of an expression evaluates to the value of the
    expression; more fuel does not change a result (locale \<^verbatim>\<open>resolver_extends\<close>), and statements without loops
    over a condition, includes and calls of functions of the script end; forks, replays, assignments to elements,
    parameters and operators on values.
  \<^item> \<^verbatim>\<open>Nasl_Builtins\<close>: \<^verbatim>\<open>nasl/utils/function\<close>, \<^verbatim>\<open>nasl/builtin/array\<close> and \<^verbatim>\<open>nasl/builtin/knowledge_base\<close>. How a built-in function
    gets its arguments, and the functions on arrays and on the knowledge base, down to the in-memory storage.

  \<^bold>\<open>How the code is modelled.\<close> State is passed explicitly; a lock is the exclusive access to a part of the state
  and taken as never poisoned. Panics (\<^verbatim>\<open>unwrap\<close>, indices out of range, failed assertions) are the value \<^verbatim>\<open>Panic\<close>.
  Results are values of a sum type. Counters of type \<^verbatim>\<open>u64\<close> and \<^verbatim>\<open>usize\<close> are 64 bit words where they can wrap, as in a
  release build. Loops that may not end are partial functions into options and proved to return (collection
  of dependencies, placing in waves, iteration of a plan), or proved not to (\<^verbatim>\<open>per_item_dispatch\<close>). Log
  messages are left out. Texts are lists of bytes; the scripts, tokens and values of NASL are lists of characters
  below 256, which is what the loader makes of a file, and \<^verbatim>\<open>as_bytes\<close> is their UTF-8 form.

  \<^bold>\<open>Fuel.\<close> The parser and the interpreter of NASL use fuel; running out of it is the value None, distinct from every
  result and every panic. The parser is proved to return with one unit more than there are tokens, which is
  the fuel its iterator gives it. The fuel of \<^verbatim>\<open>resolve\<close> counts the nesting of statements, calls, includes and
  rounds of loops, since a script may run forever; a result once reached is the same with any more fuel. One more
  than the size of a statement is enough when it has no loops over a condition, includes and calls of functions
  of the script, and one more than the number of its operators for a script that is one expression; there the
  result is proved to be reached. A bound for all scripts cannot exist. Integers of NASL are 64 bit words with the
  wrap-around of a release build, and a division by zero panics.

  \<^bold>\<open>Arguments.\<close> Code outside the repository is an argument of the definitions: the regular expressions of notus
  and NASL, the date formats of chrono, the key stream of ChaCha20, base64 (law \<^verbatim>\<open>base64_coding\<close>), JSON and the
  random generator. The iteration order of hash maps is an argument as well. The files and signatures behind
  notus and the feed update of the storage are arguments too. The loader of scripts and the set of built-in
  functions are arguments of the interpreter, as they are fields of its context in the code.

  \<^bold>\<open>Not modelled.\<close> The built-in functions on texts, time, hosts, sockets, packets, SSH, HTTP, SNMP and cryptography, which
  are input and output or calls of libraries for the most part, and which the interpreter's theorems take as
  arbitrary functions; the source positions in the texts of errors; the file, JSON and redis storages; feed
  verification, transpilation and update; the HTTP interface, configuration and TLS of the daemon; the drivers
  of external scanners; the command line tools; the prototype of a plugin scheduler, which the scanner does not
  use; the C implementation, which consists of processes that share redis and sockets. They are input and
  output for the most part, or enter the modelled parts as arguments. The interpreter and the run of a scan are
  verified separately: the latter takes the run of a script as an argument.
\<close>

end
